(* ===== verification/Prelude.thy ===== *)
theory Prelude
  imports Main "HOL-Library.Code_Target_Nat" "HOL-Library.Word" "HOL-Library.Char_ord" "HOL-Library.List_Lexorder"
    "HOL-Library.Product_Lexorder"
begin

text \<open>
  Shared vocabulary of the development: machine integers, the outcome of a fallible Rust
  computation (a value, an error, or a panic), state-passing operations with the
  propagation that the \<open>?\<close> operator performs, and the rules by which such operations are
  verified.

  The kernel is built by \<open>cargo run\<close>, that is with the development profile, in which
  integer arithmetic is checked: an overflow is a panic, never a silent wrap-around. The
  target's panic strategy is \<open>abort\<close> (\<open>.cargo/x86_64-riptide.json\<close>), so nothing runs after a
  panic: \<open>Panic\<close> is a final outcome and no handler ever sees it.
\<close>

section \<open>Machine integers\<close>

type_synonym u8 = "8 word"
type_synonym u16 = "16 word"
type_synonym u32 = "32 word"
type_synonym u64 = "64 word"

text \<open>
  A \<open>usize\<close> is a natural number below \<open>usize_limit\<close>; every addition or subtraction on one is
  written with the check that the compiler inserts.
\<close>

type_synonym usize = nat

definition usize_limit :: nat where
  "usize_limit = 2 ^ 64"

definition usize_max :: usize where
  "usize_max = usize_limit - 1"

section \<open>Outcomes and operations\<close>

datatype panic =
    Todo          \<comment> \<open>\<open>todo!\<close>\<close>
  | Assert        \<comment> \<open>\<open>assert!\<close>, \<open>assert_eq!\<close>, \<open>assert_ne!\<close>\<close>
  | Unwrap        \<comment> \<open>\<open>unwrap\<close> or \<open>expect\<close> on \<open>None\<close> or \<open>Err\<close>\<close>
  | Overflow      \<comment> \<open>checked integer arithmetic\<close>
  | OutOfBounds   \<comment> \<open>slice or array indexing\<close>
  | Unreachable   \<comment> \<open>\<open>unreachable!\<close>\<close>
  | Explicit      \<comment> \<open>\<open>panic!\<close>\<close>

datatype ('e, 'a) outcome = Ok 'a | Err 'e | Panic panic

type_synonym ('s, 'e, 'a) op = "'s \<Rightarrow> ('e, 'a) outcome \<times> 's"

text \<open>The error type of operations that never return an error; they succeed or panic.\<close>

type_synonym infallible = unit

definition ret :: "'a \<Rightarrow> ('s, 'e, 'a) op" where
  "ret x = (\<lambda>s. (Ok x, s))"

definition fail :: "'e \<Rightarrow> ('s, 'e, 'a) op" where
  "fail e = (\<lambda>s. (Err e, s))"

definition panic :: "panic \<Rightarrow> ('s, 'e, 'a) op" where
  "panic p = (\<lambda>s. (Panic p, s))"

text \<open>\<open>try_bind m f\<close> is \<open>let x = m?; f(x)\<close>.\<close>

definition try_bind :: "('s, 'e, 'a) op \<Rightarrow> ('a \<Rightarrow> ('s, 'e, 'b) op) \<Rightarrow> ('s, 'e, 'b) op" where
  "try_bind m f = (\<lambda>s. case m s of
      (Ok x, s') \<Rightarrow> f x s'
    | (Err e, s') \<Rightarrow> (Err e, s')
    | (Panic p, s') \<Rightarrow> (Panic p, s'))"

definition asserting :: "bool \<Rightarrow> ('s, 'e, unit) op" where
  "asserting b = (if b then ret () else panic Assert)"

text \<open>\<open>expect\<close> and \<open>unwrap\<close> on an \<open>Option\<close>; \<open>ok_or\<close> on an \<open>Option\<close>.\<close>

definition unwrap :: "'a option \<Rightarrow> ('s, 'e, 'a) op" where
  "unwrap x = (case x of None \<Rightarrow> panic Unwrap | Some v \<Rightarrow> ret v)"

definition ok_or :: "'a option \<Rightarrow> 'e \<Rightarrow> ('s, 'e, 'a) op" where
  "ok_or x e = (case x of None \<Rightarrow> fail e | Some v \<Rightarrow> ret v)"

definition checked_add :: "usize \<Rightarrow> usize \<Rightarrow> ('s, 'e, usize) op" where
  "checked_add a b = (if a + b < usize_limit then ret (a + b) else panic Overflow)"

definition checked_sub :: "usize \<Rightarrow> usize \<Rightarrow> ('s, 'e, usize) op" where
  "checked_sub a b = (if b \<le> a then ret (a - b) else panic Overflow)"

text \<open>
  \<open>&xs[lo..hi]\<close> and \<open>dst[lo..hi].copy_from_slice(src)\<close>: both panic when the range does not lie
  inside the slice, the second also when the lengths differ.
\<close>

definition slice :: "'a list \<Rightarrow> usize \<Rightarrow> usize \<Rightarrow> ('s, 'e, 'a list) op" where
  "slice xs lo hi =
     (if lo \<le> hi \<and> hi \<le> length xs then ret (take (hi - lo) (drop lo xs)) else panic OutOfBounds)"

definition copy_from_slice :: "'a list \<Rightarrow> usize \<Rightarrow> usize \<Rightarrow> 'a list \<Rightarrow> ('s, 'e, 'a list) op" where
  "copy_from_slice dst lo hi src =
     (if lo \<le> hi \<and> hi \<le> length dst \<and> hi - lo = length src
      then ret (take lo dst @ src @ drop hi dst) else panic OutOfBounds)"

text \<open>\<open>Vec::resize\<close>.\<close>

definition vec_resize :: "'a list \<Rightarrow> usize \<Rightarrow> 'a \<Rightarrow> 'a list" where
  "vec_resize xs n v = take n xs @ replicate (n - length xs) v"

text \<open>
  An \<open>AtomicU64\<close> that is only ever advanced by \<open>fetch_add(1)\<close> is represented by the natural
  number of its initial value plus the number of increments; the 64-bit value that a
  \<open>fetch_add\<close> returns is that number reduced modulo \<open>2^64\<close>. \<open>fetch_add_wraps\<close> below shows that
  this is the wrapping increment of the machine word.
\<close>

definition atomic_value :: "nat \<Rightarrow> u64" where
  "atomic_value c = of_nat c"

definition fetch_add :: "nat \<Rightarrow> u64 \<times> nat" where
  "fetch_add c = (atomic_value c, Suc c)"

section \<open>Rust strings\<close>

text \<open>
  A \<open>str\<close> is the list of its UTF-8 bytes; a \<^typ>\<open>char\<close> of HOL is one such byte. \<open>split_on\<close> is
  \<open>str::split\<close> with a one-character separator.
\<close>

definition is_ascii_char :: "char \<Rightarrow> bool" where
  "is_ascii_char c \<longleftrightarrow> (of_char c :: nat) < 128"

definition is_ascii :: "string \<Rightarrow> bool" where
  "is_ascii s \<longleftrightarrow> list_all is_ascii_char s"

fun split_on :: "'a \<Rightarrow> 'a list \<Rightarrow> 'a list list" where
  "split_on c [] = [[]]"
| "split_on c (x # xs) =
     (if x = c then [] # split_on c xs
      else (case split_on c xs of
              [] \<Rightarrow> [[x]]
            | seg # segs \<Rightarrow> (x # seg) # segs))"

fun join_with :: "'a \<Rightarrow> 'a list list \<Rightarrow> 'a list" where
  "join_with c [] = []"
| "join_with c [seg] = seg"
| "join_with c (seg # segs) = seg @ c # join_with c segs"

text \<open>A \<open>for\<close> loop over the items of an iterator.\<close>

fun for_each :: "'a list \<Rightarrow> ('a \<Rightarrow> ('s, 'e, unit) op) \<Rightarrow> ('s, 'e, unit) op" where
  "for_each [] f = ret ()"
| "for_each (x # xs) f = try_bind (f x) (\<lambda>_. for_each xs f)"

section \<open>Automation\<close>

named_theorems op_simps \<open>unfolding of the operation combinators\<close>

declare ret_def [op_simps] fail_def [op_simps] panic_def [op_simps]
  try_bind_def [op_simps] asserting_def [op_simps] unwrap_def [op_simps]
  slice_def [op_simps] copy_from_slice_def [op_simps]
  ok_or_def [op_simps] checked_add_def [op_simps] checked_sub_def [op_simps]

section \<open>Verifying operations\<close>

text \<open>
  \<open>valid P m Q\<close>: from a state satisfying \<open>P\<close>, the outcome and the final state of \<open>m\<close> satisfy
  \<open>Q\<close>. The postcondition sees errors and panics too, so that the state left behind by a failed
  operation is specified as well; \<open>no_panic\<close> is the special postcondition of a total operation.
\<close>

definition valid :: "('s \<Rightarrow> bool) \<Rightarrow> ('s, 'e, 'a) op \<Rightarrow> (('e, 'a) outcome \<Rightarrow> 's \<Rightarrow> bool) \<Rightarrow> bool" where
  "valid P m Q \<longleftrightarrow> (\<forall>s. P s \<longrightarrow> Q (fst (m s)) (snd (m s)))"

definition is_panic :: "('e, 'a) outcome \<Rightarrow> bool" where
  "is_panic r = (case r of Panic _ \<Rightarrow> True | _ \<Rightarrow> False)"

section \<open>Lemmas\<close>

lemma fetch_add_wraps: "fetch_add c = (w, c') \<Longrightarrow> atomic_value c' = w + 1"
  by (auto simp: fetch_add_def atomic_value_def)

lemma atomic_value_inj:
  "a < 2 ^ 64 \<Longrightarrow> b < 2 ^ 64 \<Longrightarrow> atomic_value a = atomic_value b \<longleftrightarrow> a = b"
  by (auto simp: atomic_value_def word_of_nat_eq_iff take_bit_nat_def)

lemma atomic_value_eq_0: "0 < a \<Longrightarrow> a < 2 ^ 64 \<Longrightarrow> atomic_value a \<noteq> 0"
  using atomic_value_inj [of a 0] by (simp add: atomic_value_def)

lemma is_panic_simps [simp]:
  "\<not> is_panic (Ok x)" "\<not> is_panic (Err e)" "is_panic (Panic p)"
  by (simp_all add: is_panic_def)

lemma validI: "(\<And>s. P s \<Longrightarrow> Q (fst (m s)) (snd (m s))) \<Longrightarrow> valid P m Q"
  by (simp add: valid_def)

lemma validD: "valid P m Q \<Longrightarrow> P s \<Longrightarrow> m s = (r, s') \<Longrightarrow> Q r s'"
  by (metis fst_conv snd_conv valid_def)

lemma valid_weaken:
  "valid P m Q \<Longrightarrow> (\<And>s. P' s \<Longrightarrow> P s) \<Longrightarrow> (\<And>r s. Q r s \<Longrightarrow> Q' r s) \<Longrightarrow> valid P' m Q'"
  by (simp add: valid_def)

lemma valid_ret [intro]: "(\<And>s. P s \<Longrightarrow> Q (Ok x) s) \<Longrightarrow> valid P (ret x) Q"
  by (simp add: valid_def ret_def)

lemma valid_fail [intro]: "(\<And>s. P s \<Longrightarrow> Q (Err e) s) \<Longrightarrow> valid P (fail e) Q"
  by (simp add: valid_def fail_def)

lemma valid_panic [intro]: "(\<And>s. P s \<Longrightarrow> Q (Panic p) s) \<Longrightarrow> valid P (panic p) Q"
  by (simp add: valid_def panic_def)

lemma valid_try_bind:
  assumes m: "valid P m (\<lambda>r s. case r of Ok x \<Rightarrow> R x s | Err e \<Rightarrow> Q (Err e) s | Panic p \<Rightarrow> Q (Panic p) s)"
    and f: "\<And>x. valid (R x) (f x) Q"
  shows "valid P (try_bind m f) Q"
proof (rule validI)
  fix s assume "P s"
  obtain r s' where ms: "m s = (r, s')" by (cases "m s")
  from validD [OF m \<open>P s\<close> ms]
  have "case r of Ok x \<Rightarrow> R x s' | Err e \<Rightarrow> Q (Err e) s' | Panic p \<Rightarrow> Q (Panic p) s'" .
  then show "Q (fst (try_bind m f s)) (snd (try_bind m f s))"
    using f by (auto simp: try_bind_def ms valid_def split: outcome.splits)
qed

lemma try_bind_Ok [simp]: "m s = (Ok x, s') \<Longrightarrow> try_bind m f s = f x s'"
  by (simp add: try_bind_def)

lemma try_bind_Err [simp]: "m s = (Err e, s') \<Longrightarrow> try_bind m f s = (Err e, s')"
  by (simp add: try_bind_def)

lemma try_bind_Panic [simp]: "m s = (Panic p, s') \<Longrightarrow> try_bind m f s = (Panic p, s')"
  by (simp add: try_bind_def)

lemma try_bind_OkE:
  assumes "try_bind m f s = (Ok y, s'')"
  obtains x s' where "m s = (Ok x, s')" "f x s' = (Ok y, s'')"
  using assms by (auto simp: try_bind_def split: prod.splits outcome.splits)

lemma ret_simp [simp]: "ret x s = (Ok x, s)"
  by (simp add: ret_def)

lemma fail_simp [simp]: "fail e s = (Err e, s)"
  by (simp add: fail_def)

lemma panic_simp [simp]: "panic p s = (Panic p, s)"
  by (simp add: panic_def)

lemma split_on_not_Nil [simp]: "split_on c xs \<noteq> []"
  by (induction xs) (auto split: list.splits)

lemma join_with_Cons: "segs \<noteq> [] \<Longrightarrow> join_with c (seg # segs) = seg @ c # join_with c segs"
  by (cases segs) simp_all

lemma join_with_prepend: "join_with c ((x # seg) # segs) = x # join_with c (seg # segs)"
  by (cases segs) simp_all

lemma join_split [simp]: "join_with c (split_on c xs) = xs"
proof (induction xs)
  case Nil
  then show ?case by simp
next
  case (Cons x xs)
  obtain seg segs where s: "split_on c xs = seg # segs"
    by (meson neq_Nil_conv split_on_not_Nil)
  with Cons.IH show ?case
    by (simp add: join_with_Cons join_with_prepend del: join_with.simps(3))
qed

lemma split_on_sep_free: "seg \<in> set (split_on c xs) \<Longrightarrow> c \<notin> set seg"
proof (induction xs arbitrary: seg)
  case Nil
  then show ?case by simp
next
  case (Cons x xs)
  then show ?case by (fastforce split: if_splits list.splits)
qed

lemma split_on_single: "c \<notin> set xs \<Longrightarrow> split_on c xs = [xs]"
  by (induction xs) auto

lemma split_on_append_sep: "c \<notin> set xs \<Longrightarrow> split_on c (xs @ c # ys) = xs # split_on c ys"
  by (induction xs) auto

lemma split_join: "segs \<noteq> [] \<Longrightarrow> \<forall>seg \<in> set segs. c \<notin> set seg \<Longrightarrow> split_on c (join_with c segs) = segs"
  by (induction c segs rule: join_with.induct) (auto simp: split_on_single split_on_append_sep)

lemma word_inc_unat: "v \<noteq> - 1 \<Longrightarrow> unat (v + 1 :: 'a :: len word) = Suc (unat v)"
  by (metis add.commute add_eq_0_iff2 unatSuc)

lemma word_less_inc: "w < v \<Longrightarrow> v \<noteq> - 1 \<Longrightarrow> w < (v + 1 :: 'a :: len word)"
  by (simp add: word_less_nat_alt word_inc_unat)

lemma word_self_inc: "v \<noteq> - 1 \<Longrightarrow> v < (v + 1 :: 'a :: len word)"
  by (simp add: word_less_nat_alt word_inc_unat)

lemma find_SomeD: "List.find P xs = Some x \<Longrightarrow> x \<in> set xs \<and> P x"
  by (auto simp: find_Some_iff)

lemma find_ex: "x \<in> set xs \<Longrightarrow> P x \<Longrightarrow> \<exists>y. List.find P xs = Some y"
  by (cases "List.find P xs") (auto simp: find_None_iff)

lemma find_map_comp: "List.find P (map f xs) = map_option f (List.find (P \<circ> f) xs)"
  by (induction xs) simp_all

lemma option_eqI: "(\<And>y. x = Some y \<longleftrightarrow> z = Some y) \<Longrightarrow> x = z"
  by (cases x; cases z) auto

lemma for_each_append: "for_each (xs @ ys) f s = try_bind (for_each xs f) (\<lambda>_. for_each ys f) s"
  by (induction xs arbitrary: s) (simp_all add: try_bind_def split: prod.split outcome.split)

lemma try_bind_unit: "try_bind m ret s = m s"
  by (simp add: try_bind_def split: prod.split outcome.split)

lemma try_bind_assoc: "try_bind (try_bind m f) g = try_bind m (\<lambda>x. try_bind (f x) g)"
  by (simp add: fun_eq_iff try_bind_def split: prod.split outcome.split)

text \<open>A loop all of whose iterations succeed is the fold of their effects.\<close>

lemma for_each_foldl:
  assumes "\<And>s x. I s \<Longrightarrow> x \<in> set xs \<Longrightarrow> f x s = (Ok (), g s x) \<and> I (g s x)" "I s"
  shows "for_each xs f s = (Ok (), foldl g s xs) \<and> I (foldl g s xs)"
  using assms
proof (induction xs arbitrary: s)
  case (Cons x xs)
  have "f x s = (Ok (), g s x)" "I (g s x)" using Cons.prems by simp_all
  then show ?case using Cons.IH [of "g s x"] Cons.prems(1) by simp
qed simp

section \<open>Systems with bounded counters\<close>

text \<open>
  A transition system whose steps keep an invariant as long as no counter has overflowed, where
  counters never go back: then the invariant holds in every reachable state whose counters
  have not overflowed.
\<close>

locale counted_system =
  fixes step :: "'s \<Rightarrow> 's \<Rightarrow> bool"
    and inv :: "'s \<Rightarrow> bool"
    and bounded :: "'s \<Rightarrow> bool"
  assumes step_inv: "inv s \<Longrightarrow> step s s' \<Longrightarrow> bounded s' \<Longrightarrow> inv s'"
    and step_bounded: "step s s' \<Longrightarrow> bounded s' \<Longrightarrow> bounded s"
begin

lemma reach_bounded: "step\<^sup>*\<^sup>* s s' \<Longrightarrow> bounded s' \<Longrightarrow> bounded s"
  by (induction rule: rtranclp_induct) (auto dest: step_bounded)

lemma reach_inv: "step\<^sup>*\<^sup>* s s' \<Longrightarrow> inv s \<Longrightarrow> bounded s' \<Longrightarrow> inv s'"
  by (induction rule: rtranclp_induct) (auto dest: step_inv step_bounded)

end

end
