(* ===== verification/Fs_Path.thy ===== *)
theory Fs_Path
  imports Prelude
begin

text \<open>
  Path parsing, \<open>fs/path.rs\<close>. A path is the list of its segments; an absolute path starts
  with the pseudo-segment \<open>/\<close>. Parsing a string outside ASCII is a \<open>todo!\<close>.
\<close>

definition MAX_PATH_LENGTH :: usize where
  "MAX_PATH_LENGTH = 4096"

record path =
  segments :: "string list"

datatype path_parse_error = Empty | MaxLengthExceeded

definition slash :: char where
  "slash = CHR ''/''"

text \<open>\<open>Path::is_absolute\<close>: \<open>self.segments.first().unwrap() == "/"\<close>.\<close>

definition is_absolute :: "path \<Rightarrow> ('e, bool) outcome" where
  "is_absolute p = (case segments p of [] \<Rightarrow> Panic Unwrap | seg # _ \<Rightarrow> Ok (seg = [slash]))"

text \<open>\<open>Path::from_str\<close>.\<close>

definition path_from_str :: "string \<Rightarrow> (path_parse_error, path) outcome" where
  "path_from_str s =
     (if \<not> is_ascii s then Panic Todo
      else if s = [] then Err Empty
      else if length s > MAX_PATH_LENGTH then Err MaxLengthExceeded
      else
        let (segs, rest) =
              (case s of
                 c # cs \<Rightarrow> if c = slash then ([[slash]], cs) else ([], s)
               | [] \<Rightarrow> ([], s));
            segs = (if rest \<noteq> [] then segs @ split_on slash rest else segs)
        in Ok \<lparr>segments = segs\<rparr>)"

section \<open>Specification\<close>

text \<open>
  What the segments of a parsed path are: the text of the path, in the sense that printing
  the segments gives the string back. A list of segments is the parse of some string exactly
  when \<open>path_wf\<close> holds.
\<close>

definition path_to_str :: "path \<Rightarrow> string" where
  "path_to_str p =
     (case segments p of
        [] \<Rightarrow> []
      | seg # segs \<Rightarrow> if seg = [slash] then slash # join_with slash segs
                     else join_with slash (seg # segs))"

definition path_wf :: "path \<Rightarrow> bool" where
  "path_wf p \<longleftrightarrow>
     (case segments p of
        [] \<Rightarrow> False
      | seg # segs \<Rightarrow>
          (if seg = [slash] then (\<forall>x \<in> set segs. slash \<notin> set x) \<and> segs \<noteq> [[]]
           else (\<forall>x \<in> set (seg # segs). slash \<notin> set x) \<and> (segs = [] \<longrightarrow> seg \<noteq> []) \<and> seg \<noteq> []))
     \<and> is_ascii (path_to_str p) \<and> length (path_to_str p) \<le> MAX_PATH_LENGTH"

section \<open>Lemmas\<close>

lemma split_on_eq_slash: "split_on slash rest \<noteq> [[slash]]"
  using split_on_sep_free [of "[slash]" slash rest] by auto

lemma hd_split_on_slash: "split_on slash rest = seg # segs \<Longrightarrow> seg \<noteq> [slash]"
  using split_on_sep_free [of "[slash]" slash rest] by auto

lemma path_from_str_absolute:
  assumes "is_ascii (slash # rest)" "length rest < MAX_PATH_LENGTH"
  shows "path_from_str (slash # rest) =
    Ok \<lparr>segments = [slash] # (if rest = [] then [] else split_on slash rest)\<rparr>"
  using assms by (simp add: path_from_str_def MAX_PATH_LENGTH_def)

lemma path_from_str_relative:
  assumes "is_ascii s" "s \<noteq> []" "hd s \<noteq> slash" "length s \<le> MAX_PATH_LENGTH"
  shows "path_from_str s = Ok \<lparr>segments = split_on slash s\<rparr>"
  using assms by (cases s) (simp_all add: path_from_str_def)

lemma path_from_str_OkE:
  assumes "path_from_str s = Ok p"
  obtains
    (absolute) rest where "s = slash # rest" "is_ascii s" "length rest < MAX_PATH_LENGTH"
      "p = \<lparr>segments = [slash] # (if rest = [] then [] else split_on slash rest)\<rparr>"
  | (relative) "s \<noteq> []" "hd s \<noteq> slash" "is_ascii s" "length s \<le> MAX_PATH_LENGTH"
      "p = \<lparr>segments = split_on slash s\<rparr>"
proof -
  have s: "is_ascii s" "s \<noteq> []" "length s \<le> MAX_PATH_LENGTH"
    using assms by (auto simp: path_from_str_def split: if_splits)
  show ?thesis
  proof (cases "hd s = slash")
    case True
    with s obtain rest where r: "s = slash # rest" by (cases s) auto
    with s have "length rest < MAX_PATH_LENGTH" by simp
    with s r assms show ?thesis by (intro absolute [of rest]) (simp_all add: path_from_str_absolute)
  next
    case False
    with s assms show ?thesis by (intro relative) (simp_all add: path_from_str_relative)
  qed
qed

lemma path_from_str_Ok_absolute:
  assumes "path_from_str s = Ok p"
  shows "is_absolute p = Ok (hd s = slash)"
  using assms
proof (cases rule: path_from_str_OkE)
  case (absolute rest)
  then show ?thesis by (simp add: is_absolute_def)
next
  case relative
  then obtain seg segs where "split_on slash s = seg # segs"
    by (meson neq_Nil_conv split_on_not_Nil)
  with relative hd_split_on_slash show ?thesis by (simp add: is_absolute_def)
qed

lemma path_segments_nonempty: "path_from_str s = Ok p \<Longrightarrow> segments p \<noteq> []"
  by (erule path_from_str_OkE) auto

section \<open>Properties\<close>

text \<open>
  C37: parsing loses nothing. The segments of a successfully parsed path, printed with one
  slash between neighbours (and the leading slash of an absolute path), are the input string,
  and asking whether the path is absolute never panics and answers whether the string starts
  with a slash.
\<close>

theorem path_parse_print:
  assumes "path_from_str s = Ok p"
  shows "path_to_str p = s \<and> is_absolute p = Ok (hd s = slash)"
proof
  show "path_to_str p = s"
    using assms
  proof (cases rule: path_from_str_OkE)
    case (absolute rest)
    then show ?thesis by (simp add: path_to_str_def)
  next
    case relative
    obtain seg segs where s: "split_on slash s = seg # segs"
      by (meson neq_Nil_conv split_on_not_Nil)
    then have "seg \<noteq> [slash]" by (rule hd_split_on_slash)
    with s relative(5) have "path_to_str p = join_with slash (split_on slash s)"
      by (simp add: path_to_str_def)
    then show ?thesis by simp
  qed
  show "is_absolute p = Ok (hd s = slash)"
    using assms by (rule path_from_str_Ok_absolute)
qed

theorem path_parse_print_witness:
  "path_from_str ''/dev/null'' = Ok \<lparr>segments = [''/'', ''dev'', ''null'']\<rparr>
   \<and> path_to_str \<lparr>segments = [''/'', ''dev'', ''null'']\<rparr> = ''/dev/null''
   \<and> is_absolute \<lparr>segments = [''/'', ''dev'', ''null'']\<rparr> = (Ok True :: (unit, bool) outcome)"
proof -
  have h: "path_from_str ''/dev/null'' = Ok \<lparr>segments = [''/'', ''dev'', ''null'']\<rparr>"
    by (simp add: path_from_str_def slash_def is_ascii_def is_ascii_char_def MAX_PATH_LENGTH_def)
  show ?thesis
    using h path_parse_print [OF h, where ?'a = unit] by (simp add: slash_def)
qed

text \<open>
  Parsing is onto the well-formed paths. Every list of segments that could have come from
  a string (non-empty, no slash inside a segment, no lone empty segment, ASCII, at most 4096
  characters) is what its printed form parses to.
\<close>

lemma path_print_parse:
  assumes "path_wf p"
  shows "path_from_str (path_to_str p) = Ok p"
proof -
  obtain segs0 where p: "p = \<lparr>segments = segs0\<rparr>" by (cases p) auto
  with assms obtain seg segs where s0: "segs0 = seg # segs"
    by (cases segs0) (auto simp: path_wf_def)
  have asc: "is_ascii (path_to_str p)" and len: "length (path_to_str p) \<le> MAX_PATH_LENGTH"
    using assms by (simp_all add: path_wf_def)
  show ?thesis
  proof (cases "seg = [slash]")
    case True
    with assms p s0 have free: "\<forall>x \<in> set segs. slash \<notin> set x" and ne: "segs \<noteq> [[]]"
      by (simp_all add: path_wf_def)
    have str: "path_to_str p = slash # join_with slash segs"
      using True p s0 by (simp add: path_to_str_def)
    have "join_with slash segs = [] \<longleftrightarrow> segs = []"
      using ne by (cases "(slash, segs)" rule: join_with.cases) auto
    with str asc len True p s0 show ?thesis
      using split_join [OF _ free] by (simp add: path_from_str_absolute)
  next
    case False
    with assms p s0 have free: "\<forall>x \<in> set (seg # segs). slash \<notin> set x" and ne: "seg \<noteq> []"
      by (simp_all add: path_wf_def)
    have str: "path_to_str p = join_with slash (seg # segs)"
      using False p s0 by (simp add: path_to_str_def)
    have "hd (join_with slash (seg # segs)) = hd seg" "join_with slash (seg # segs) \<noteq> []"
      using ne by (cases segs; simp)+
    moreover have "hd seg \<noteq> slash" using free ne by (metis hd_in_set list.set_intros(1))
    ultimately show ?thesis
      using str asc len p s0 split_join [OF _ free] by (simp add: path_from_str_relative)
  qed
qed

text \<open>
  The outcome of parsing is determined by the string alone: outside ASCII it is the
  \<open>todo!\<close>, the empty string and an over-long string are the two errors, and every other string
  parses.
\<close>

lemma path_from_str_total:
  "(path_from_str s = Panic Todo \<longleftrightarrow> \<not> is_ascii s)
   \<and> (path_from_str s = Err Empty \<longleftrightarrow> s = [])
   \<and> (path_from_str s = Err MaxLengthExceeded \<longleftrightarrow> is_ascii s \<and> 4096 < length s)
   \<and> ((\<exists>p. path_from_str s = Ok p) \<longleftrightarrow> is_ascii s \<and> s \<noteq> [] \<and> length s \<le> 4096)"
  by (auto simp: path_from_str_def MAX_PATH_LENGTH_def is_ascii_def Let_def split: list.splits)

end
