(* ===== verification/BTree_Map.thy ===== *)
theory BTree_Map
  imports Prelude
begin

text \<open>
  The standard library's \<open>BTreeMap\<close>, as the sequence of its entries in key order. The kernel
  uses it for every table: open files, mounts, the directory cache, the children of a
  directory, registries and tasks. The laws of lookup after an update are the interface
  \<open>keyed_map\<close>; in-order iteration (\<open>values\<close>, \<open>iter\<close>, \<open>into_values\<close>) is the list itself.
\<close>

type_synonym ('k, 'v) btree_map = "('k \<times> 'v) list"

abbreviation bt_empty :: "('k, 'v) btree_map" where
  "bt_empty \<equiv> []"

fun bt_get :: "'k \<Rightarrow> ('k, 'v) btree_map \<Rightarrow> 'v option" where
  "bt_get k [] = None"
| "bt_get k ((k', v) # m) = (if k = k' then Some v else bt_get k m)"

fun bt_insert :: "'k :: linorder \<Rightarrow> 'v \<Rightarrow> ('k, 'v) btree_map \<Rightarrow> ('k, 'v) btree_map" where
  "bt_insert k v [] = [(k, v)]"
| "bt_insert k v (e # m) =
     (if fst e = k then (k, v) # m
      else if k < fst e then (k, v) # e # m
      else e # bt_insert k v m)"

definition bt_remove :: "'k \<Rightarrow> ('k, 'v) btree_map \<Rightarrow> ('k, 'v) btree_map" where
  "bt_remove k m = filter (\<lambda>e. fst e \<noteq> k) m"

definition bt_contains_key :: "'k \<Rightarrow> ('k, 'v) btree_map \<Rightarrow> bool" where
  "bt_contains_key k m \<longleftrightarrow> bt_get k m \<noteq> None"

definition bt_values :: "('k, 'v) btree_map \<Rightarrow> 'v list" where
  "bt_values m = map snd m"

definition bt_retain :: "('k \<Rightarrow> 'v \<Rightarrow> bool) \<Rightarrow> ('k, 'v) btree_map \<Rightarrow> ('k, 'v) btree_map" where
  "bt_retain P m = filter (\<lambda>(k, v). P k v) m"

definition bt_sorted :: "('k :: linorder, 'v) btree_map \<Rightarrow> bool" where
  "bt_sorted m \<longleftrightarrow> sorted_wrt (<) (map fst m)"

section \<open>The interface\<close>

locale keyed_map =
  fixes get :: "'k \<Rightarrow> 'm \<Rightarrow> 'v option"
    and insert :: "'k \<Rightarrow> 'v \<Rightarrow> 'm \<Rightarrow> 'm"
    and remove :: "'k \<Rightarrow> 'm \<Rightarrow> 'm"
    and empty :: "'m"
  assumes get_empty: "get k empty = None"
    and get_insert: "get k (insert k' v m) = (if k = k' then Some v else get k m)"
    and get_remove: "get k (remove k' m) = (if k = k' then None else get k m)"
begin

lemma get_insert_same: "get k (insert k v m) = Some v"
  by (simp add: get_insert)

lemma get_insert_other: "k \<noteq> k' \<Longrightarrow> get k (insert k' v m) = get k m"
  by (simp add: get_insert)

lemma insert_commute: "k \<noteq> k' \<Longrightarrow> get j (insert k v (insert k' v' m)) = get j (insert k' v' (insert k v m))"
  by (simp add: get_insert)

lemma remove_insert: "get k m = None \<Longrightarrow> get j (remove k (insert k v m)) = get j m"
  by (simp add: get_insert get_remove)

end

lemma bt_get_insert [simp]: "bt_get k (bt_insert k' v m) = (if k = k' then Some v else bt_get k m)"
  by (induction k' v m rule: bt_insert.induct) (auto split: if_splits)

lemma bt_get_remove [simp]: "bt_get k (bt_remove k' m) = (if k = k' then None else bt_get k m)"
  by (induction m) (auto simp: bt_remove_def)

interpretation bt: keyed_map bt_get bt_insert bt_remove bt_empty
  by unfold_locales simp_all

section \<open>Order\<close>

lemma bt_sorted_empty [simp]: "bt_sorted bt_empty"
  by (simp add: bt_sorted_def)

lemma bt_insert_keys: "fst ` set (bt_insert k v m) = insert k (fst ` set m)"
  by (induction k v m rule: bt_insert.induct) auto

lemma bt_sorted_Cons [simp]: "bt_sorted (e # m) \<longleftrightarrow> (\<forall>j \<in> fst ` set m. fst e < j) \<and> bt_sorted m"
  by (simp add: bt_sorted_def)

lemma bt_sorted_insert [simp, intro]: "bt_sorted m \<Longrightarrow> bt_sorted (bt_insert k v m)"
proof (induction k v m rule: bt_insert.induct)
  case (1 k v)
  then show ?case by simp
next
  case (2 k v e m)
  show ?case
  proof (cases "fst e < k")
    case True
    with "2" show ?thesis by (auto simp: bt_insert_keys)
  next
    case False
    with "2.prems" show ?thesis by (auto simp: not_less_iff_gr_or_eq)
  qed
qed

lemma bt_sorted_filter: "bt_sorted m \<Longrightarrow> bt_sorted (filter P m)"
  by (induction m) auto

lemma bt_sorted_remove [simp, intro]: "bt_sorted m \<Longrightarrow> bt_sorted (bt_remove k m)"
  by (simp add: bt_remove_def bt_sorted_filter)

lemma bt_sorted_retain [simp, intro]: "bt_sorted m \<Longrightarrow> bt_sorted (bt_retain P m)"
  by (simp add: bt_retain_def bt_sorted_filter)

lemma bt_get_mem: "bt_get k m = Some v \<Longrightarrow> (k, v) \<in> set m"
  by (induction m) (auto split: if_splits)

lemma bt_get_None_iff: "bt_get k m = None \<longleftrightarrow> k \<notin> fst ` set m"
  by (induction m) (auto split: if_splits)

lemma bt_sorted_mem_get: "bt_sorted m \<Longrightarrow> (k, v) \<in> set m \<Longrightarrow> bt_get k m = Some v"
proof (induction m)
  case Nil
  then show ?case by simp
next
  case (Cons e m)
  show ?case
  proof (cases "e = (k, v)")
    case True
    then show ?thesis by simp
  next
    case False
    with Cons.prems have m: "(k, v) \<in> set m" by simp
    with Cons.prems(1) have "fst e < k" by force
    moreover have "bt_get k m = Some v" using Cons.IH Cons.prems(1) m by simp
    ultimately show ?thesis by (cases e) auto
  qed
qed

lemma bt_mem_iff: "bt_sorted m \<Longrightarrow> (k, v) \<in> set m \<longleftrightarrow> bt_get k m = Some v"
  using bt_get_mem [of k m v] bt_sorted_mem_get [of m k v] by blast

lemma bt_values_iff: "bt_sorted m \<Longrightarrow> v \<in> set (bt_values m) \<longleftrightarrow> (\<exists>k. bt_get k m = Some v)"
  by (auto simp: bt_values_def bt_mem_iff [symmetric] image_iff intro: rev_bexI)

lemma bt_insert_set: "set (bt_insert k v m) \<subseteq> insert (k, v) (set m)"
  by (induction k v m rule: bt_insert.induct) auto

lemma bt_get_retain: "bt_sorted m \<Longrightarrow>
  bt_get k (bt_retain P m) = (case bt_get k m of None \<Rightarrow> None | Some v \<Rightarrow> if P k v then Some v else None)"
proof (induction m)
  case Nil
  then show ?case by (simp add: bt_retain_def)
next
  case (Cons e m)
  obtain k' v' where e: "e = (k', v')" by (cases e)
  have m: "bt_sorted m" and "k' \<notin> fst ` set m"
    using Cons.prems e by auto
  then have "bt_get k' m = None" by (simp add: bt_get_None_iff)
  then show ?case using Cons.IH [OF m] by (auto simp: e bt_retain_def)
qed

lemma bt_contains_key_iff: "bt_contains_key k m \<longleftrightarrow> (\<exists>v. bt_get k m = Some v)"
  by (auto simp: bt_contains_key_def)

lemma bt_eqI:
  assumes "bt_sorted m" "bt_sorted m'" "\<And>k. bt_get k m = bt_get k m'"
  shows "m = m'"
proof -
  have set: "set m = set m'"
    using assms by (simp add: set_eq_iff bt_mem_iff split_paired_all)
  have "sorted (map fst m)" "distinct (map fst m)" "sorted (map fst m')" "distinct (map fst m')"
    using assms(1,2) by (simp_all add: bt_sorted_def strict_sorted_iff)
  moreover have "inj_on fst (set m \<union> set m')"
    using set \<open>distinct (map fst m)\<close> by (simp add: distinct_map)
  ultimately show ?thesis
    using set by (intro map_sorted_distinct_set_unique [of fst]) simp_all
qed

lemma bt_insert_same: "bt_sorted m \<Longrightarrow> bt_get k m = Some v \<Longrightarrow> bt_insert k v m = m"
  by (rule bt_eqI) auto

text \<open>Replacing the value of a key that is there keeps the keys and their order.\<close>

lemma bt_insert_replace:
  "bt_sorted m \<Longrightarrow> bt_get k m \<noteq> None \<Longrightarrow>
     bt_insert k v m = map (\<lambda>(k', v'). (k', if k' = k then v else v')) m"
proof (induction m)
  case Nil
  then show ?case by simp
next
  case (Cons e m)
  obtain k' v' where e: "e = (k', v')" by (cases e)
  show ?case
  proof (cases "k' = k")
    case True
    have "k \<notin> fst ` set m" using Cons.prems(1) e True by auto
    then have "map (\<lambda>(k', v'). (k', if k' = k then v else v')) m = m"
      by (intro map_idI) force
    then show ?thesis using e True by simp
  next
    case False
    with Cons.prems e have m: "bt_sorted m" "bt_get k m \<noteq> None" by auto
    then have "k \<in> fst ` set m" by (simp add: bt_get_None_iff)
    then have "k' < k" using Cons.prems(1) e by auto
    then show ?thesis using Cons.IH [OF m] e False by auto
  qed
qed

lemma bt_get_map: "bt_get k (map (map_prod id f) m) = map_option f (bt_get k m)"
  by (induction m) (auto simp: map_prod_def)

lemma bt_insert_map_same:
  assumes "bt_sorted t" "bt_get k t = Some v" "f w = f v"
  shows "map (map_prod id f) (bt_insert k w t) = map (map_prod id f) t"
proof -
  have "v' = v" if "(k, v') \<in> set t" for v'
    using that assms bt_mem_iff [of t k v'] by simp
  then show ?thesis using assms by (auto simp: bt_insert_replace)
qed

lemma bt_count_insert:
  "bt_get k m = None \<Longrightarrow>
     length (filter P (bt_insert k v m)) = length (filter P m) + (if P (k, v) then 1 else 0)"
  by (induction k v m rule: bt_insert.induct) (auto split: if_splits)

lemma bt_count_remove:
  assumes "bt_sorted m" "bt_get k m = Some v"
  shows "length (filter P m) = length (filter P (bt_remove k m)) + (if P (k, v) then 1 else 0)"
  using assms
proof (induction m)
  case Nil
  then show ?case by simp
next
  case (Cons e m)
  obtain k' v' where e: "e = (k', v')" by (cases e)
  show ?case
  proof (cases "k' = k")
    case True
    have "k \<notin> fst ` set m" using Cons.prems(1) e True by auto
    then have "filter (\<lambda>e. fst e \<noteq> k) m = m" by (auto simp: filter_id_conv)
    then show ?thesis using Cons.prems e True by (simp add: bt_remove_def)
  next
    case False
    then show ?thesis using Cons e by (simp add: bt_remove_def)
  qed
qed

lemma bt_count_replace:
  assumes "bt_sorted m" "bt_get k m = Some w" "P (k, v) = P (k, w)"
  shows "length (filter P (bt_insert k v m)) = length (filter P m)"
proof -
  have ins: "bt_insert k v m = bt_insert k v (bt_remove k m)"
    by (rule bt_eqI) (use assms(1) in auto)
  show ?thesis
    unfolding ins using bt_count_insert [of k "bt_remove k m" P v] bt_count_remove [OF assms(1,2), of P] assms(3)
    by simp
qed

lemma bt_count_card:
  assumes "bt_sorted m"
  shows "length (filter (\<lambda>(k, v). P v) m) = card {k. \<exists>v. bt_get k m = Some v \<and> P v}"
proof -
  have "distinct (map fst (filter (\<lambda>(k, v). P v) m))"
    using bt_sorted_filter [OF assms, of "\<lambda>(k, v). P v"] strict_sorted_iff by (auto simp: bt_sorted_def)
  moreover have "set (map fst (filter (\<lambda>(k, v). P v) m)) = {k. \<exists>v. bt_get k m = Some v \<and> P v}"
    using bt_mem_iff [OF assms] by force
  ultimately show ?thesis using distinct_card by (metis length_map)
qed

end
