(* ===== verification/Sync_Util.thy ===== *)
theory Sync_Util
  imports Prelude
begin

text \<open>
  The utilities of \<open>util/sync_cell.rs\<close> and \<open>util/defer.rs\<close>. A \<open>SynCell\<close> is its content; the
  read-write lock inside it is invisible to the sequential code of the kernel. A
  \<open>DeferHandle\<close> is its cancellation flag, and \<open>run_deferred\<close> is the closure that the
  \<open>defer_handle!\<close> macro installs: the guard runs it when the scope is left.
\<close>

section \<open>SynCell\<close>

record 'a syn_cell =
  inner :: 'a

definition cell_new :: "'a \<Rightarrow> 'a syn_cell" where
  "cell_new v = \<lparr>inner = v\<rparr>"

definition cell_set :: "'a syn_cell \<Rightarrow> 'a \<Rightarrow> 'a syn_cell" where
  "cell_set c v = c\<lparr>inner := v\<rparr>"

definition cell_update :: "'a syn_cell \<Rightarrow> ('a \<Rightarrow> 'r \<times> 'a) \<Rightarrow> 'r \<times> 'a syn_cell" where
  "cell_update c f = (let (r, v) = f (inner c) in (r, c\<lparr>inner := v\<rparr>))"

definition cell_cloned :: "'a syn_cell \<Rightarrow> 'a" where
  "cell_cloned c = inner c"

definition cell_get :: "'a syn_cell \<Rightarrow> 'a" where
  "cell_get c = inner c"

text \<open>
  \<open>replace\<close> writes the function's result and returns the previous value. The function may
  panic (the only one used increments a counter with checked arithmetic), in which case
  nothing is written.
\<close>

definition cell_replace :: "('a \<Rightarrow> ('e, 'a) outcome) \<Rightarrow> ('a syn_cell, 'e, 'a) op" where
  "cell_replace f = (\<lambda>c.
     let prev = inner c in
     case f (inner c) of
       Ok v \<Rightarrow> (Ok prev, c\<lparr>inner := v\<rparr>)
     | Err e \<Rightarrow> (Err e, c)
     | Panic p \<Rightarrow> (Panic p, c))"

section \<open>DeferHandle\<close>

record defer_handle =
  canceled :: bool

definition defer_new :: defer_handle where
  "defer_new = \<lparr>canceled = False\<rparr>"

definition defer_cancel :: "defer_handle \<Rightarrow> defer_handle" where
  "defer_cancel h = h\<lparr>canceled := True\<rparr>"

definition is_canceled :: "defer_handle \<Rightarrow> bool" where
  "is_canceled h = canceled h"

definition run_deferred :: "defer_handle \<Rightarrow> ('s, 'e, unit) op \<Rightarrow> ('s, 'e, unit) op" where
  "run_deferred h block = (if is_canceled h then ret () else block)"

text \<open>
  A scope that holds a guard for \<open>block\<close>: the body gets the handle and returns it with its
  result, so that a cancelled handle is one whose block does not run. An early return with an
  error leaves the handle as it was created.
\<close>

definition defer_scope ::
  "('s, 'e, unit) op \<Rightarrow> (defer_handle \<Rightarrow> ('s, 'e, 'a \<times> defer_handle) op) \<Rightarrow> ('s, 'e, 'a) op" where
  "defer_scope block body = (\<lambda>s.
     case body defer_new s of
       (Ok (x, h), s') \<Rightarrow> try_bind (run_deferred h block) (\<lambda>_. ret x) s'
     | (Err e, s') \<Rightarrow> try_bind (run_deferred defer_new block) (\<lambda>_. fail e) s'
     | (Panic p, s') \<Rightarrow> (Panic p, s'))"

section \<open>Laws\<close>

lemma cell_get_new [simp]: "cell_get (cell_new v) = v"
  by (simp add: cell_get_def cell_new_def)

lemma cell_get_set [simp]: "cell_get (cell_set c v) = v"
  by (simp add: cell_get_def cell_set_def)

lemma cell_replace_Ok:
  "f (cell_get c) = Ok v \<Longrightarrow> cell_replace f c = (Ok (cell_get c), cell_set c v)"
  by (simp add: cell_replace_def cell_get_def cell_set_def)

lemma cell_replace_Panic: "f (cell_get c) = Panic p \<Longrightarrow> cell_replace f c = (Panic p, c)"
  by (simp add: cell_replace_def cell_get_def)

lemma run_deferred_new [simp]: "run_deferred defer_new block = block"
  by (simp add: run_deferred_def defer_new_def is_canceled_def)

lemma run_deferred_cancel [simp]: "run_deferred (defer_cancel h) block = ret ()"
  by (simp add: run_deferred_def defer_cancel_def is_canceled_def)

end
