(* ===== verification/Fs_Types.thy ===== *)
theory Fs_Types
  imports BTree_Map Sync_Util
begin

text \<open>
  The vocabulary of the file subsystem, \<open>fs/mod.rs\<close> (and the error and directory-listing types
  of \<open>fs/vfs.rs\<close>): nodes, open files, modes, the driver traits and their default methods.

  An \<open>FsNode\<close> lives behind an \<open>Arc\<close> and is shared between directory entries, open files and
  the directories of a ramfs, so nodes are objects of a heap and everything else refers to
  them by address. Addresses are never reused: no code of the kernel observes that a node was
  freed. A trait object is the record of its methods; a method that a driver does not
  override is inherited by record update from the record of defaults.
\<close>

unbundle bit_operations_syntax

section \<open>Errors\<close>

datatype io_error =
    OperationNotSupported
  | EntryNotFound
  | AlreadyExists
  | NotADirectory
  | NotAFile
  | InvalidPath
  | InvalidFile
  | InvalidMode
  | FileSystemTypeNotFound
  | NoRootDirectory

section \<open>Nodes\<close>

type_synonym nref = nat

datatype fs_node_kind = Directory | File | CharDevice | BlockDevice

record fs_node_metadata =
  dirty :: bool
  link_count :: usize
  msize :: usize
  accessed_at :: u64
  created_at :: u64
  modified_at :: u64

datatype char_device = NullDevice | ZeroDevice

text \<open>The \<open>Any\<close> that a driver stores with a node, by the concrete types the drivers store.\<close>

datatype private_data =
    NoData
  | RamFileNode "u8 list"
  | RamDirectoryNode "(string, nref) btree_map"
  | CharDeviceData char_device

record fs_node =
  node_id :: u64
  mount_id :: u64
  kind :: fs_node_kind
  metadata :: fs_node_metadata
  private_data :: private_data

type_synonym node_heap = "fs_node list"

text \<open>\<open>FsNodeId::ZERO\<close>, and the metadata every driver gives a new node.\<close>

definition FsNodeId_ZERO :: u64 where
  "FsNodeId_ZERO = 0"

definition new_metadata :: fs_node_metadata where
  "new_metadata = \<lparr>dirty = False, link_count = 1, msize = 0,
     accessed_at = 0, created_at = 0, modified_at = 0\<rparr>"

text \<open>\<open>Arc::new(FsNode { .. })\<close>.\<close>

definition alloc_node :: "fs_node \<Rightarrow> (node_heap, 'e, nref) op" where
  "alloc_node n = (\<lambda>h. (Ok (length h), h @ [n]))"

definition fs_node_eq :: "fs_node \<Rightarrow> fs_node \<Rightarrow> bool" where
  "fs_node_eq a b \<longleftrightarrow> node_id a = node_id b \<and> mount_id a = mount_id b"

text \<open>\<open>FsNode::data_as\<close> at the three types it is used at: a wrong type is a failed \<open>unwrap\<close>.\<close>

definition data_as_ram_file :: "fs_node \<Rightarrow> ('s, 'e, u8 list) op" where
  "data_as_ram_file n = (case private_data n of RamFileNode d \<Rightarrow> ret d | _ \<Rightarrow> panic Unwrap)"

definition data_as_ram_directory :: "fs_node \<Rightarrow> ('s, 'e, (string, nref) btree_map) op" where
  "data_as_ram_directory n =
     (case private_data n of RamDirectoryNode c \<Rightarrow> ret c | _ \<Rightarrow> panic Unwrap)"

definition data_as_char_device :: "fs_node \<Rightarrow> ('s, 'e, char_device) op" where
  "data_as_char_device n = (case private_data n of CharDeviceData d \<Rightarrow> ret d | _ \<Rightarrow> panic Unwrap)"

definition set_private_data :: "nref \<Rightarrow> private_data \<Rightarrow> node_heap \<Rightarrow> node_heap" where
  "set_private_data n d h = h[n := (h ! n)\<lparr>private_data := d\<rparr>]"

definition is_directory :: "fs_node \<Rightarrow> bool" where
  "is_directory n \<longleftrightarrow> kind n = Directory"

definition set_link_count :: "nref \<Rightarrow> usize \<Rightarrow> node_heap \<Rightarrow> node_heap" where
  "set_link_count n k h = h[n := (h ! n)\<lparr>metadata := (metadata (h ! n))\<lparr>link_count := k\<rparr>\<rparr>]"

definition increment_link_count :: "nref \<Rightarrow> (node_heap, 'e, unit) op" where
  "increment_link_count n = (\<lambda>h.
     try_bind (checked_add (link_count (metadata (h ! n))) 1)
       (\<lambda>k h. (Ok (), set_link_count n k h)) h)"

definition decrement_link_count :: "nref \<Rightarrow> (node_heap, 'e, unit) op" where
  "decrement_link_count n = (\<lambda>h.
     try_bind (checked_sub (link_count (metadata (h ! n))) 1)
       (\<lambda>k h. (Ok (), set_link_count n k h)) h)"

text \<open>\<open>Display for FsNodeKind\<close>.\<close>

fun kind_display :: "fs_node_kind \<Rightarrow> string" where
  "kind_display Directory = ''d''"
| "kind_display File = ''-''"
| "kind_display CharDevice = ''c''"
| "kind_display BlockDevice = ''d''"

text \<open>The derived order of \<open>FsNodeKind\<close>: the order of declaration.\<close>

fun kind_index :: "fs_node_kind \<Rightarrow> nat" where
  "kind_index Directory = 0"
| "kind_index File = 1"
| "kind_index CharDevice = 2"
| "kind_index BlockDevice = 3"

instantiation fs_node_kind :: linorder
begin

definition less_eq_fs_node_kind :: "fs_node_kind \<Rightarrow> fs_node_kind \<Rightarrow> bool" where
  "less_eq_fs_node_kind a b \<longleftrightarrow> kind_index a \<le> kind_index b"

definition less_fs_node_kind :: "fs_node_kind \<Rightarrow> fs_node_kind \<Rightarrow> bool" where
  "less_fs_node_kind a b \<longleftrightarrow> kind_index a < kind_index b"

instance
proof
  fix x y z :: fs_node_kind
  show "x < y \<longleftrightarrow> x \<le> y \<and> \<not> y \<le> x"
    by (auto simp: less_eq_fs_node_kind_def less_fs_node_kind_def)
  show "x \<le> x" by (simp add: less_eq_fs_node_kind_def)
  show "x \<le> y \<Longrightarrow> y \<le> z \<Longrightarrow> x \<le> z" by (simp add: less_eq_fs_node_kind_def)
  show "x \<le> y \<Longrightarrow> y \<le> x \<Longrightarrow> x = y"
    by (cases x; cases y) (simp_all add: less_eq_fs_node_kind_def)
  show "x \<le> y \<or> y \<le> x" by (auto simp: less_eq_fs_node_kind_def)
qed

end

section \<open>Open files\<close>

datatype file_mode = Read | Write | Append

fun is_mutating :: "file_mode \<Rightarrow> bool" where
  "is_mutating Read = False"
| "is_mutating Write = True"
| "is_mutating Append = True"

record open_file =
  file_node :: nref
  mode :: file_mode
  position :: usize
  file_data :: "private_data option"

definition file_new :: "nref \<Rightarrow> file_mode \<Rightarrow> open_file" where
  "file_new n m = \<lparr>file_node = n, mode = m, position = 0, file_data = None\<rparr>"

definition file_new_with_data :: "nref \<Rightarrow> file_mode \<Rightarrow> private_data \<Rightarrow> open_file" where
  "file_new_with_data n m d = \<lparr>file_node = n, mode = m, position = 0, file_data = Some d\<rparr>"

definition FileDescriptor_NULL :: u64 where
  "FileDescriptor_NULL = 0"

section \<open>Drivers\<close>

datatype fs_type = RamFileSystemType | DevFileSystemType

record file_system_type_metadata =
  fst_name :: string
  magic :: "u8 list"

definition READ :: u32 where
  "READ = 1"

definition WRITE :: u32 where
  "WRITE = 2"

record file_system_metadata =
  device :: "u64 option"
  mount_flags :: u32
  block_size :: usize
  max_file_size :: usize
  file_system_type :: fs_type

text \<open>
  An instance of a mounted file system. \<open>RamFileSystem\<close> and \<open>DevFileSystem\<close> have the same three
  fields; which one an instance is, is the type recorded in its metadata.
\<close>

record file_system =
  fs_metadata :: file_system_metadata
  next_node_id :: "u64 syn_cell"
  fs_root :: nref

text \<open>
  \<open>next_node_id\<close>: both drivers hand out their counter's value and advance it with checked
  arithmetic.
\<close>

definition increment_node_id :: "u64 \<Rightarrow> ('e, u64) outcome" where
  "increment_node_id i = (if i = - 1 then Panic Overflow else Ok (i + 1))"

definition take_node_id :: "(file_system, 'e, u64) op" where
  "take_node_id fs = (case cell_replace increment_node_id (next_node_id fs) of
     (r, c) \<Rightarrow> (r, fs\<lparr>next_node_id := c\<rparr>))"

text \<open>A driver method runs on the driver's own instance and on the node heap.\<close>

type_synonym driver = "file_system \<times> node_heap"

definition on_fs :: "(file_system, 'e, 'a) op \<Rightarrow> (driver, 'e, 'a) op" where
  "on_fs m = (\<lambda>(fs, h). case m fs of (r, fs') \<Rightarrow> (r, (fs', h)))"

definition on_heap :: "(node_heap, 'e, 'a) op \<Rightarrow> (driver, 'e, 'a) op" where
  "on_heap m = (\<lambda>(fs, h). case m h of (r, h') \<Rightarrow> (r, (fs, h')))"

text \<open>
  \<open>trait FileOperations\<close>, with its default methods. \<open>read\<close> fills a buffer in place: the model
  returns the new buffer next to the number of bytes.
\<close>

record file_operations =
  fo_open :: "nref \<Rightarrow> file_mode \<Rightarrow> (node_heap, io_error, open_file) op"
  fo_flush :: "open_file \<Rightarrow> (node_heap, io_error, unit) op"
  fo_seek :: "open_file \<Rightarrow> usize \<Rightarrow> (node_heap, io_error, usize) op"
  fo_read :: "open_file \<Rightarrow> usize \<Rightarrow> u8 list \<Rightarrow> (node_heap, io_error, usize \<times> u8 list) op"
  fo_write :: "open_file \<Rightarrow> usize \<Rightarrow> u8 list \<Rightarrow> (node_heap, io_error, usize) op"

definition default_file_operations :: file_operations where
  "default_file_operations = \<lparr>
     fo_open = (\<lambda>node m. ret (file_new node m)),
     fo_flush = (\<lambda>f. ret ()),
     fo_seek = (\<lambda>f offset. fail OperationNotSupported),
     fo_read = (\<lambda>f offset buffer. fail OperationNotSupported),
     fo_write = (\<lambda>f offset buffer. fail OperationNotSupported)\<rparr>"

text \<open>
  The listing of a directory, \<open>DirectoryIterationContext\<close> of \<open>fs/vfs.rs\<close>, and
  \<open>trait DirectoryOperations\<close> with its default methods. The drivers use nothing of the
  directory entry they are given but its node, so the methods take the node.
\<close>

record directory_iteration_entry =
  di_name :: string
  di_id :: u64
  di_kind :: fs_node_kind

type_synonym directory_iteration_context = "(string, directory_iteration_entry) btree_map"

definition context_new :: directory_iteration_context where
  "context_new = bt_empty"

definition context_insert ::
  "string \<Rightarrow> u64 \<Rightarrow> fs_node_kind \<Rightarrow> directory_iteration_context \<Rightarrow> directory_iteration_context" where
  "context_insert name i k ctx = bt_insert name \<lparr>di_name = name, di_id = i, di_kind = k\<rparr> ctx"

definition context_into_iter :: "directory_iteration_context \<Rightarrow> directory_iteration_entry list" where
  "context_into_iter ctx = bt_values ctx"

record directory_operations =
  do_create_file :: "nref \<Rightarrow> string \<Rightarrow> (driver, io_error, nref) op"
  do_create_directory :: "nref \<Rightarrow> string \<Rightarrow> (driver, io_error, nref) op"
  do_remove_file :: "nref \<Rightarrow> string \<Rightarrow> (driver, io_error, unit) op"
  do_remove_directory :: "nref \<Rightarrow> string \<Rightarrow> (driver, io_error, unit) op"
  do_lookup :: "nref \<Rightarrow> string \<Rightarrow> (driver, io_error, nref option) op"
  do_read_directory ::
    "directory_iteration_context \<Rightarrow> nref \<Rightarrow> (driver, io_error, directory_iteration_context) op"

text \<open>\<open>lookup\<close> and \<open>read_directory\<close> have no default; a driver must give them.\<close>

definition default_directory_operations ::
  "(nref \<Rightarrow> string \<Rightarrow> (driver, io_error, nref option) op) \<Rightarrow>
   (directory_iteration_context \<Rightarrow> nref \<Rightarrow> (driver, io_error, directory_iteration_context) op) \<Rightarrow>
   directory_operations" where
  "default_directory_operations lookup read_directory = \<lparr>
     do_create_file = (\<lambda>d name. fail OperationNotSupported),
     do_create_directory = (\<lambda>d name. fail OperationNotSupported),
     do_remove_file = (\<lambda>d name. fail OperationNotSupported),
     do_remove_directory = (\<lambda>d name. fail OperationNotSupported),
     do_lookup = lookup,
     do_read_directory = read_directory\<rparr>"

section \<open>Contracts of the driver methods\<close>

text \<open>
  What the VFS relies on when it calls \<open>read\<close> and \<open>write\<close> of a driver: a read reports at most
  the length of the buffer, keeps the buffer's length and every byte past the reported count,
  and changes no node; a write reports the length of the buffer, and neither of them adds or
  removes nodes.
\<close>

locale file_driver =
  fixes rd :: "open_file \<Rightarrow> usize \<Rightarrow> u8 list \<Rightarrow> (node_heap, io_error, usize \<times> u8 list) op"
    and wr :: "open_file \<Rightarrow> usize \<Rightarrow> u8 list \<Rightarrow> (node_heap, io_error, usize) op"
  assumes read_heap: "snd (rd f off buf h) = h"
    and read_Ok: "rd f off buf h = (Ok (n, buf'), h') \<Longrightarrow>
        n \<le> length buf \<and> length buf' = length buf \<and> drop n buf' = drop n buf"
    and write_Ok: "wr f off buf h = (Ok n, h') \<Longrightarrow> n = length buf"
    and write_not_Ok: "wr f off buf h = (r, h') \<Longrightarrow> (\<And>n. r \<noteq> Ok n) \<Longrightarrow> h' = h"
    and write_length: "length (snd (wr f off buf h)) = length h"
begin

lemma read_bytes:
  assumes "rd f off buf h = (Ok (n, buf'), h')"
  shows "buf' = take n buf' @ drop n buf" "length (take n buf') = n"
  using read_Ok [OF assms] append_take_drop_id [of n buf'] by simp_all

lemma read_same_heap: "rd f off buf h = (r, h') \<Longrightarrow> h' = h"
  using read_heap [of f off buf h] by simp

end

section \<open>Lemmas\<close>

lemma alloc_node_simp [simp]: "alloc_node n h = (Ok (length h), h @ [n])"
  by (simp add: alloc_node_def)

lemma on_heap_simp: "on_heap m (fs, h) = (fst (m h), (fs, snd (m h)))"
  by (simp add: on_heap_def split: prod.split)

lemma on_fs_simp: "on_fs m (fs, h) = (fst (m fs), (snd (m fs), h))"
  by (simp add: on_fs_def split: prod.split)

lemma take_node_id_max:
  "inner (next_node_id fs) = - 1 \<Longrightarrow> take_node_id fs = (Panic Overflow, fs)"
  by (simp add: take_node_id_def cell_replace_def increment_node_id_def)

lemma take_node_id_Ok:
  "inner (next_node_id fs) \<noteq> - 1 \<Longrightarrow> take_node_id fs =
     (Ok (inner (next_node_id fs)), fs\<lparr>next_node_id := \<lparr>inner = inner (next_node_id fs) + 1\<rparr>\<rparr>)"
  by (simp add: take_node_id_def cell_replace_def increment_node_id_def)

lemma length_set_link_count [simp]: "length (set_link_count n k h) = length h"
  by (simp add: set_link_count_def)

lemma length_set_private_data [simp]: "length (set_private_data n d h) = length h"
  by (simp add: set_private_data_def)

lemma nth_set_link_count: "m < length h \<Longrightarrow> set_link_count n k h ! m =
  (if m = n then (h ! n)\<lparr>metadata := (metadata (h ! n))\<lparr>link_count := k\<rparr>\<rparr> else h ! m)"
  by (simp add: set_link_count_def)

lemma nth_set_private_data: "m < length h \<Longrightarrow> set_private_data n d h ! m =
  (if m = n then (h ! n)\<lparr>private_data := d\<rparr> else h ! m)"
  by (simp add: set_private_data_def)

text \<open>
  A directory and a block device print the same letter: \<open>kind_display\<close> does not tell the kinds
  apart. All other kinds have a letter of their own.
\<close>

lemma kind_display_clash: "kind_display a = kind_display b \<longleftrightarrow> a = b \<or> {a, b} = {Directory, BlockDevice}"
  by (cases a; cases b) auto

end
