(* ===== verification/Char_Devices.thy ===== *)
theory Char_Devices
  imports Fs_Types
begin

text \<open>
  Character devices: the registry of \<open>device/char.rs\<close> and the drivers of \<open>drivers/char\<close>.
  The global \<open>CHAR_DEVICE_REGISTRY\<close> is a parameter and a result of the functions that use it.
\<close>

type_synonym char_device_registry = "(string, char_device) btree_map"

datatype char_device_registration_error = NameConflict

record character_device_metadata =
  cd_name :: string

fun char_device_metadata :: "char_device \<Rightarrow> character_device_metadata" where
  "char_device_metadata NullDevice = \<lparr>cd_name = ''null''\<rparr>"
| "char_device_metadata ZeroDevice = \<lparr>cd_name = ''zero''\<rparr>"

definition register_char_device ::
  "char_device \<Rightarrow> (char_device_registry, char_device_registration_error, unit) op" where
  "register_char_device d = (\<lambda>registry.
     let name = cd_name (char_device_metadata d) in
     if bt_contains_key name registry then (Err NameConflict, registry)
     else (Ok (), bt_insert name d registry))"

definition list_char_devices :: "char_device_registry \<Rightarrow> char_device list" where
  "list_char_devices registry = bt_values registry"

definition get_char_device :: "string \<Rightarrow> char_device_registry \<Rightarrow> char_device option" where
  "get_char_device name registry = bt_get name registry"

text \<open>\<open>drivers::char::init\<close>.\<close>

definition char_init :: "(char_device_registry, char_device_registration_error, unit) op" where
  "char_init =
     try_bind (register_char_device NullDevice) (\<lambda>_. register_char_device ZeroDevice)"

section \<open>The drivers\<close>

text \<open>
  \<open>NullDevice\<close> overrides only \<open>write\<close>, \<open>ZeroDevice\<close> only \<open>read\<close>; everything else is the
  default method of the trait.
\<close>

definition null_write :: "open_file \<Rightarrow> usize \<Rightarrow> u8 list \<Rightarrow> (node_heap, io_error, usize) op" where
  "null_write f offset buffer = ret (length buffer)"

definition zero_read :: "open_file \<Rightarrow> usize \<Rightarrow> u8 list \<Rightarrow> (node_heap, io_error, usize \<times> u8 list) op" where
  "zero_read f offset buffer = ret (length buffer, replicate (length buffer) 0)"

fun char_device_file_operations :: "char_device \<Rightarrow> file_operations" where
  "char_device_file_operations NullDevice = default_file_operations\<lparr>fo_write := null_write\<rparr>"
| "char_device_file_operations ZeroDevice = default_file_operations\<lparr>fo_read := zero_read\<rparr>"

section \<open>Registries\<close>

text \<open>
  The contract of a registry by name, shared by the character devices and the file system
  types: registering under a free name succeeds and makes the item findable, registering
  under a taken name is refused and changes nothing.
\<close>

locale name_registry =
  fixes register :: "'i \<Rightarrow> ('r, 'e, unit) op"
    and find :: "string \<Rightarrow> 'r \<Rightarrow> 'i option"
    and name_of :: "'i \<Rightarrow> string"
    and conflict :: 'e
  assumes register_free: "find (name_of i) r = None \<Longrightarrow> \<exists>r'. register i r = (Ok (), r') \<and>
        (\<forall>n. find n r' = (if n = name_of i then Some i else find n r))"
    and register_taken: "find (name_of i) r \<noteq> None \<Longrightarrow> register i r = (Err conflict, r)"
begin

lemma register_Ok_iff: "(\<exists>r'. register i r = (Ok (), r')) \<longleftrightarrow> find (name_of i) r = None"
  using register_free [of i r] register_taken [of i r] by (cases "find (name_of i) r") auto

lemma register_never_panics: "\<not> is_panic (fst (register i r))"
  using register_free [of i r] register_taken [of i r] by (cases "find (name_of i) r = None") auto

lemma register_keeps: "find n r = Some j \<Longrightarrow> find n (snd (register i r)) = Some j"
  using register_free [of i r] register_taken [of i r] by (cases "find (name_of i) r = None") auto

lemma register_twice:
  assumes "register i r = (Ok (), r')" "name_of j = name_of i"
  shows "register j r' = (Err conflict, r')"
proof -
  have "find (name_of i) r = None" using assms(1) register_Ok_iff by blast
  then have "find (name_of i) r' = Some i" using register_free [of i r] assms(1) by auto
  then show ?thesis using assms(2) by (intro register_taken) simp
qed

lemma register_finds:
  "register i r = (Ok (), r') \<Longrightarrow> find n r' = (if n = name_of i then Some i else find n r)"
  using register_free [of i r] register_Ok_iff [of i r] by auto

end

interpretation char_registry:
  name_registry register_char_device get_char_device "\<lambda>d. cd_name (char_device_metadata d)" NameConflict
  by unfold_locales
    (auto simp: register_char_device_def get_char_device_def bt_contains_key_def)

interpretation null_driver: file_driver "fo_read (char_device_file_operations NullDevice)"
    "fo_write (char_device_file_operations NullDevice)"
  by unfold_locales (auto simp: default_file_operations_def null_write_def ret_def fail_def)

interpretation zero_driver: file_driver "fo_read (char_device_file_operations ZeroDevice)"
    "fo_write (char_device_file_operations ZeroDevice)"
  by unfold_locales (auto simp: default_file_operations_def zero_read_def ret_def fail_def)

section \<open>Lemmas\<close>

lemma char_init_registry:
  "char_init bt_empty = (Ok (), [(''null'', NullDevice), (''zero'', ZeroDevice)])"
  by (simp add: char_init_def register_char_device_def bt_contains_key_def try_bind_def)

lemma char_driver: "file_driver (fo_read (char_device_file_operations d)) (fo_write (char_device_file_operations d))"
  by (cases d) (use null_driver.file_driver_axioms zero_driver.file_driver_axioms in simp_all)

lemma char_device_defaults [simp]:
  "fo_open (char_device_file_operations d) n m = ret (file_new n m)"
  "fo_flush (char_device_file_operations d) f = ret ()"
  by (cases d; simp add: default_file_operations_def)+

end
