(* ===== verification/Fs_Registry.thy ===== *)
theory Fs_Registry
  imports Char_Devices
begin

text \<open>
  The registry of file system types, \<open>fs/registry.rs\<close>, and the registration of the drivers by
  \<open>drivers::fs::init\<close> (\<open>drivers/fs/mod.rs\<close>). The check for equal magic bytes is commented out
  in the source and so absent here.
\<close>

type_synonym file_system_registry = "(string, fs_type) btree_map"

datatype file_system_registration_error = FsNameConflict

text \<open>\<open>FileSystemType::metadata\<close> of the two drivers.\<close>

fun fs_type_metadata :: "fs_type \<Rightarrow> file_system_type_metadata" where
  "fs_type_metadata RamFileSystemType = \<lparr>fst_name = ''ramfs'', magic = []\<rparr>"
| "fs_type_metadata DevFileSystemType = \<lparr>fst_name = ''devfs'', magic = []\<rparr>"

definition register_file_system ::
  "fs_type \<Rightarrow> (file_system_registry, file_system_registration_error, unit) op" where
  "register_file_system fs = (\<lambda>registry.
     let name = fst_name (fs_type_metadata fs) in
     if bt_contains_key name registry then (Err FsNameConflict, registry)
     else (Ok (), bt_insert name fs registry))"

definition find_file_system_type :: "string \<Rightarrow> file_system_registry \<Rightarrow> fs_type option" where
  "find_file_system_type name registry = bt_get name registry"

definition fs_drivers_init :: "(file_system_registry, file_system_registration_error, unit) op" where
  "fs_drivers_init =
     try_bind (register_file_system RamFileSystemType)
       (\<lambda>_. register_file_system DevFileSystemType)"

interpretation fs_registry:
  name_registry register_file_system find_file_system_type
    "\<lambda>t. fst_name (fs_type_metadata t)" FsNameConflict
  by unfold_locales
    (auto simp: register_file_system_def find_file_system_type_def bt_contains_key_def)

lemma fs_drivers_init_registry:
  "fs_drivers_init bt_empty =
     (Ok (), [(''devfs'', DevFileSystemType), (''ramfs'', RamFileSystemType)])"
  by (simp add: fs_drivers_init_def register_file_system_def bt_contains_key_def try_bind_def)

text \<open>
  Registering the same driver twice is refused and leaves the registry as it was, and a
  registration never disturbs the drivers already there.
\<close>

lemma register_file_system_conflict:
  assumes "register_file_system fs r = (Ok (), r')"
  shows "register_file_system fs r' = (Err FsNameConflict, r')
    \<and> (\<forall>n. find_file_system_type n r' =
          (if n = fst_name (fs_type_metadata fs) then Some fs else find_file_system_type n r))"
  using fs_registry.register_twice [OF assms refl] fs_registry.register_finds [OF assms] by simp

end
