(* ===== verification/Ram_Fs.thy ===== *)
theory Ram_Fs
  imports Fs_Registry
begin

text \<open>
  The in-memory file system, \<open>drivers/fs/ram.rs\<close>. A file's bytes and a directory's children are
  the private data of its node.
\<close>

section \<open>Mounting\<close>

definition ram_mount :: "u64 \<Rightarrow> string \<Rightarrow> u32 \<Rightarrow> (node_heap, io_error, file_system) op" where
  "ram_mount mid source flags =
     try_bind (asserting (source = [])) (\<lambda>_.
     try_bind (alloc_node \<lparr>node_id = FsNodeId_ZERO, mount_id = mid, kind = Directory,
                 metadata = new_metadata, private_data = RamDirectoryNode bt_empty\<rparr>) (\<lambda>root.
     ret \<lparr>fs_metadata = \<lparr>device = None, mount_flags = flags, block_size = 512,
             max_file_size = usize_max, file_system_type = RamFileSystemType\<rparr>,
          next_node_id = cell_new 1,
          fs_root = root\<rparr>))"

definition ram_unmount :: "file_system \<Rightarrow> ('s, 'e, unit) op" where
  "ram_unmount fs = panic Todo"

definition ram_write_node :: "fs_node \<Rightarrow> (unit, unit) outcome" where
  "ram_write_node n = Ok ()"

definition ram_evict_node :: "fs_node \<Rightarrow> (unit, unit) outcome" where
  "ram_evict_node n = Ok ()"

section \<open>Files\<close>

definition ram_read :: "open_file \<Rightarrow> usize \<Rightarrow> u8 list \<Rightarrow> (node_heap, io_error, usize \<times> u8 list) op" where
  "ram_read f offset buffer = (\<lambda>h.
     try_bind (data_as_ram_file (h ! file_node f)) (\<lambda>data.
       if offset > length data then ret (0, buffer)
       else
         let bytes_remaining = length data - offset;
             read_size = min (length buffer) bytes_remaining
         in try_bind (slice data offset (offset + read_size)) (\<lambda>src.
            try_bind (copy_from_slice buffer 0 read_size src) (\<lambda>buffer'.
            ret (read_size, buffer')))) h)"

definition ram_write :: "open_file \<Rightarrow> usize \<Rightarrow> u8 list \<Rightarrow> (node_heap, io_error, usize) op" where
  "ram_write f offset buffer = (\<lambda>h.
     try_bind (data_as_ram_file (h ! file_node f)) (\<lambda>data.
     try_bind (checked_add offset (length buffer)) (\<lambda>min_new_len.
       let data = (if min_new_len > length data then vec_resize data min_new_len 0 else data) in
       try_bind (copy_from_slice data offset (offset + length buffer) buffer) (\<lambda>data' h.
       (Ok (length buffer), set_private_data (file_node f) (RamFileNode data') h)))) h)"

definition ram_file_operations :: file_operations where
  "ram_file_operations = default_file_operations\<lparr>fo_read := ram_read, fo_write := ram_write\<rparr>"

section \<open>Directories\<close>

definition fs_mount_id :: "driver \<Rightarrow> u64" where
  "fs_mount_id = (\<lambda>(fs, h). mount_id (h ! fs_root fs))"

text \<open>\<open>parent.children.write().insert(name.into(), node.clone())\<close>.\<close>

definition ram_add_child :: "nref \<Rightarrow> string \<Rightarrow> nref \<Rightarrow> (node_heap, io_error, unit) op" where
  "ram_add_child parent name node = (\<lambda>h.
     try_bind (data_as_ram_directory (h ! parent)) (\<lambda>children h.
       (Ok (), set_private_data parent (RamDirectoryNode (bt_insert name node children)) h)) h)"

definition ram_create_file :: "nref \<Rightarrow> string \<Rightarrow> (driver, io_error, nref) op" where
  "ram_create_file parent name = (\<lambda>s.
     try_bind (on_fs take_node_id) (\<lambda>i.
     try_bind (on_heap (alloc_node \<lparr>node_id = i, mount_id = fs_mount_id s, kind = File,
                 metadata = new_metadata, private_data = RamFileNode []\<rparr>)) (\<lambda>node.
     try_bind (on_heap (ram_add_child parent name node)) (\<lambda>_.
     ret node))) s)"

definition ram_create_directory :: "nref \<Rightarrow> string \<Rightarrow> (driver, io_error, nref) op" where
  "ram_create_directory parent name = (\<lambda>s.
     try_bind (on_fs take_node_id) (\<lambda>i.
     try_bind (on_heap (alloc_node \<lparr>node_id = i, mount_id = fs_mount_id s, kind = Directory,
                 metadata = new_metadata, private_data = RamDirectoryNode bt_empty\<rparr>)) (\<lambda>node.
     try_bind (on_heap (ram_add_child parent name node)) (\<lambda>_.
     ret node))) s)"

definition ram_remove_file :: "nref \<Rightarrow> string \<Rightarrow> (driver, io_error, unit) op" where
  "ram_remove_file parent name = on_heap (\<lambda>h.
     try_bind (data_as_ram_directory (h ! parent)) (\<lambda>children h.
       let h' = set_private_data parent (RamDirectoryNode (bt_remove name children)) h in
       if bt_get name children = None then (Err EntryNotFound, h') else (Ok (), h')) h)"

text \<open>\<open>remove_directory\<close> ends in \<open>todo!()\<close>: it checks and then never removes.\<close>

definition ram_remove_directory :: "nref \<Rightarrow> string \<Rightarrow> (driver, io_error, unit) op" where
  "ram_remove_directory parent name = on_heap (\<lambda>h.
     try_bind (data_as_ram_directory (h ! parent)) (\<lambda>children.
     try_bind (ok_or (bt_get name children) EntryNotFound) (\<lambda>dir.
     try_bind (asserting (is_directory (h ! dir))) (\<lambda>_.
     try_bind (data_as_ram_directory (h ! dir)) (\<lambda>dir_children.
     try_bind (asserting (dir_children = bt_empty)) (\<lambda>_.
     panic Todo))))) h)"

definition ram_lookup :: "nref \<Rightarrow> string \<Rightarrow> (driver, io_error, nref option) op" where
  "ram_lookup parent name = on_heap (\<lambda>h.
     try_bind (data_as_ram_directory (h ! parent)) (\<lambda>children.
     ret (bt_get name children)) h)"

text \<open>One \<open>context.insert\<close> per child, in the order of the map.\<close>

fun insert_children :: "node_heap \<Rightarrow> (string \<times> nref) list \<Rightarrow>
    directory_iteration_context \<Rightarrow> directory_iteration_context" where
  "insert_children h [] ctx = ctx"
| "insert_children h ((name, node) # rest) ctx =
     insert_children h rest (context_insert name (node_id (h ! node)) (kind (h ! node)) ctx)"

definition ram_read_directory ::
  "directory_iteration_context \<Rightarrow> nref \<Rightarrow> (driver, io_error, directory_iteration_context) op" where
  "ram_read_directory ctx directory = on_heap (\<lambda>h.
     try_bind (data_as_ram_directory (h ! directory)) (\<lambda>children.
     ret (insert_children h children ctx)) h)"

definition ram_directory_operations :: directory_operations where
  "ram_directory_operations =
     (default_directory_operations ram_lookup ram_read_directory)
       \<lparr>do_create_file := ram_create_file,
        do_create_directory := ram_create_directory,
        do_remove_file := ram_remove_file,
        do_remove_directory := ram_remove_directory\<rparr>"

section \<open>Specification\<close>

text \<open>
  The content of a file after \<open>buf\<close> has been written at offset \<open>off\<close>: a gap between the old end
  and the offset is filled with zeroes.
\<close>

definition write_at :: "nat \<Rightarrow> u8 list \<Rightarrow> u8 list \<Rightarrow> u8 list" where
  "write_at off buf data =
     take off (data @ replicate (off - length data) 0) @ buf @ drop (off + length buf) data"

definition ram_dir_ok :: "driver \<Rightarrow> nref \<Rightarrow> bool" where
  "ram_dir_ok = (\<lambda>(fs, h) p. p < length h \<and> (\<exists>c. private_data (h ! p) = RamDirectoryNode c))"

text \<open>
  What the VFS relies on when it creates an entry in a directory: the new entry is found under
  its name, every other name of every directory keeps its answer, and directories stay
  directories.
\<close>

locale directory_driver =
  fixes create :: "nref \<Rightarrow> string \<Rightarrow> (driver, io_error, nref) op"
    and lookup :: "nref \<Rightarrow> string \<Rightarrow> (driver, io_error, nref option) op"
    and dir_ok :: "driver \<Rightarrow> nref \<Rightarrow> bool"
  assumes create_found: "dir_ok s p \<Longrightarrow> create p name s = (Ok x, s') \<Longrightarrow>
        lookup p name s' = (Ok (Some x), s')"
    and create_other: "dir_ok s p \<Longrightarrow> create p name s = (Ok x, s') \<Longrightarrow> dir_ok s q \<Longrightarrow>
        (q, name') \<noteq> (p, name) \<Longrightarrow> fst (lookup q name' s') = fst (lookup q name' s)"
    and create_dir_ok: "dir_ok s p \<Longrightarrow> create p name s = (Ok x, s') \<Longrightarrow> dir_ok s q \<Longrightarrow> dir_ok s' q"
    and lookup_pure: "snd (lookup p name s) = s"
begin

lemma create_then_lookup:
  assumes "dir_ok s p" "create p name s = (Ok x, s')" "dir_ok s q"
  shows "fst (lookup q name' s') =
    (if (q, name') = (p, name) then Ok (Some x) else fst (lookup q name' s))"
  using create_found [OF assms(1,2)] create_other [OF assms] by auto

lemma create_two:
  assumes "dir_ok s p" "create p name s = (Ok x, s')" "create p name' s' = (Ok y, s'')" "name' \<noteq> name"
  shows "fst (lookup p name s'') = Ok (Some x) \<and> fst (lookup p name' s'') = Ok (Some y)"
proof -
  have ok': "dir_ok s' p" using create_dir_ok [OF assms(1,2,1)] .
  show ?thesis
    using create_then_lookup [OF ok' assms(3) ok', of name] create_found [OF ok' assms(3)]
      create_found [OF assms(1,2)] assms(4) by simp
qed

end

section \<open>Lemmas on files\<close>

lemma length_write_at: "length (write_at off buf data) = max (length data) (off + length buf)"
  by (auto simp: write_at_def max_def)

lemma nth_write_at:
  assumes "i < length (write_at off buf data)"
  shows "write_at off buf data ! i =
    (if off \<le> i \<and> i < off + length buf then buf ! (i - off)
     else if i < length data then data ! i else 0)"
  using assms by (auto simp: write_at_def nth_append min_def)

lemma resize_write_at:
  "off + length buf \<le> n \<Longrightarrow> length data \<le> n \<Longrightarrow> (n = off + length buf \<or> n = length data) \<Longrightarrow>
   take off (vec_resize data n 0) @ buf @ drop (off + length buf) (vec_resize data n 0) = write_at off buf data"
  by (elim disjE) (simp_all add: vec_resize_def write_at_def)

lemma ram_write_bytes:
  assumes "private_data (h ! file_node f) = RamFileNode data" "off + length buf < usize_limit"
  shows "ram_write f off buf h =
    (Ok (length buf), set_private_data (file_node f) (RamFileNode (write_at off buf data)) h)"
proof (cases "length data < off + length buf")
  case True
  then have "length (vec_resize data (off + length buf) 0) = off + length buf"
    by (simp add: vec_resize_def)
  with True assms resize_write_at [of off buf "off + length buf" data] show ?thesis
    by (simp add: ram_write_def data_as_ram_file_def try_bind_def checked_add_def copy_from_slice_def)
next
  case False
  have "vec_resize data (length data) 0 = data" by (simp add: vec_resize_def)
  with False assms resize_write_at [of off buf "length data" data] show ?thesis
    by (simp add: ram_write_def data_as_ram_file_def try_bind_def checked_add_def copy_from_slice_def)
qed

lemma ram_write_overflow:
  assumes "private_data (h ! file_node f) = RamFileNode data" "\<not> off + length buf < usize_limit"
  shows "ram_write f off buf h = (Panic Overflow, h)"
  using assms by (simp add: ram_write_def data_as_ram_file_def try_bind_def checked_add_def)

lemma ram_write_not_file:
  assumes "\<And>d. private_data (h ! file_node f) \<noteq> RamFileNode d"
  shows "ram_write f off buf h = (Panic Unwrap, h)"
  using assms by (auto simp: ram_write_def data_as_ram_file_def try_bind_def split: private_data.split)

lemma ram_read_bytes:
  assumes "private_data (h ! file_node f) = RamFileNode data"
  shows "ram_read f off buf h =
    (let n = min (length buf) (length data - off)
     in (Ok (n, take n (drop off data) @ drop n buf), h))"
proof (cases "length data < off")
  case True
  with assms show ?thesis
    by (simp add: ram_read_def data_as_ram_file_def try_bind_def)
next
  case False
  then have "off + min (length buf) (length data - off) \<le> length data" by simp
  with False assms show ?thesis
    by (simp add: ram_read_def data_as_ram_file_def try_bind_def slice_def copy_from_slice_def Let_def)
qed

lemma ram_read_not_file:
  assumes "\<And>d. private_data (h ! file_node f) \<noteq> RamFileNode d"
  shows "ram_read f off buf h = (Panic Unwrap, h)"
  using assms by (auto simp: ram_read_def data_as_ram_file_def try_bind_def split: private_data.split)

lemma ram_file_cases:
  obtains (data) d where "private_data (h ! n) = RamFileNode d"
  | (other) "\<And>d. private_data (h ! n) \<noteq> RamFileNode d"
  by blast

interpretation ram_driver: file_driver ram_read ram_write
proof
  fix f off buf h
  show "snd (ram_read f off buf h) = h"
    by (cases rule: ram_file_cases [of h "file_node f"])
      (simp_all add: ram_read_bytes ram_read_not_file Let_def)
  show "length (snd (ram_write f off buf h)) = length h"
    by (cases rule: ram_file_cases [of h "file_node f"]; cases "off + length buf < usize_limit")
      (simp_all add: ram_write_bytes ram_write_overflow ram_write_not_file)
next
  fix f off buf h n buf' h'
  assume "ram_read f off buf h = (Ok (n, buf'), h')"
  then show "n \<le> length buf \<and> length buf' = length buf \<and> drop n buf' = drop n buf"
    by (cases rule: ram_file_cases [of h "file_node f"])
      (auto simp: ram_read_bytes ram_read_not_file Let_def min_def split: if_splits)
next
  fix f off buf h n h'
  assume "ram_write f off buf h = (Ok n, h')"
  then show "n = length buf"
    by (cases rule: ram_file_cases [of h "file_node f"]; cases "off + length buf < usize_limit")
      (simp_all add: ram_write_bytes ram_write_overflow ram_write_not_file)
next
  fix f off buf h r h'
  assume "ram_write f off buf h = (r, h')" "\<And>n. r \<noteq> Ok n"
  then show "h' = h"
    by (cases rule: ram_file_cases [of h "file_node f"]; cases "off + length buf < usize_limit")
      (auto simp: ram_write_bytes ram_write_overflow ram_write_not_file)
qed

section \<open>Lemmas on directories\<close>

text \<open>Both creating methods are this one function of the kind and the initial data.\<close>

definition ram_created :: "driver \<Rightarrow> fs_node_kind \<Rightarrow> private_data \<Rightarrow> fs_node" where
  "ram_created s k d = \<lparr>node_id = inner (next_node_id (fst s)), mount_id = fs_mount_id s, kind = k,
     metadata = new_metadata, private_data = d\<rparr>"

definition ram_after_create :: "driver \<Rightarrow> nref \<Rightarrow> string \<Rightarrow> (string, nref) btree_map \<Rightarrow> fs_node \<Rightarrow> driver" where
  "ram_after_create s p name c n = (case s of (fs, h) \<Rightarrow>
     (fs\<lparr>next_node_id := \<lparr>inner = inner (next_node_id fs) + 1\<rparr>\<rparr>,
      set_private_data p (RamDirectoryNode (bt_insert name (length h) c)) (h @ [n])))"

lemma ram_create_file_Ok:
  assumes "p < length h" "private_data (h ! p) = RamDirectoryNode c" "inner (next_node_id fs) \<noteq> - 1"
  shows "ram_create_file p name (fs, h) = (Ok (length h),
    ram_after_create (fs, h) p name c (ram_created (fs, h) File (RamFileNode [])))"
  using assms
  by (simp add: ram_create_file_def on_fs_simp on_heap_simp take_node_id_Ok try_bind_def
      ram_add_child_def data_as_ram_directory_def nth_append ram_created_def ram_after_create_def)

lemma ram_create_directory_Ok:
  assumes "p < length h" "private_data (h ! p) = RamDirectoryNode c" "inner (next_node_id fs) \<noteq> - 1"
  shows "ram_create_directory p name (fs, h) = (Ok (length h),
    ram_after_create (fs, h) p name c (ram_created (fs, h) Directory (RamDirectoryNode [])))"
  using assms
  by (simp add: ram_create_directory_def on_fs_simp on_heap_simp take_node_id_Ok try_bind_def
      ram_add_child_def data_as_ram_directory_def nth_append ram_created_def ram_after_create_def)

lemma ram_create_exhausted:
  assumes "inner (next_node_id fs) = - 1"
  shows "ram_create_file p name (fs, h) = (Panic Overflow, (fs, h))"
    and "ram_create_directory p name (fs, h) = (Panic Overflow, (fs, h))"
  using assms
  by (simp_all add: ram_create_file_def ram_create_directory_def on_fs_simp take_node_id_max try_bind_def)

lemma ram_lookup_dir:
  assumes "private_data (h ! p) = RamDirectoryNode c"
  shows "ram_lookup p name (fs, h) = (Ok (bt_get name c), (fs, h))"
  using assms by (simp add: ram_lookup_def on_heap_simp data_as_ram_directory_def)

lemma ram_lookup_pure [simp]: "snd (ram_lookup p name s) = s"
  by (cases s) (simp add: ram_lookup_def on_heap_simp data_as_ram_directory_def try_bind_def
      split: private_data.split)

lemma ram_after_create_data:
  assumes "p < length h" "private_data (h ! p) = RamDirectoryNode c" "q < length h"
  shows "private_data (snd (ram_after_create (fs, h) p name c n) ! q) =
    (if q = p then RamDirectoryNode (bt_insert name (length h) c) else private_data (h ! q))"
  using assms by (simp add: ram_after_create_def nth_set_private_data nth_append)

lemma ram_after_create_length: "length (snd (ram_after_create (fs, h) p name c n)) = Suc (length h)"
  by (simp add: ram_after_create_def)

lemma ram_create_laws:
  assumes create: "\<And>p name fs h c. p < length h \<Longrightarrow> private_data (h ! p) = RamDirectoryNode c \<Longrightarrow>
      inner (next_node_id fs) \<noteq> - 1 \<Longrightarrow>
      create p name (fs, h) = (Ok (length h), ram_after_create (fs, h) p name c (n fs h))"
    and exhausted: "\<And>p name fs h. inner (next_node_id fs) = - 1 \<Longrightarrow>
      create p name (fs, h) = (Panic Overflow, (fs, h))"
  shows "directory_driver create ram_lookup ram_dir_ok"
proof
  fix s p name x s'
  assume "ram_dir_ok s p" and cr: "create p name s = (Ok x, s')"
  then obtain fs h c where s: "s = (fs, h)" and p: "p < length h" "private_data (h ! p) = RamDirectoryNode c"
    by (cases s) (auto simp: ram_dir_ok_def)
  have "inner (next_node_id fs) \<noteq> - 1"
    using cr exhausted [of fs p name h] s by auto
  with create [OF p this, of name] cr s have x: "x = length h" and s': "s' = ram_after_create s p name c (n fs h)"
    by auto
  obtain fs' h' where s'_eq: "s' = (fs', h')" by (cases s')
  have h': "h' = snd (ram_after_create (fs, h) p name c (n fs h))" using s' s'_eq s by (metis snd_conv)
  have data: "private_data (h' ! q) =
      (if q = p then RamDirectoryNode (bt_insert name x c) else private_data (h ! q))"
    if "q < length h" for q
    using ram_after_create_data [OF p that] x h' by simp
  have len: "length h' = Suc (length h)" using ram_after_create_length h' by simp
  show "ram_lookup p name s' = (Ok (Some x), s')"
    using ram_lookup_dir [of h' p _ name fs'] data [OF p(1)] s'_eq by simp
  fix q
  assume "ram_dir_ok s q"
  then obtain cq where q: "q < length h" "private_data (h ! q) = RamDirectoryNode cq"
    using s by (auto simp: ram_dir_ok_def)
  show "ram_dir_ok s' q"
    using data [OF q(1)] q len s'_eq by (simp add: ram_dir_ok_def)
  fix name'
  assume "(q, name') \<noteq> (p, name)"
  then show "fst (ram_lookup q name' s') = fst (ram_lookup q name' s)"
    using ram_lookup_dir [OF q(2), of name' fs] data [OF q(1)] p q s s'_eq
    by (cases "q = p") (simp_all add: ram_lookup_dir)
qed simp

interpretation ram_files: directory_driver ram_create_file ram_lookup ram_dir_ok
  by (rule ram_create_laws [OF ram_create_file_Ok ram_create_exhausted(1)])

interpretation ram_directories: directory_driver ram_create_directory ram_lookup ram_dir_ok
  by (rule ram_create_laws [OF ram_create_directory_Ok ram_create_exhausted(2)])

end
