(* ===== verification/Dev_Fs.thy ===== *)
theory Dev_Fs
  imports Ram_Fs
begin

text \<open>
  The device file system, \<open>drivers/fs/dev.rs\<close>: a single directory whose entries are the
  registered character devices. The registry it reads is a parameter of its operations.
\<close>

section \<open>Mounting\<close>

definition dev_mount :: "u64 \<Rightarrow> string \<Rightarrow> u32 \<Rightarrow> (node_heap, io_error, file_system) op" where
  "dev_mount mid source flags =
     try_bind (asserting (source = [])) (\<lambda>_.
     try_bind (alloc_node \<lparr>node_id = FsNodeId_ZERO, mount_id = mid, kind = Directory,
                 metadata = new_metadata, private_data = NoData\<rparr>) (\<lambda>root.
     ret \<lparr>fs_metadata = \<lparr>device = None, mount_flags = flags, block_size = 512,
             max_file_size = usize_max, file_system_type = DevFileSystemType\<rparr>,
          next_node_id = cell_new 1,
          fs_root = root\<rparr>))"

definition dev_unmount :: "file_system \<Rightarrow> ('s, 'e, unit) op" where
  "dev_unmount fs = panic Todo"

definition dev_write_node :: "fs_node \<Rightarrow> (unit, unit) outcome" where
  "dev_write_node n = Ok ()"

definition dev_evict_node :: "fs_node \<Rightarrow> (unit, unit) outcome" where
  "dev_evict_node n = Ok ()"

section \<open>Files\<close>

definition dev_read :: "open_file \<Rightarrow> usize \<Rightarrow> u8 list \<Rightarrow> (node_heap, io_error, usize \<times> u8 list) op" where
  "dev_read f offset buffer = (\<lambda>h.
     case kind (h ! file_node f) of
       CharDevice \<Rightarrow>
         try_bind (data_as_char_device (h ! file_node f)) (\<lambda>c_dev.
           fo_read (char_device_file_operations c_dev) f offset buffer) h
     | BlockDevice \<Rightarrow> panic Todo h
     | _ \<Rightarrow> panic Unreachable h)"

definition dev_write :: "open_file \<Rightarrow> usize \<Rightarrow> u8 list \<Rightarrow> (node_heap, io_error, usize) op" where
  "dev_write f offset buffer = (\<lambda>h.
     case kind (h ! file_node f) of
       CharDevice \<Rightarrow>
         try_bind (data_as_char_device (h ! file_node f)) (\<lambda>c_dev.
           fo_write (char_device_file_operations c_dev) f offset buffer) h
     | BlockDevice \<Rightarrow> panic Todo h
     | _ \<Rightarrow> panic Unreachable h)"

definition dev_file_operations :: file_operations where
  "dev_file_operations = default_file_operations\<lparr>fo_read := dev_read, fo_write := dev_write\<rparr>"

section \<open>The directory\<close>

definition dev_lookup :: "char_device_registry \<Rightarrow> nref \<Rightarrow> string \<Rightarrow> (driver, io_error, nref option) op" where
  "dev_lookup registry parent name = (\<lambda>s.
     case get_char_device name registry of
       None \<Rightarrow> (Ok None, s)
     | Some d \<Rightarrow>
         try_bind (on_fs take_node_id) (\<lambda>i.
         try_bind (on_heap (alloc_node \<lparr>node_id = i, mount_id = fs_mount_id s, kind = CharDevice,
                     metadata = new_metadata, private_data = CharDeviceData d\<rparr>)) (\<lambda>node.
         ret (Some node))) s)"

fun insert_devices :: "char_device list \<Rightarrow> directory_iteration_context \<Rightarrow>
    (driver, io_error, directory_iteration_context) op" where
  "insert_devices [] ctx = ret ctx"
| "insert_devices (d # ds) ctx =
     try_bind (on_fs take_node_id) (\<lambda>i.
       insert_devices ds (context_insert (cd_name (char_device_metadata d)) i CharDevice ctx))"

definition dev_read_directory :: "char_device_registry \<Rightarrow> directory_iteration_context \<Rightarrow> nref \<Rightarrow>
    (driver, io_error, directory_iteration_context) op" where
  "dev_read_directory registry ctx directory = insert_devices (list_char_devices registry) ctx"

definition dev_directory_operations :: "char_device_registry \<Rightarrow> directory_operations" where
  "dev_directory_operations registry =
     default_directory_operations (dev_lookup registry) (dev_read_directory registry)"

end
