(* ===== verification/Directory_Cache.thy ===== *)
theory Directory_Cache
  imports Dev_Fs
begin

text \<open>
  Directory entries and the directory cache, \<open>fs/vfs.rs\<close> (\<open>DirectoryEntry\<close>,
  \<open>DirectoryEntryId\<close>, \<open>DirectoryCacheKey\<close>, \<open>DirectoryCache\<close>).

  An entry lives behind an \<open>Arc\<close>; it holds a strong reference to its parent, and the cache and
  the parent's \<open>children\<close> map hold weak references. A weak reference can be upgraded exactly
  while the strong count is positive, and dropping the last strong reference to an entry drops
  the one it holds to its parent. Parents are allocated before their children, so the
  references form no cycle and an entry's count is positive exactly when the entry is an
  ancestor of, or equal to, one that is referenced from outside the \<open>parent\<close> fields: by the
  mount table, by a local variable, or by a caller of the VFS. The operations take the list of
  those outside references as an argument (\<open>strong\<close>).
\<close>

type_synonym dref = nat

record directory_entry =
  de_id :: u64
  de_name :: string
  de_node :: nref
  de_parent :: "dref option"
  de_children :: "(string, dref) btree_map"

type_synonym entry_heap = "directory_entry list"

text \<open>The cache: its table, the heap of entries, and the counter of \<open>DirectoryEntryId::new\<close>.\<close>

record directory_cache =
  entries :: entry_heap
  table :: "(u64 \<times> string, dref) btree_map"
  entry_next :: nat

definition DirectoryEntryId_NULL :: u64 where
  "DirectoryEntryId_NULL = 0"

definition cache_default :: directory_cache where
  "cache_default = \<lparr>entries = [], table = bt_empty, entry_next = 1\<rparr>"

text \<open>\<open>PartialEq for DirectoryEntry\<close>.\<close>

definition directory_entry_eq :: "directory_entry \<Rightarrow> directory_entry \<Rightarrow> bool" where
  "directory_entry_eq a b \<longleftrightarrow> de_id a = de_id b"

section \<open>Reference counts\<close>

function ancestors :: "entry_heap \<Rightarrow> dref \<Rightarrow> dref list" where
  "ancestors es d =
     d # (case de_parent (es ! d) of
            None \<Rightarrow> []
          | Some p \<Rightarrow> if p < d then ancestors es p else [])"
  by pat_completeness auto
termination
  by (relation "measure snd") auto

declare ancestors.simps [simp del]

definition alive :: "dref list \<Rightarrow> entry_heap \<Rightarrow> dref \<Rightarrow> bool" where
  "alive strong es d \<longleftrightarrow> list_ex (\<lambda>r. d \<in> set (ancestors es r)) strong"

definition upgrade :: "dref list \<Rightarrow> entry_heap \<Rightarrow> dref \<Rightarrow> dref option" where
  "upgrade strong es d = (if alive strong es d then Some d else None)"

section \<open>DirectoryCache\<close>

definition get_root :: "dref list \<Rightarrow> directory_cache \<Rightarrow> dref option" where
  "get_root strong c =
     Option.bind (bt_get (DirectoryEntryId_NULL, ''/'') (table c)) (upgrade strong (entries c))"

definition cache_lookup :: "dref list \<Rightarrow> dref \<Rightarrow> string \<Rightarrow> directory_cache \<Rightarrow> dref option" where
  "cache_lookup strong parent name c =
     Option.bind (bt_get (de_id (entries c ! parent), name) (table c)) (upgrade strong (entries c))"

definition cache_key :: "entry_heap \<Rightarrow> dref option \<Rightarrow> string \<Rightarrow> u64 \<times> string" where
  "cache_key es parent name =
     (case parent of None \<Rightarrow> DirectoryEntryId_NULL | Some p \<Rightarrow> de_id (es ! p), name)"

definition add_child :: "dref option \<Rightarrow> string \<Rightarrow> dref \<Rightarrow> entry_heap \<Rightarrow> entry_heap" where
  "add_child parent name d es =
     (case parent of
        None \<Rightarrow> es
      | Some p \<Rightarrow> es[p := (es ! p)\<lparr>de_children := bt_insert name d (de_children (es ! p))\<rparr>])"

definition cache_insert ::
  "dref list \<Rightarrow> dref option \<Rightarrow> nref \<Rightarrow> string \<Rightarrow> (directory_cache, 'e, dref) op" where
  "cache_insert strong parent node name = (\<lambda>c.
     try_bind (asserting (parent \<noteq> None \<or> name = ''/'')) (\<lambda>_.
     try_bind (asserting
         (case parent of None \<Rightarrow> True | Some p \<Rightarrow> cache_lookup strong p name c = None)) (\<lambda>_ c.
       let (i, next') = fetch_add (entry_next c);
           d = length (entries c);
           es = add_child parent name d
                  (entries c @ [\<lparr>de_id = i, de_name = name, de_node = node,
                                 de_parent = parent, de_children = bt_empty\<rparr>])
       in (Ok d, \<lparr>entries = es,
                  table = bt_insert (cache_key es parent name) d (table c),
                  entry_next = next'\<rparr>))) c)"

definition prune_children :: "dref list \<Rightarrow> dref \<Rightarrow> entry_heap \<Rightarrow> entry_heap" where
  "prune_children strong d es =
     es[d := (es ! d)\<lparr>de_children := bt_retain (\<lambda>_ w. alive strong es w) (de_children (es ! d))\<rparr>]"

definition prune :: "dref list \<Rightarrow> directory_cache \<Rightarrow> directory_cache" where
  "prune strong c =
     (let t = bt_retain (\<lambda>_ w. alive strong (entries c) w) (table c)
      in c\<lparr>table := t,
           entries := fold (\<lambda>w es. case upgrade strong es w of
                                     None \<Rightarrow> es
                                   | Some e \<Rightarrow> prune_children strong e es)
                        (bt_values t) (entries c)\<rparr>)"

section \<open>The invariant\<close>

text \<open>
  \<open>cache_inv\<close> is what holds of a cache whatever references exist; \<open>cache_small\<close> that the id
  counter has not wrapped around; \<open>cache_live\<close> relates the table to the references: every entry
  that is alive is found under its key.
\<close>

definition entry_key :: "entry_heap \<Rightarrow> dref \<Rightarrow> u64 \<times> string" where
  "entry_key es d = cache_key es (de_parent (es ! d)) (de_name (es ! d))"

definition entry_wf :: "entry_heap \<Rightarrow> dref \<Rightarrow> bool" where
  "entry_wf es d \<longleftrightarrow>
     de_id (es ! d) = atomic_value (Suc d)
     \<and> (case de_parent (es ! d) of None \<Rightarrow> de_name (es ! d) = ''/'' | Some p \<Rightarrow> p < d)
     \<and> bt_sorted (de_children (es ! d))
     \<and> (\<forall>n w. bt_get n (de_children (es ! d)) = Some w \<longrightarrow>
           w < length es \<and> de_parent (es ! w) = Some d \<and> de_name (es ! w) = n)"

definition cache_inv :: "directory_cache \<Rightarrow> bool" where
  "cache_inv c \<longleftrightarrow>
     entry_next c = Suc (length (entries c))
     \<and> (\<forall>d < length (entries c). entry_wf (entries c) d)
     \<and> bt_sorted (table c)
     \<and> (\<forall>k d. bt_get k (table c) = Some d \<longrightarrow>
           d < length (entries c) \<and> entry_key (entries c) d = k)"

definition cache_small :: "directory_cache \<Rightarrow> bool" where
  "cache_small c \<longleftrightarrow> entry_next c \<le> 2 ^ 64"

definition cache_live :: "dref list \<Rightarrow> directory_cache \<Rightarrow> bool" where
  "cache_live strong c \<longleftrightarrow>
     (\<forall>r \<in> set strong. r < length (entries c))
     \<and> (\<forall>d. alive strong (entries c) d \<longrightarrow> bt_get (entry_key (entries c) d) (table c) = Some d)"

section \<open>Ancestors\<close>

lemma ancestors_self [simp]: "d \<in> set (ancestors es d)"
  by (subst ancestors.simps) simp

lemma ancestors_parent:
  "de_parent (es ! d) = Some p \<Longrightarrow> p < d \<Longrightarrow> ancestors es d = d # ancestors es p"
  by (subst ancestors.simps) simp

lemma ancestors_root: "de_parent (es ! d) = None \<Longrightarrow> ancestors es d = [d]"
  by (subst ancestors.simps) simp

lemma ancestors_mem: "a \<in> set (ancestors es d) \<longleftrightarrow>
    a = d \<or> (\<exists>p. de_parent (es ! d) = Some p \<and> p < d \<and> a \<in> set (ancestors es p))"
  using ancestors.simps [of es d] by (auto split: option.split)

lemma ancestors_le: "a \<in> set (ancestors es d) \<Longrightarrow> a \<le> d"
proof (induction es d rule: ancestors.induct)
  case (1 es d)
  from "1.prems" ancestors_mem [of a es d] "1.IH" show ?case by fastforce
qed

lemma ancestors_trans: "a \<in> set (ancestors es b) \<Longrightarrow> b \<in> set (ancestors es d) \<Longrightarrow> a \<in> set (ancestors es d)"
proof (induction es d rule: ancestors.induct)
  case (1 es d)
  show ?case
  proof (cases "b = d")
    case True
    with "1.prems" show ?thesis by simp
  next
    case False
    with "1.prems"(2) obtain p where p: "de_parent (es ! d) = Some p" "p < d" "b \<in> set (ancestors es p)"
      using ancestors_mem [of b es d] by blast
    with "1.IH" [OF p(1,2)] "1.prems"(1) show ?thesis by (simp add: ancestors_parent)
  qed
qed

lemma ancestors_cong:
  "(\<And>e. e \<le> d \<Longrightarrow> de_parent (es ! e) = de_parent (es' ! e)) \<Longrightarrow> ancestors es d = ancestors es' d"
proof (induction es d rule: ancestors.induct)
  case (1 es d)
  show ?case
    by (subst (1 2) ancestors.simps) (use "1" in \<open>auto split: option.splits\<close>)
qed

lemma ancestors_not_Nil [simp]: "ancestors es d \<noteq> []"
  by (subst ancestors.simps) simp

lemma hd_ancestors [simp]: "hd (ancestors es d) = d"
  by (subst ancestors.simps) simp

section \<open>Liveness\<close>

lemma alive_iff: "alive strong es d \<longleftrightarrow> (\<exists>r \<in> set strong. d \<in> set (ancestors es r))"
  by (simp add: alive_def list_ex_iff)

lemma alive_strong: "r \<in> set strong \<Longrightarrow> alive strong es r"
  by (auto simp: alive_iff intro: bexI [of _ r])

lemma alive_mono: "alive strong es d \<Longrightarrow> set strong \<subseteq> set strong' \<Longrightarrow> alive strong' es d"
  by (auto simp: alive_iff)

lemma alive_ancestor: "alive strong es d \<Longrightarrow> a \<in> set (ancestors es d) \<Longrightarrow> alive strong es a"
  by (auto simp: alive_iff intro: ancestors_trans)

lemma alive_parent: "alive strong es d \<Longrightarrow> de_parent (es ! d) = Some p \<Longrightarrow> p < d \<Longrightarrow> alive strong es p"
  by (erule alive_ancestor) (simp add: ancestors_parent)

lemma alive_absorb:
  assumes "\<forall>r \<in> set strong. alive strong' es r"
  shows "alive strong es d \<Longrightarrow> alive strong' es d"
  using assms by (auto simp: alive_iff intro: ancestors_trans)

lemma alive_cong:
  assumes "\<And>e. e < n \<Longrightarrow> de_parent (es ! e) = de_parent (es' ! e)" "\<forall>r \<in> set strong. r < n"
  shows "alive strong es d \<longleftrightarrow> alive strong es' d"
proof -
  have "ancestors es r = ancestors es' r" if "r \<in> set strong" for r
    using assms that by (intro ancestors_cong) force
  then show ?thesis by (simp add: alive_iff)
qed

lemma alive_bound: "\<forall>r \<in> set strong. r < n \<Longrightarrow> alive strong es d \<Longrightarrow> d < n"
  by (auto simp: alive_iff dest!: ancestors_le)

section \<open>Looking up\<close>

lemma cache_live_mono: "cache_live strong c \<Longrightarrow> set strong' \<subseteq> set strong \<Longrightarrow> cache_live strong' c"
  by (auto simp: cache_live_def intro: alive_mono)

lemma cache_live_absorb:
  "cache_live strong c \<Longrightarrow> \<forall>r \<in> set strong'. alive strong (entries c) r \<Longrightarrow> cache_live strong' c"
  by (auto simp: cache_live_def intro: alive_absorb alive_bound)

lemma cache_inv_id: "cache_inv c \<Longrightarrow> d < length (entries c) \<Longrightarrow> de_id (entries c ! d) = atomic_value (Suc d)"
  by (simp add: cache_inv_def entry_wf_def)

lemma cache_inv_table:
  "cache_inv c \<Longrightarrow> bt_get k (table c) = Some d \<Longrightarrow> d < length (entries c) \<and> entry_key (entries c) d = k"
  unfolding cache_inv_def by blast

lemma cache_id_inj:
  assumes "cache_inv c" "cache_small c" "a < length (entries c)" "b < length (entries c)"
  shows "de_id (entries c ! a) = de_id (entries c ! b) \<longleftrightarrow> a = b"
  using assms atomic_value_inj [of "Suc a" "Suc b"]
  by (simp add: cache_inv_id cache_inv_def cache_small_def)

lemma cache_id_not_null:
  assumes "cache_inv c" "cache_small c" "d < length (entries c)"
  shows "de_id (entries c ! d) \<noteq> DirectoryEntryId_NULL"
  using assms atomic_value_eq_0 [of "Suc d"]
  by (simp add: cache_inv_id cache_inv_def cache_small_def DirectoryEntryId_NULL_def)

lemma cache_parent_less:
  "cache_inv c \<Longrightarrow> d < length (entries c) \<Longrightarrow> de_parent (entries c ! d) = Some p \<Longrightarrow> p < d"
  by (auto simp: cache_inv_def entry_wf_def)

lemma cache_root_name:
  "cache_inv c \<Longrightarrow> d < length (entries c) \<Longrightarrow> de_parent (entries c ! d) = None \<Longrightarrow> de_name (entries c ! d) = ''/''"
  by (auto simp: cache_inv_def entry_wf_def)

lemma cache_key_eq_iff:
  assumes "cache_inv c" "cache_small c" "p < length (entries c)" "d < length (entries c)"
  shows "entry_key (entries c) d = (de_id (entries c ! p), name) \<longleftrightarrow>
    de_parent (entries c ! d) = Some p \<and> de_name (entries c ! d) = name"
  using assms cache_id_not_null [of c p] cache_parent_less [of c d]
  by (fastforce simp: entry_key_def cache_key_def cache_id_inj split: option.splits)

lemma cache_key_root_iff:
  assumes "cache_inv c" "cache_small c" "d < length (entries c)"
  shows "entry_key (entries c) d = (DirectoryEntryId_NULL, ''/'') \<longleftrightarrow> de_parent (entries c ! d) = None"
  using assms cache_parent_less [of c d] cache_root_name [of c d]
  by (fastforce simp: entry_key_def cache_key_def cache_id_not_null split: option.splits)

lemma cache_lookup_iff:
  assumes "cache_inv c" "cache_small c" "cache_live strong c" "p < length (entries c)"
  shows "cache_lookup strong p name c = Some d \<longleftrightarrow>
    alive strong (entries c) d \<and> de_parent (entries c ! d) = Some p \<and> de_name (entries c ! d) = name"
    (is "?l \<longleftrightarrow> ?r")
proof
  assume ?l
  then have t: "bt_get (de_id (entries c ! p), name) (table c) = Some d" and a: "alive strong (entries c) d"
    by (auto simp: cache_lookup_def upgrade_def bind_eq_Some_conv split: if_splits)
  from t have "d < length (entries c)" "entry_key (entries c) d = (de_id (entries c ! p), name)"
    using cache_inv_table [OF assms(1)] by auto
  with assms a show ?r by (simp add: cache_key_eq_iff)
next
  assume r: ?r
  then have "d < length (entries c)"
    using assms(3) alive_bound by (auto simp: cache_live_def)
  moreover have "bt_get (entry_key (entries c) d) (table c) = Some d"
    using assms(3) r by (simp add: cache_live_def)
  ultimately show ?l
    using assms r cache_key_eq_iff [of c p d name] by (simp add: cache_lookup_def upgrade_def)
qed

lemma get_root_iff:
  assumes "cache_inv c" "cache_small c" "cache_live strong c"
  shows "get_root strong c = Some d \<longleftrightarrow> alive strong (entries c) d \<and> de_parent (entries c ! d) = None"
    (is "?l \<longleftrightarrow> ?r")
proof
  assume ?l
  then have t: "bt_get (DirectoryEntryId_NULL, ''/'') (table c) = Some d" and a: "alive strong (entries c) d"
    by (auto simp: get_root_def upgrade_def bind_eq_Some_conv split: if_splits)
  from t have "d < length (entries c)" "entry_key (entries c) d = (DirectoryEntryId_NULL, ''/'')"
    using cache_inv_table [OF assms(1)] by auto
  with assms a show ?r by (simp add: cache_key_root_iff)
next
  assume r: ?r
  then have "d < length (entries c)"
    using assms(3) alive_bound by (auto simp: cache_live_def)
  moreover have "bt_get (entry_key (entries c) d) (table c) = Some d"
    using assms(3) r by (simp add: cache_live_def)
  ultimately show ?l
    using assms r cache_key_root_iff [of c d] by (simp add: get_root_def upgrade_def)
qed

text \<open>Two live entries with the same parent and the same name are one entry.\<close>

lemma live_entry_unique:
  assumes "cache_live strong c" "alive strong (entries c) a" "alive strong (entries c) b"
    and "de_parent (entries c ! a) = de_parent (entries c ! b)" "de_name (entries c ! a) = de_name (entries c ! b)"
  shows "a = b"
  using assms by (simp add: cache_live_def entry_key_def) (metis option.inject)

section \<open>Heap extension\<close>

text \<open>Entries never change but for their \<open>children\<close>, and new ones are added at the end.\<close>

definition entries_ext :: "entry_heap \<Rightarrow> entry_heap \<Rightarrow> bool" where
  "entries_ext es es' \<longleftrightarrow> length es \<le> length es' \<and>
     (\<forall>d < length es. de_id (es' ! d) = de_id (es ! d) \<and> de_name (es' ! d) = de_name (es ! d)
        \<and> de_node (es' ! d) = de_node (es ! d) \<and> de_parent (es' ! d) = de_parent (es ! d))"

lemma entries_ext_refl [simp]: "entries_ext es es"
  by (simp add: entries_ext_def)

lemma entries_ext_trans [trans]: "entries_ext a b \<Longrightarrow> entries_ext b c \<Longrightarrow> entries_ext a c"
  by (simp add: entries_ext_def)

lemma entries_ext_ancestors:
  "entries_ext es es' \<Longrightarrow> d < length es \<Longrightarrow> ancestors es' d = ancestors es d"
  by (rule ancestors_cong) (simp add: entries_ext_def)

lemma entries_ext_alive:
  "entries_ext es es' \<Longrightarrow> \<forall>r \<in> set strong. r < length es \<Longrightarrow> alive strong es' d \<longleftrightarrow> alive strong es d"
  by (simp add: alive_iff entries_ext_ancestors)

lemma entries_ext_key:
  assumes "entries_ext es es'" "d < length es" "\<And>p. de_parent (es ! d) = Some p \<Longrightarrow> p < d"
  shows "entry_key es' d = entry_key es d"
  using assms by (fastforce simp: entry_key_def cache_key_def entries_ext_def split: option.split)

lemma entry_wf_ext:
  assumes ext: "entries_ext es es'" and wf: "entry_wf es d" and d: "d < length es"
    and srt: "bt_sorted (de_children (es' ! d))"
    and ch: "\<And>n w. bt_get n (de_children (es' ! d)) = Some w \<Longrightarrow>
      bt_get n (de_children (es ! d)) = Some w
      \<or> w < length es' \<and> de_parent (es' ! w) = Some d \<and> de_name (es' ! w) = n"
  shows "entry_wf es' d"
proof -
  have "w < length es' \<and> de_parent (es' ! w) = Some d \<and> de_name (es' ! w) = n"
    if "bt_get n (de_children (es' ! d)) = Some w" for n w
    using ch [OF that]
  proof
    assume "bt_get n (de_children (es ! d)) = Some w"
    with wf have "w < length es \<and> de_parent (es ! w) = Some d \<and> de_name (es ! w) = n"
      by (simp add: entry_wf_def)
    with ext show ?thesis by (simp add: entries_ext_def)
  qed
  then show ?thesis
    using wf ext d srt by (auto simp: entry_wf_def entries_ext_def split: option.splits)
qed

section \<open>Inserting\<close>

definition cache_inserted :: "dref option \<Rightarrow> nref \<Rightarrow> string \<Rightarrow> directory_cache \<Rightarrow> directory_cache" where
  "cache_inserted parent node name c =
     (let d = length (entries c);
          es = add_child parent name d
                 (entries c @ [\<lparr>de_id = atomic_value (entry_next c), de_name = name, de_node = node,
                                de_parent = parent, de_children = bt_empty\<rparr>])
      in \<lparr>entries = es, table = bt_insert (cache_key es parent name) d (table c),
          entry_next = Suc (entry_next c)\<rparr>)"

lemma cache_insert_eq:
  "cache_insert strong parent node name c =
     (if (parent \<noteq> None \<or> name = ''/'')
         \<and> (case parent of None \<Rightarrow> True | Some p \<Rightarrow> cache_lookup strong p name c = None)
      then (Ok (length (entries c)), cache_inserted parent node name c)
      else (Panic Assert, c))"
  by (simp add: cache_insert_def op_simps fetch_add_def cache_inserted_def Let_def)

lemma length_add_child [simp]: "length (add_child parent name d es) = length es"
  by (simp add: add_child_def split: option.split)

lemma add_child_nth:
  "i < length es \<Longrightarrow> add_child parent name d es ! i =
     (if parent = Some i then (es ! i)\<lparr>de_children := bt_insert name d (de_children (es ! i))\<rparr> else es ! i)"
  by (auto simp: add_child_def split: option.split)

lemma length_cache_inserted [simp]:
  "length (entries (cache_inserted parent node name c)) = Suc (length (entries c))"
  by (simp add: cache_inserted_def Let_def)

lemma entry_next_cache_inserted [simp]:
  "entry_next (cache_inserted parent node name c) = Suc (entry_next c)"
  by (simp add: cache_inserted_def Let_def)

lemma cache_inserted_ext: "entries_ext (entries c) (entries (cache_inserted parent node name c))"
  by (simp add: entries_ext_def cache_inserted_def Let_def add_child_nth nth_append)

lemma cache_inserted_new:
  fixes parent node name c
  defines "e \<equiv> entries (cache_inserted parent node name c) ! length (entries c)"
  assumes "parent \<noteq> Some (length (entries c))"
  shows "de_id e = atomic_value (entry_next c)" "de_name e = name" "de_node e = node"
    "de_parent e = parent" "de_children e = bt_empty"
  using assms by (simp_all add: cache_inserted_def Let_def add_child_nth nth_append)

lemma cache_inserted_children:
  assumes "d < length (entries c)"
  shows "de_children (entries (cache_inserted parent node name c) ! d) =
    (if parent = Some d then bt_insert name (length (entries c)) (de_children (entries c ! d))
     else de_children (entries c ! d))"
  using assms by (simp add: cache_inserted_def Let_def add_child_nth nth_append)

lemma cache_inserted_table:
  assumes "\<And>p. parent = Some p \<Longrightarrow> p < length (entries c)"
  shows "table (cache_inserted parent node name c) =
    bt_insert (cache_key (entries c) parent name) (length (entries c)) (table c)"
  using assms
  by (auto simp: cache_inserted_def Let_def cache_key_def add_child_nth nth_append split: option.split)

lemma entry_key_inserted_new:
  assumes "\<And>p. parent = Some p \<Longrightarrow> p < length (entries c)"
  shows "entry_key (entries (cache_inserted parent node name c)) (length (entries c)) =
    cache_key (entries c) parent name"
proof -
  have "parent \<noteq> Some (length (entries c))" using assms by auto
  moreover have "de_id (entries (cache_inserted parent node name c) ! p) = de_id (entries c ! p)"
    if "parent = Some p" for p
    using cache_inserted_ext [of c parent node name] assms [OF that] by (simp add: entries_ext_def)
  ultimately show ?thesis
    by (auto simp: entry_key_def cache_key_def cache_inserted_new split: option.split)
qed

lemma cache_inserted_inv:
  assumes inv: "cache_inv c" and root: "parent = None \<Longrightarrow> name = ''/''"
    and par: "\<And>p. parent = Some p \<Longrightarrow> p < length (entries c)"
  shows "cache_inv (cache_inserted parent node name c)"
proof -
  let ?c = "cache_inserted parent node name c" and ?n = "length (entries c)"
  note new = cache_inserted_new [of parent c node name]
  have par': "parent \<noteq> Some ?n" using par by auto
  have ext: "entries_ext (entries c) (entries ?c)" by (rule cache_inserted_ext)
  have wf_new: "entry_wf (entries ?c) ?n"
    using new [OF par'] inv root par by (auto simp: entry_wf_def cache_inv_def split: option.split)
  have wf_old: "entry_wf (entries ?c) d" if d: "d < ?n" for d
  proof (rule entry_wf_ext [OF ext _ d])
    show wf: "entry_wf (entries c) d" using inv d by (simp add: cache_inv_def)
    then show "bt_sorted (de_children (entries ?c ! d))"
      using d by (simp add: cache_inserted_children entry_wf_def)
    show "bt_get n (de_children (entries c ! d)) = Some w \<or> w < length (entries ?c)
        \<and> de_parent (entries ?c ! w) = Some d \<and> de_name (entries ?c ! w) = n"
      if "bt_get n (de_children (entries ?c ! d)) = Some w" for n w
      using that d new [OF par'] by (auto simp: cache_inserted_children split: if_splits)
  qed
  have key: "d < Suc ?n \<and> entry_key (entries ?c) d = k" if "bt_get k (table ?c) = Some d" for k d
  proof (cases "d = ?n \<and> k = cache_key (entries c) parent name")
    case True
    then show ?thesis using entry_key_inserted_new [OF par] by simp
  next
    case False
    with that par have "bt_get k (table c) = Some d"
      by (auto simp: cache_inserted_table split: if_splits)
    then have "d < ?n" "entry_key (entries c) d = k" using cache_inv_table [OF inv] by auto
    then show ?thesis using entries_ext_key [OF ext] cache_parent_less [OF inv] by auto
  qed
  show ?thesis
    unfolding cache_inv_def
    using inv wf_new wf_old key par
    by (auto simp: cache_inv_def less_Suc_eq cache_inserted_table)
qed

text \<open>
  After an insertion the new entry may be referenced too: the entries alive then are the ones
  alive before and the new one.
\<close>

lemma cache_inserted_alive:
  assumes inv: "cache_inv c" and live: "cache_live strong c"
    and par: "\<And>p. parent = Some p \<Longrightarrow> alive strong (entries c) p"
    and al: "alive (length (entries c) # strong) (entries (cache_inserted parent node name c)) d"
  shows "d = length (entries c) \<or> alive strong (entries c) d"
proof -
  let ?c = "cache_inserted parent node name c" and ?n = "length (entries c)"
  have bound: "\<forall>r \<in> set strong. r < ?n" using live by (simp add: cache_live_def)
  have par_less: "\<And>p. parent = Some p \<Longrightarrow> p < ?n" using par alive_bound [OF bound] by blast
  then have par': "parent \<noteq> Some ?n" by auto
  consider "d \<in> set (ancestors (entries ?c) ?n)" | "alive strong (entries ?c) d"
    using al by (auto simp: alive_iff)
  then show ?thesis
  proof cases
    case 1
    then have "d = ?n \<or> (\<exists>p. parent = Some p \<and> d \<in> set (ancestors (entries c) p))"
      using cache_inserted_new(4) [OF par', of node name] ancestors_mem [of d "entries ?c" ?n]
        entries_ext_ancestors [OF cache_inserted_ext, of _ c parent node name] par_less by auto
    then show ?thesis using par alive_ancestor by blast
  next
    case 2
    then show ?thesis using entries_ext_alive [OF cache_inserted_ext bound] by simp
  qed
qed

lemma cache_inserted_live:
  assumes inv: "cache_inv c" and small: "cache_small c" and live: "cache_live strong c"
    and par: "\<And>p. parent = Some p \<Longrightarrow> alive strong (entries c) p \<and> cache_lookup strong p name c = None"
    and root: "parent = None \<Longrightarrow> name = ''/'' \<and> get_root strong c = None"
  shows "cache_live (length (entries c) # strong) (cache_inserted parent node name c)"
proof -
  let ?c = "cache_inserted parent node name c" and ?n = "length (entries c)"
  have bound: "\<forall>r \<in> set strong. r < ?n" using live by (simp add: cache_live_def)
  have par_less: "\<And>p. parent = Some p \<Longrightarrow> p < ?n" using par alive_bound [OF bound] by blast
  have "bt_get (entry_key (entries ?c) d) (table ?c) = Some d"
    if al: "alive (?n # strong) (entries ?c) d" for d
  proof (cases "d = ?n")
    case True
    then show ?thesis using par_less by (simp add: entry_key_inserted_new cache_inserted_table)
  next
    case False
    then have old: "alive strong (entries c) d"
      using cache_inserted_alive [OF inv live _ al] par by auto
    then have d: "d < ?n" using alive_bound [OF bound] by blast
    have get: "bt_get (entry_key (entries c) d) (table c) = Some d"
      using live old by (simp add: cache_live_def)
    have "entry_key (entries c) d \<noteq> cache_key (entries c) parent name"
    proof (cases parent)
      case None
      then have "de_parent (entries c ! d) \<noteq> None"
        using root old get_root_iff [OF inv small live, of d] by auto
      with None root show ?thesis using cache_key_root_iff [OF inv small d] by (simp add: cache_key_def)
    next
      case (Some p)
      then have "\<not> (de_parent (entries c ! d) = Some p \<and> de_name (entries c ! d) = name)"
        using par old cache_lookup_iff [OF inv small live par_less [OF Some], of name d] by auto
      with Some show ?thesis
        using cache_key_eq_iff [OF inv small par_less [OF Some] d] by (simp add: cache_key_def)
    qed
    moreover have "entry_key (entries ?c) d = entry_key (entries c) d"
      using entries_ext_key [OF cache_inserted_ext d] cache_parent_less [OF inv d] by blast
    ultimately show ?thesis using get par_less by (simp add: cache_inserted_table)
  qed
  then show ?thesis using bound by (auto simp: cache_live_def)
qed

section \<open>Pruning\<close>

definition prune_entries :: "dref list \<Rightarrow> dref list \<Rightarrow> entry_heap \<Rightarrow> entry_heap" where
  "prune_entries strong ws es = fold (\<lambda>w es. case upgrade strong es w of
      None \<Rightarrow> es | Some e \<Rightarrow> prune_children strong e es) ws es"

lemma prune_children_ext:
  "d < length es \<Longrightarrow> entries_ext es (prune_children strong d es)
     \<and> length (prune_children strong d es) = length es"
  by (auto simp: entries_ext_def prune_children_def nth_list_update)

lemma bt_retain_retain: "bt_retain P (bt_retain P m) = bt_retain P m"
  by (simp add: bt_retain_def)

lemma prune_entries_spec:
  assumes "\<forall>r \<in> set strong. r < length es" "\<forall>w \<in> set ws. w < length es"
  shows "length (prune_entries strong ws es) = length es \<and> entries_ext es (prune_entries strong ws es)
    \<and> (\<forall>d < length es. de_children (prune_entries strong ws es ! d) =
          (if d \<in> set ws \<and> alive strong es d
           then bt_retain (\<lambda>_ w. alive strong es w) (de_children (es ! d)) else de_children (es ! d)))"
  using assms
proof (induction ws arbitrary: es)
  case Nil
  then show ?case by (simp add: prune_entries_def)
next
  case (Cons w ws)
  show ?case
  proof (cases "alive strong es w")
    case False
    then show ?thesis using Cons by (auto simp: prune_entries_def upgrade_def)
  next
    case True
    let ?es = "prune_children strong w es"
    have w: "w < length es" using Cons.prems by simp
    have ext: "entries_ext es ?es" and len: "length ?es = length es"
      using prune_children_ext [OF w] by auto
    have al: "alive strong ?es = alive strong es"
      using entries_ext_alive [OF ext Cons.prems(1)] by blast
    have step: "prune_entries strong (w # ws) es = prune_entries strong ws ?es"
      using True by (simp add: prune_entries_def upgrade_def)
    have ch: "de_children (?es ! d) =
        (if d = w then bt_retain (\<lambda>_ w. alive strong es w) (de_children (es ! d)) else de_children (es ! d))"
      if "d < length es" for d
      using that by (simp add: prune_children_def)
    have IH: "length (prune_entries strong ws ?es) = length ?es \<and> entries_ext ?es (prune_entries strong ws ?es)
      \<and> (\<forall>d < length ?es. de_children (prune_entries strong ws ?es ! d) =
          (if d \<in> set ws \<and> alive strong ?es d
           then bt_retain (\<lambda>_ w. alive strong ?es w) (de_children (?es ! d)) else de_children (?es ! d)))"
      using Cons.prems len by (intro Cons.IH) auto
    then show ?thesis
      using entries_ext_trans [OF ext] True by (auto simp: step len al ch bt_retain_retain)
  qed
qed

lemma prune_eq: "prune strong c =
  (let t = bt_retain (\<lambda>_ w. alive strong (entries c) w) (table c)
   in c\<lparr>table := t, entries := prune_entries strong (bt_values t) (entries c)\<rparr>)"
  by (simp add: prune_def prune_entries_def Let_def)

lemma prune_table_get:
  "cache_inv c \<Longrightarrow> bt_get k (table (prune strong c)) =
     (case bt_get k (table c) of
        None \<Rightarrow> None | Some d \<Rightarrow> if alive strong (entries c) d then Some d else None)"
  by (simp add: prune_eq Let_def bt_get_retain cache_inv_def)

lemma prune_entries_facts:
  assumes inv: "cache_inv c" and bound: "\<forall>r \<in> set strong. r < length (entries c)"
  shows "length (entries (prune strong c)) = length (entries c)"
    and "entries_ext (entries c) (entries (prune strong c))"
    and "\<And>d. d < length (entries c) \<Longrightarrow>
      bt_sorted (de_children (entries c ! d)) \<Longrightarrow> bt_sorted (de_children (entries (prune strong c) ! d))"
    and "\<And>d n w. d < length (entries c) \<Longrightarrow> bt_sorted (de_children (entries c ! d)) \<Longrightarrow>
      bt_get n (de_children (entries (prune strong c) ! d)) = Some w \<Longrightarrow>
      bt_get n (de_children (entries c ! d)) = Some w"
proof -
  let ?t = "bt_retain (\<lambda>_ w. alive strong (entries c) w) (table c)"
  have "\<forall>w \<in> set (bt_values ?t). w < length (entries c)"
    using alive_bound [OF bound] by (auto simp: bt_values_def bt_retain_def)
  note spec = prune_entries_spec [OF bound this]
  have es: "entries (prune strong c) = prune_entries strong (bt_values ?t) (entries c)"
    by (simp add: prune_eq Let_def)
  show "length (entries (prune strong c)) = length (entries c)"
    and "entries_ext (entries c) (entries (prune strong c))"
    using spec es by auto
  fix d assume d: "d < length (entries c)" "bt_sorted (de_children (entries c ! d))"
  then show "bt_sorted (de_children (entries (prune strong c) ! d))"
    using spec es by auto
  fix n w assume "bt_get n (de_children (entries (prune strong c) ! d)) = Some w"
  with d show "bt_get n (de_children (entries c ! d)) = Some w"
    using spec es by (auto simp: bt_get_retain split: if_splits option.splits)
qed

lemma prune_inv:
  assumes inv: "cache_inv c" and bound: "\<forall>r \<in> set strong. r < length (entries c)"
  shows "cache_inv (prune strong c)"
proof -
  note facts = prune_entries_facts [OF assms]
  have "entry_wf (entries (prune strong c)) d" if "d < length (entries c)" for d
  proof (rule entry_wf_ext [OF facts(2) _ that])
    show wf: "entry_wf (entries c) d" using inv that by (simp add: cache_inv_def)
    then show "bt_sorted (de_children (entries (prune strong c) ! d))"
      using facts(3) [OF that] by (simp add: entry_wf_def)
  qed (use facts(4) [OF that] inv that in \<open>auto simp: cache_inv_def entry_wf_def\<close>)
  moreover have "d < length (entries c) \<and> entry_key (entries (prune strong c)) d = k"
    if "bt_get k (table (prune strong c)) = Some d" for k d
    using that cache_inv_table [OF inv, of k d] entries_ext_key [OF facts(2), of d]
      cache_parent_less [OF inv, of d]
    by (auto simp: prune_table_get [OF inv] split: option.splits if_splits)
  moreover have "bt_sorted (table (prune strong c))" "entry_next (prune strong c) = entry_next c"
    using inv by (simp_all add: prune_eq Let_def cache_inv_def)
  ultimately show ?thesis
    using inv facts(1) unfolding cache_inv_def by simp
qed

lemma prune_alive:
  assumes "cache_inv c" "\<forall>r \<in> set strong. r < length (entries c)"
  shows "alive strong (entries (prune strong c)) d \<longleftrightarrow> alive strong (entries c) d"
  using entries_ext_alive [OF prune_entries_facts(2) [OF assms] assms(2)] .

lemma prune_live:
  assumes inv: "cache_inv c" and live: "cache_live strong c"
  shows "cache_live strong (prune strong c)"
proof -
  have bound: "\<forall>r \<in> set strong. r < length (entries c)" using live by (simp add: cache_live_def)
  note facts = prune_entries_facts [OF inv bound]
  have "bt_get (entry_key (entries (prune strong c)) d) (table (prune strong c)) = Some d"
    if "alive strong (entries c) d" for d
  proof -
    have "d < length (entries c)" using alive_bound [OF bound that] .
    then have "entry_key (entries (prune strong c)) d = entry_key (entries c) d"
      using entries_ext_key [OF facts(2)] cache_parent_less [OF inv] by blast
    then show ?thesis using that live by (simp add: prune_table_get [OF inv] cache_live_def)
  qed
  then show ?thesis using bound facts(1) prune_alive [OF inv bound] by (simp add: cache_live_def)
qed

lemma prune_lookup:
  assumes inv: "cache_inv c" and live: "cache_live strong c" and p: "p < length (entries c)"
  shows "cache_lookup strong p name (prune strong c) = cache_lookup strong p name c"
    and "get_root strong (prune strong c) = get_root strong c"
proof -
  have bound: "\<forall>r \<in> set strong. r < length (entries c)" using live by (simp add: cache_live_def)
  have "de_id (entries (prune strong c) ! p) = de_id (entries c ! p)"
    using prune_entries_facts(2) [OF inv bound] p by (simp add: entries_ext_def)
  then show "cache_lookup strong p name (prune strong c) = cache_lookup strong p name c"
    by (simp add: cache_lookup_def upgrade_def prune_table_get [OF inv] prune_alive [OF inv bound]
        split: option.splits)
  show "get_root strong (prune strong c) = get_root strong c"
    by (simp add: get_root_def upgrade_def prune_table_get [OF inv] prune_alive [OF inv bound]
        split: option.splits)
qed

end
