(* ===== verification/Vfs.thy ===== *)
theory Vfs
  imports Fs_Path Directory_Cache
begin

text \<open>
  The virtual file system, \<open>fs/vfs.rs\<close>. The state is the \<open>VirtualFileSystem\<close> with the heaps its
  \<open>Arc\<close>s point into, the static counters of \<open>MountId\<close> and \<open>FileDescriptor\<close>, the two global
  registries, and \<open>handles\<close>, the references to directory entries that callers hold (\<open>stat\<close> and
  \<open>create_directory\<close> return one).

  The kernel runs one task at a time and interrupt handlers do not touch the VFS, so its locks
  are never contended; each of them is released before an operation that takes it again.
\<close>

record vfs_mount =
  m_id :: u64
  m_root :: dref
  m_file_system :: file_system

record vfs =
  files :: "(u64, open_file) btree_map"
  mount_table :: "(u64, vfs_mount) btree_map"
  directory_cache :: directory_cache
  nodes :: node_heap
  handles :: "dref list"
  mount_next :: nat
  fd_next :: nat
  char_devices :: char_device_registry
  fs_types :: file_system_registry

text \<open>\<open>VirtualFileSystem::new\<close>, the registries being what the drivers registered.\<close>

definition vfs_new :: "char_device_registry \<Rightarrow> file_system_registry \<Rightarrow> vfs" where
  "vfs_new cds fts = \<lparr>files = bt_empty, mount_table = bt_empty, directory_cache = cache_default,
     nodes = [], handles = [], mount_next = 0, fd_next = 1, char_devices = cds, fs_types = fts\<rparr>"

type_synonym 'a vfs_op = "(vfs, io_error, 'a) op"

definition entry :: "vfs \<Rightarrow> dref \<Rightarrow> directory_entry" where
  "entry s d = entries (directory_cache s) ! d"

definition entry_node :: "vfs \<Rightarrow> dref \<Rightarrow> fs_node" where
  "entry_node s d = nodes s ! de_node (entry s d)"

text \<open>The strong references to entries other than local variables and \<open>parent\<close> fields.\<close>

definition vfs_strong :: "vfs \<Rightarrow> dref list" where
  "vfs_strong s = map m_root (bt_values (mount_table s)) @ handles s"

definition on_nodes :: "(node_heap, 'e, 'a) op \<Rightarrow> (vfs, 'e, 'a) op" where
  "on_nodes m = (\<lambda>s. case m (nodes s) of (r, h) \<Rightarrow> (r, s\<lparr>nodes := h\<rparr>))"

section \<open>Drivers\<close>

definition file_system_directory_operations ::
  "char_device_registry \<Rightarrow> file_system \<Rightarrow> directory_operations" where
  "file_system_directory_operations cds fs =
     (case file_system_type (fs_metadata fs) of
        RamFileSystemType \<Rightarrow> ram_directory_operations
      | DevFileSystemType \<Rightarrow> dev_directory_operations cds)"

definition file_system_file_operations :: "file_system \<Rightarrow> file_operations" where
  "file_system_file_operations fs =
     (case file_system_type (fs_metadata fs) of
        RamFileSystemType \<Rightarrow> ram_file_operations
      | DevFileSystemType \<Rightarrow> dev_file_operations)"

fun fs_type_mount :: "fs_type \<Rightarrow> u64 \<Rightarrow> string \<Rightarrow> u32 \<Rightarrow> (node_heap, io_error, file_system) op" where
  "fs_type_mount RamFileSystemType = ram_mount"
| "fs_type_mount DevFileSystemType = dev_mount"

definition get_mount :: "u64 \<Rightarrow> vfs \<Rightarrow> vfs_mount option" where
  "get_mount i s = bt_get i (mount_table s)"

text \<open>\<open>FsNode::file_system\<close> and \<open>File::file_system\<close>.\<close>

definition node_file_system :: "nref \<Rightarrow> file_system vfs_op" where
  "node_file_system n = (\<lambda>s.
     try_bind (unwrap (get_mount (mount_id (nodes s ! n)) s)) (\<lambda>m. ret (m_file_system m)) s)"

text \<open>
  A method call \<open>fs.directory_operations().m(..)\<close> on the file system of a node: the method
  updates the mounted instance (its node counter) and the nodes.
\<close>

definition put_file_system :: "u64 \<Rightarrow> file_system \<Rightarrow> vfs \<Rightarrow> vfs" where
  "put_file_system i fs s =
     (case get_mount i s of
        None \<Rightarrow> s
      | Some m \<Rightarrow> s\<lparr>mount_table := bt_insert i (m\<lparr>m_file_system := fs\<rparr>) (mount_table s)\<rparr>)"

definition call_directory_operation ::
  "nref \<Rightarrow> (directory_operations \<Rightarrow> (driver, io_error, 'a) op) \<Rightarrow> 'a vfs_op" where
  "call_directory_operation n m =
     try_bind (node_file_system n) (\<lambda>fs s.
       case m (file_system_directory_operations (char_devices s) fs) (fs, nodes s) of
         (r, (fs', h)) \<Rightarrow> (r, put_file_system (mount_id (nodes s ! n)) fs' (s\<lparr>nodes := h\<rparr>)))"

section \<open>Resolution\<close>

definition vfs_cache_insert :: "dref list \<Rightarrow> dref option \<Rightarrow> nref \<Rightarrow> string \<Rightarrow> dref vfs_op" where
  "vfs_cache_insert locals parent node name = (\<lambda>s.
     case cache_insert (locals @ vfs_strong s) parent node name (directory_cache s) of
       (r, c) \<Rightarrow> (r, s\<lparr>directory_cache := c\<rparr>))"

definition get_cached_or_lookup :: "dref list \<Rightarrow> dref \<Rightarrow> string \<Rightarrow> dref option vfs_op" where
  "get_cached_or_lookup locals parent name = (\<lambda>s.
     case cache_lookup (locals @ vfs_strong s) parent name (directory_cache s) of
       Some cached \<Rightarrow> (Ok (Some cached), s)
     | None \<Rightarrow>
         try_bind (call_directory_operation (de_node (entry s parent))
             (\<lambda>ops. do_lookup ops (de_node (entry s parent)) name)) (\<lambda>r.
         case r of
           None \<Rightarrow> ret None
         | Some node \<Rightarrow>
             try_bind (vfs_cache_insert locals (Some parent) node name) (\<lambda>e. ret (Some e))) s)"

text \<open>The loop over \<open>mount_table.values()\<close> for a mount on the name in the directory on top of the stack.\<close>

definition mounted_at :: "vfs \<Rightarrow> dref \<Rightarrow> string \<Rightarrow> vfs_mount \<Rightarrow> bool" where
  "mounted_at s cur name mnt \<longleftrightarrow>
     (case de_parent (entry s (m_root mnt)) of
        None \<Rightarrow> False
      | Some p \<Rightarrow> directory_entry_eq (entry s p) (entry s cur))
     \<and> de_name (entry s (m_root mnt)) = name"

definition find_mounted :: "vfs \<Rightarrow> dref \<Rightarrow> string \<Rightarrow> dref option" where
  "find_mounted s cur name =
     map_option m_root (List.find (mounted_at s cur name) (bt_values (mount_table s)))"

text \<open>
  The loop of \<open>resolve_path\<close>. The \<open>VecDeque\<close> is used as a stack: the head of the list is its
  back.
\<close>

fun resolve_segments :: "string list \<Rightarrow> dref list \<Rightarrow> dref option vfs_op" where
  "resolve_segments [] stack =
     (case stack of [] \<Rightarrow> panic Unwrap | cur # _ \<Rightarrow> ret (Some cur))"
| "resolve_segments (segment # rest) stack =
     (case stack of
        [] \<Rightarrow> panic Unwrap
      | cur # below \<Rightarrow> (\<lambda>s.
          if \<not> is_directory (entry_node s cur) then (Err NotADirectory, s)
          else if segment = ''.'' then resolve_segments rest stack s
          else if segment = ''..'' then
            (if length stack = 1 then resolve_segments rest stack s
             else resolve_segments rest below s)
          else
            (case find_mounted s cur segment of
               Some root \<Rightarrow> resolve_segments rest (root # stack) s
             | None \<Rightarrow>
                 try_bind (get_cached_or_lookup stack cur segment) (\<lambda>r.
                   case r of
                     None \<Rightarrow> ret None
                   | Some e \<Rightarrow> resolve_segments rest (e # stack)) s)))"

text \<open>\<open>Path::from_str(path).map_err(|_| IoError::InvalidPath)?\<close>.\<close>

definition parse_path :: "string \<Rightarrow> path vfs_op" where
  "parse_path str = (case path_from_str str of
     Ok p \<Rightarrow> ret p | Err _ \<Rightarrow> fail InvalidPath | Panic p \<Rightarrow> panic p)"

definition require_absolute :: "path \<Rightarrow> unit vfs_op" where
  "require_absolute p = (case (is_absolute p :: (io_error, bool) outcome) of
     Ok b \<Rightarrow> if b then ret () else panic Todo | Err e \<Rightarrow> fail e | Panic q \<Rightarrow> panic q)"

definition require_root :: "dref vfs_op" where
  "require_root = (\<lambda>s. ok_or (get_root (vfs_strong s) (directory_cache s)) NoRootDirectory s)"

definition resolve_path :: "string \<Rightarrow> dref option vfs_op" where
  "resolve_path str =
     try_bind (parse_path str) (\<lambda>p.
     try_bind (require_absolute p) (\<lambda>_.
     try_bind require_root (\<lambda>root.
     resolve_segments (drop 1 (segments p)) [root])))"

text \<open>
  The loop of \<open>resolve_path_parent_directory\<close>: the segment that is the last is returned as the
  name, every other one is looked up and must be a directory.
\<close>

fun resolve_parent_segments :: "string list \<Rightarrow> dref list \<Rightarrow> (dref \<times> string) vfs_op" where
  "resolve_parent_segments [] stack = panic Unreachable"
| "resolve_parent_segments (segment # rest) stack =
     (if segment = ''.'' then panic Todo
      else if segment = ''..'' then panic Todo
      else
        (case stack of
           [] \<Rightarrow> panic Unwrap
         | cur # below \<Rightarrow>
             if rest = [] then ret (cur, segment)
             else
               try_bind (get_cached_or_lookup stack cur segment) (\<lambda>r.
                 case r of
                   None \<Rightarrow> fail EntryNotFound
                 | Some e \<Rightarrow> (\<lambda>s.
                     if \<not> is_directory (entry_node s e) then (Err NotADirectory, s)
                     else resolve_parent_segments rest (e # stack) s))))"

definition resolve_path_parent_directory :: "string \<Rightarrow> (dref \<times> string) vfs_op" where
  "resolve_path_parent_directory str =
     try_bind (parse_path str) (\<lambda>p.
     try_bind (require_absolute p) (\<lambda>_.
     try_bind require_root (\<lambda>root.
       let count = length (segments p) - 1 in
       if count = 0 then fail InvalidPath
       else resolve_parent_segments (drop 1 (segments p)) [root])))"

section \<open>Mounting\<close>

definition new_mount_id :: "u64 vfs_op" where
  "new_mount_id = (\<lambda>s. case fetch_add (mount_next s) of (i, n) \<Rightarrow> (Ok i, s\<lparr>mount_next := n\<rparr>))"

definition vfs_mount_at :: "string \<Rightarrow> string \<Rightarrow> string option \<Rightarrow> u32 \<Rightarrow> u64 vfs_op" where
  "vfs_mount_at source target fs_kind flags = (\<lambda>s0.
     try_bind (case fs_kind of
         Some k \<Rightarrow> ok_or (find_file_system_type k (fs_types s0)) FileSystemTypeNotFound
       | None \<Rightarrow> panic Todo) (\<lambda>ty.
     if fst_name (fs_type_metadata ty) \<noteq> ''ramfs'' \<and> fst_name (fs_type_metadata ty) \<noteq> ''devfs''
     then panic Todo
     else
       try_bind
         (if target = ''/'' then (\<lambda>s.
            if get_root (vfs_strong s) (directory_cache s) \<noteq> None then (Err AlreadyExists, s)
            else
              try_bind new_mount_id (\<lambda>i.
              try_bind (on_nodes (fs_type_mount ty i source flags)) (\<lambda>fs.
              try_bind (vfs_cache_insert [] None (fs_root fs) ''/'') (\<lambda>root.
              ret \<lparr>m_id = i, m_root = root, m_file_system = fs\<rparr>))) s)
          else
            try_bind (resolve_path target) (\<lambda>r.
              case r of
                Some _ \<Rightarrow> panic Todo
              | None \<Rightarrow>
                  try_bind (resolve_path_parent_directory target) (\<lambda>(parent, name).
                  try_bind new_mount_id (\<lambda>i.
                  try_bind (on_nodes (fs_type_mount ty i source flags)) (\<lambda>fs.
                  try_bind (vfs_cache_insert [parent] (Some parent) (fs_root fs) name) (\<lambda>root.
                  ret \<lparr>m_id = i, m_root = root, m_file_system = fs\<rparr>))))))
         (\<lambda>mount s. (Ok (m_id mount),
            s\<lparr>mount_table := bt_insert (m_id mount) mount (mount_table s)\<rparr>))) s0)"

definition create_root :: "dref vfs_op" where
  "create_root = (\<lambda>s.
     try_bind (asserting (get_root (vfs_strong s) (directory_cache s) = None)) (\<lambda>_.
     try_bind (vfs_mount_at [] ''/'' (Some ''ramfs'') (READ OR WRITE)) (\<lambda>i s.
     try_bind (unwrap (get_mount i s)) (\<lambda>mount. ret (m_root mount)) s)) s)"

section \<open>Files\<close>

definition get_file :: "u64 \<Rightarrow> open_file vfs_op" where
  "get_file fd = (\<lambda>s. ok_or (bt_get fd (files s)) InvalidFile s)"

definition node_file_operations :: "nref \<Rightarrow> file_operations vfs_op" where
  "node_file_operations n =
     try_bind (node_file_system n) (\<lambda>fs. ret (file_system_file_operations fs))"

definition new_file_descriptor :: "u64 vfs_op" where
  "new_file_descriptor = (\<lambda>s. case fetch_add (fd_next s) of (i, n) \<Rightarrow> (Ok i, s\<lparr>fd_next := n\<rparr>))"

text \<open>The first half of \<open>open\<close>: the entry of the file, created when the mode is a writing one.\<close>

definition open_entry :: "string \<Rightarrow> file_mode \<Rightarrow> dref vfs_op" where
  "open_entry str m =
     (if is_mutating m then
        try_bind (resolve_path str) (\<lambda>r.
          case r of
            Some e \<Rightarrow> (\<lambda>s.
              if is_directory (entry_node s e) then (Err NotAFile, s) else (Ok e, s))
          | None \<Rightarrow>
              try_bind (resolve_path_parent_directory str) (\<lambda>(parent, file_name) s.
              try_bind (call_directory_operation (de_node (entry s parent))
                  (\<lambda>ops. do_create_file ops (de_node (entry s parent)) file_name)) (\<lambda>node.
              vfs_cache_insert [parent] (Some parent) node file_name) s))
      else try_bind (resolve_path str) (\<lambda>r. ok_or r EntryNotFound))"

definition vfs_open :: "string \<Rightarrow> file_mode \<Rightarrow> u64 vfs_op" where
  "vfs_open str m =
     try_bind (open_entry str m) (\<lambda>file_entry s.
       let n = de_node (entry s file_entry) in
       try_bind (on_nodes (increment_link_count n)) (\<lambda>_.
       defer_scope (on_nodes (decrement_link_count n)) (\<lambda>error_cleanup.
         try_bind (node_file_operations n) (\<lambda>ops.
         try_bind (on_nodes (fo_open ops n m)) (\<lambda>f.
         try_bind new_file_descriptor (\<lambda>fd s.
           (Ok (fd, defer_cancel error_cleanup), s\<lparr>files := bt_insert fd f (files s)\<rparr>)))))) s)"

definition vfs_close :: "u64 \<Rightarrow> unit vfs_op" where
  "vfs_close fd =
     try_bind (get_file fd) (\<lambda>f.
     try_bind (node_file_operations (file_node f)) (\<lambda>ops.
     try_bind (on_nodes (fo_flush ops f)) (\<lambda>_.
     try_bind (\<lambda>s. (Ok (), s\<lparr>files := bt_remove fd (files s)\<rparr>)) (\<lambda>_.
     on_nodes (decrement_link_count (file_node f))))))"

text \<open>\<open>*offset += n\<close> on the position of the open file.\<close>

definition advance_position :: "u64 \<Rightarrow> open_file \<Rightarrow> usize \<Rightarrow> unit vfs_op" where
  "advance_position fd f n =
     try_bind (checked_add (position f) n) (\<lambda>p s.
       (Ok (), s\<lparr>files := bt_insert fd (f\<lparr>position := p\<rparr>) (files s)\<rparr>))"

definition vfs_read :: "u64 \<Rightarrow> u8 list \<Rightarrow> (usize \<times> u8 list) vfs_op" where
  "vfs_read fd buffer =
     try_bind (get_file fd) (\<lambda>f s.
     try_bind (asserting (kind (nodes s ! file_node f) \<noteq> Directory)) (\<lambda>_.
     if mode f \<noteq> Read then fail InvalidMode
     else
       try_bind (node_file_operations (file_node f)) (\<lambda>ops.
       try_bind (on_nodes (fo_read ops f (position f) buffer)) (\<lambda>(n, buffer').
       try_bind (advance_position fd f n) (\<lambda>_.
       ret (n, buffer'))))) s)"

definition vfs_write :: "u64 \<Rightarrow> u8 list \<Rightarrow> usize vfs_op" where
  "vfs_write fd buffer =
     try_bind (get_file fd) (\<lambda>f s.
     try_bind (asserting (kind (nodes s ! file_node f) \<noteq> Directory)) (\<lambda>_.
     if mode f \<noteq> Write then fail InvalidMode
     else
       try_bind (node_file_operations (file_node f)) (\<lambda>ops.
       try_bind (on_nodes (fo_write ops f (position f) buffer)) (\<lambda>n.
       try_bind (advance_position fd f n) (\<lambda>_.
       ret n)))) s)"

section \<open>Directories\<close>

text \<open>The loop of \<open>read_directory\<close> over the mounts: those whose root is in this directory.\<close>

fun insert_mounts :: "vfs \<Rightarrow> dref \<Rightarrow> vfs_mount list \<Rightarrow>
    directory_iteration_context \<Rightarrow> directory_iteration_context" where
  "insert_mounts s directory [] ctx = ctx"
| "insert_mounts s directory (mnt # rest) ctx =
     insert_mounts s directory rest
       (case de_parent (entry s (m_root mnt)) of
          None \<Rightarrow> ctx
        | Some p \<Rightarrow>
            if directory_entry_eq (entry s p) (entry s directory)
            then context_insert (de_name (entry s (m_root mnt)))
                   (node_id (entry_node s (m_root mnt))) (kind (entry_node s (m_root mnt))) ctx
            else ctx)"

definition vfs_read_directory :: "string \<Rightarrow> directory_iteration_context vfs_op" where
  "vfs_read_directory str =
     try_bind (resolve_path str) (\<lambda>r.
     try_bind (ok_or r EntryNotFound) (\<lambda>directory s.
       if \<not> is_directory (entry_node s directory) then (Err NotADirectory, s)
       else
         try_bind (call_directory_operation (de_node (entry s directory))
             (\<lambda>ops. do_read_directory ops context_new (de_node (entry s directory)))) (\<lambda>ctx s.
           (Ok (insert_mounts s directory (bt_values (mount_table s)) ctx), s)) s))"

text \<open>The entry that \<open>create_directory\<close> and \<open>stat\<close> return is a reference the caller now holds.\<close>

definition give_handle :: "dref \<Rightarrow> dref vfs_op" where
  "give_handle d = (\<lambda>s. (Ok d, s\<lparr>handles := d # handles s\<rparr>))"

definition drop_handle :: "dref \<Rightarrow> vfs \<Rightarrow> vfs" where
  "drop_handle d s = s\<lparr>handles := remove1 d (handles s)\<rparr>"

definition vfs_create_directory :: "string \<Rightarrow> dref vfs_op" where
  "vfs_create_directory str =
     try_bind (resolve_path str) (\<lambda>r.
       if r \<noteq> None then fail AlreadyExists
       else
         try_bind (resolve_path_parent_directory str) (\<lambda>(parent, dir_name) s.
         try_bind (call_directory_operation (de_node (entry s parent))
             (\<lambda>ops. do_create_directory ops (de_node (entry s parent)) dir_name)) (\<lambda>node.
         try_bind (vfs_cache_insert [parent] (Some parent) node dir_name) give_handle) s))"

definition vfs_stat :: "string \<Rightarrow> dref vfs_op" where
  "vfs_stat str =
     try_bind (resolve_path str) (\<lambda>r. try_bind (ok_or r EntryNotFound) give_handle)"

definition prune_directory_cache :: "vfs \<Rightarrow> vfs" where
  "prune_directory_cache s = s\<lparr>directory_cache := prune (vfs_strong s) (directory_cache s)\<rparr>"

text \<open>\<open>From<&DirectoryEntry> for DirectoryIterationEntry\<close>.\<close>

definition iteration_entry_of :: "vfs \<Rightarrow> dref \<Rightarrow> directory_iteration_entry" where
  "iteration_entry_of s d =
     \<lparr>di_name = de_name (entry s d), di_id = node_id (entry_node s d), di_kind = kind (entry_node s d)\<rparr>"

section \<open>Initialisation\<close>

text \<open>\<open>expect\<close> on a \<open>Result\<close>.\<close>

definition expect :: "('s, 'e, 'a) op \<Rightarrow> ('s, 'f, 'a) op" where
  "expect m = (\<lambda>s. case m s of
     (Ok x, s') \<Rightarrow> (Ok x, s') | (Err e, s') \<Rightarrow> (Panic Unwrap, s') | (Panic p, s') \<Rightarrow> (Panic p, s'))"

definition hello_world :: "u8 list" where
  "hello_world = map of_char ''Hello, world!''"

definition vfs_init :: "unit vfs_op" where
  "vfs_init =
     try_bind (expect create_root) (\<lambda>_.
     try_bind (expect (vfs_mount_at [] ''/dev'' (Some ''devfs'') (READ OR WRITE))) (\<lambda>_.
     try_bind (expect (vfs_open ''/test.txt'' Write)) (\<lambda>f.
     try_bind (expect (vfs_write f hello_world)) (\<lambda>_.
     expect (vfs_close f)))))"

text \<open>
  \<open>fs::init\<close>, on the state that \<open>drivers::char::init\<close> leaves: the file system drivers register,
  then the VFS is created and initialised.
\<close>

definition fs_init :: "char_device_registry \<Rightarrow> (io_error, unit) outcome \<times> vfs" where
  "fs_init cds =
     (case expect fs_drivers_init bt_empty of
        (Ok _, fts) \<Rightarrow> vfs_init (vfs_new cds fts)
      | (Err e, fts) \<Rightarrow> (Err e, vfs_new cds fts)
      | (Panic p, fts) \<Rightarrow> (Panic p, vfs_new cds fts))"

end
