(* ===== verification/Vfs_Inv.thy ===== *)
theory Vfs_Inv
  imports Vfs
begin

text \<open>
  The invariant of the virtual file system, and what follows from it alone. It ties together the
  directory cache, the mount table, the nodes and the open files: every entry stands for what
  the driver of its parent has under its name (or is the root of a mount), every node belongs to
  a mount and has the data of its kind, and the link count of a node counts its open files.
\<close>

section \<open>Places\<close>

text \<open>
  What an entry stands for, whichever node object represents it: a node of a ramfs (or the root
  of a file system), or a character device. A devfs makes a new node at every lookup, so its
  nodes are compared by the device they stand for.
\<close>

datatype place = Node nref | Device char_device

definition place_of :: "node_heap \<Rightarrow> nref \<Rightarrow> place" where
  "place_of h n = (case private_data (h ! n) of CharDeviceData d \<Rightarrow> Device d | _ \<Rightarrow> Node n)"

text \<open>The entry that the driver of a directory has under a name.\<close>

definition fs_child :: "char_device_registry \<Rightarrow> node_heap \<Rightarrow> nref \<Rightarrow> string \<Rightarrow> place option" where
  "fs_child cds h n name =
     (case private_data (h ! n) of
        RamDirectoryNode c \<Rightarrow> map_option Node (bt_get name c)
      | NoData \<Rightarrow> map_option Device (get_char_device name cds)
      | _ \<Rightarrow> None)"

section \<open>The invariant\<close>

definition mount_type :: "vfs_mount \<Rightarrow> fs_type" where
  "mount_type m = file_system_type (fs_metadata (m_file_system m))"

fun node_typed :: "fs_type \<Rightarrow> fs_node_kind \<Rightarrow> private_data \<Rightarrow> bool" where
  "node_typed RamFileSystemType Directory (RamDirectoryNode c) = True"
| "node_typed RamFileSystemType File (RamFileNode d) = True"
| "node_typed DevFileSystemType Directory NoData = True"
| "node_typed DevFileSystemType CharDevice (CharDeviceData d) = True"
| "node_typed t k d = False"

definition node_mounted :: "vfs \<Rightarrow> fs_node \<Rightarrow> bool" where
  "node_mounted s nd \<longleftrightarrow>
     (case get_mount (mount_id nd) s of
        None \<Rightarrow> False
      | Some m \<Rightarrow> node_typed (mount_type m) (kind nd) (private_data nd)
                  \<and> node_id nd < inner (next_node_id (m_file_system m)))"

definition children_ok :: "node_heap \<Rightarrow> fs_node \<Rightarrow> bool" where
  "children_ok h nd \<longleftrightarrow>
     (\<forall>c. private_data nd = RamDirectoryNode c \<longrightarrow>
        bt_sorted c \<and> (\<forall>name x. bt_get name c = Some x \<longrightarrow>
           x < length h \<and> mount_id (h ! x) = mount_id nd))"

definition nodes_inv :: "vfs \<Rightarrow> bool" where
  "nodes_inv s \<longleftrightarrow>
     (\<forall>n < length (nodes s). node_mounted s (nodes s ! n) \<and> children_ok (nodes s) (nodes s ! n))
     \<and> (\<forall>a < length (nodes s). \<forall>b < length (nodes s).
          fs_node_eq (nodes s ! a) (nodes s ! b) \<longrightarrow> a = b)"

definition mounts_inv :: "vfs \<Rightarrow> bool" where
  "mounts_inv s \<longleftrightarrow>
     bt_sorted (mount_table s)
     \<and> (\<forall>i m. get_mount i s = Some m \<longrightarrow>
          m_id m = i \<and> (\<exists>j < mount_next s. i = atomic_value j)
          \<and> m_root m < length (entries (directory_cache s))
          \<and> de_node (entry s (m_root m)) = fs_root (m_file_system m)
          \<and> mount_id (nodes s ! fs_root (m_file_system m)) = i)"

definition is_mount_root :: "vfs \<Rightarrow> dref \<Rightarrow> bool" where
  "is_mount_root s d \<longleftrightarrow> (\<exists>i m. get_mount i s = Some m \<and> m_root m = d)"

definition entry_coherent :: "vfs \<Rightarrow> dref \<Rightarrow> bool" where
  "entry_coherent s d \<longleftrightarrow>
     de_node (entry s d) < length (nodes s)
     \<and> (\<forall>p. de_parent (entry s d) = Some p \<longrightarrow> is_directory (entry_node s p))
     \<and> (if is_mount_root s d then is_directory (entry_node s d)
        else \<exists>p. de_parent (entry s d) = Some p
               \<and> fs_child (char_devices s) (nodes s) (de_node (entry s p)) (de_name (entry s d))
                 = Some (place_of (nodes s) (de_node (entry s d))))"

definition entries_inv :: "vfs \<Rightarrow> bool" where
  "entries_inv s \<longleftrightarrow> (\<forall>d < length (entries (directory_cache s)). entry_coherent s d)"

text \<open>The directories of the ramfs instances form trees, whose roots are mounted.\<close>

definition ram_child :: "node_heap \<Rightarrow> nref \<Rightarrow> string \<Rightarrow> nref \<Rightarrow> bool" where
  "ram_child h n name x \<longleftrightarrow>
     (case private_data (h ! n) of RamDirectoryNode c \<Rightarrow> bt_get name c = Some x | _ \<Rightarrow> False)"

definition tree_inv :: "vfs \<Rightarrow> bool" where
  "tree_inv s \<longleftrightarrow>
     (\<forall>a na b nb x. a < length (nodes s) \<and> b < length (nodes s)
        \<and> ram_child (nodes s) a na x \<and> ram_child (nodes s) b nb x \<longrightarrow> a = b \<and> na = nb)
     \<and> (\<forall>a na i m. a < length (nodes s) \<and> get_mount i s = Some m \<longrightarrow>
          \<not> ram_child (nodes s) a na (fs_root (m_file_system m)))"

definition file_wf :: "vfs \<Rightarrow> u64 \<Rightarrow> open_file \<Rightarrow> bool" where
  "file_wf s fd f \<longleftrightarrow>
     (\<exists>j. 0 < j \<and> j < fd_next s \<and> fd = atomic_value j)
     \<and> file_node f < length (nodes s)
     \<and> (mode f \<noteq> Read \<longrightarrow> \<not> is_directory (nodes s ! file_node f))"

definition open_count :: "vfs \<Rightarrow> nref \<Rightarrow> nat" where
  "open_count s n = length (filter (\<lambda>(fd, f). file_node f = n) (files s))"

definition files_inv :: "vfs \<Rightarrow> bool" where
  "files_inv s \<longleftrightarrow>
     0 < fd_next s \<and> bt_sorted (files s)
     \<and> (\<forall>fd f. bt_get fd (files s) = Some f \<longrightarrow> file_wf s fd f)
     \<and> (\<forall>n < length (nodes s). link_count (metadata (nodes s ! n)) = Suc (open_count s n))"

text \<open>
  \<open>vfs_ok ls s\<close>: the invariant of the VFS while the local variables of a running operation hold
  the references \<open>ls\<close>. Between operations there are none.
\<close>

definition vfs_ok :: "dref list \<Rightarrow> vfs \<Rightarrow> bool" where
  "vfs_ok ls s \<longleftrightarrow>
     cache_inv (directory_cache s) \<and> cache_live (ls @ vfs_strong s) (directory_cache s)
     \<and> nodes_inv s \<and> mounts_inv s \<and> entries_inv s \<and> files_inv s \<and> tree_inv s"

abbreviation vfs_inv :: "vfs \<Rightarrow> bool" where
  "vfs_inv s \<equiv> vfs_ok [] s"

text \<open>None of the 64-bit counters has wrapped around yet.\<close>

definition vfs_small :: "vfs \<Rightarrow> bool" where
  "vfs_small s \<longleftrightarrow> cache_small (directory_cache s) \<and> mount_next s \<le> 2 ^ 64 \<and> fd_next s \<le> 2 ^ 64"

section \<open>What resolution changes\<close>

text \<open>
  Resolving a path adds entries to the cache and device nodes to the heap, and advances the
  node counters of the devfs instances. Nothing else of the state changes.
\<close>

definition mount_core :: "vfs_mount \<Rightarrow> u64 \<times> dref \<times> nref \<times> file_system_metadata" where
  "mount_core m = (m_id m, m_root m, fs_root (m_file_system m), fs_metadata (m_file_system m))"

definition vfs_ext :: "vfs \<Rightarrow> vfs \<Rightarrow> bool" where
  "vfs_ext s s' \<longleftrightarrow>
     entries_ext (entries (directory_cache s)) (entries (directory_cache s'))
     \<and> entry_next (directory_cache s) \<le> entry_next (directory_cache s')
     \<and> (\<exists>new. nodes s' = nodes s @ new)
     \<and> map (map_prod id mount_core) (mount_table s') = map (map_prod id mount_core) (mount_table s)
     \<and> files s' = files s \<and> handles s' = handles s \<and> fd_next s' = fd_next s
     \<and> mount_next s' = mount_next s \<and> char_devices s' = char_devices s \<and> fs_types s' = fs_types s"

lemma vfs_ext_refl [simp]: "vfs_ext s s"
  by (simp add: vfs_ext_def)

lemma vfs_ext_trans [trans]: "vfs_ext a b \<Longrightarrow> vfs_ext b c \<Longrightarrow> vfs_ext a c"
  by (auto simp: vfs_ext_def intro: entries_ext_trans)

lemma vfs_ext_mount:
  assumes "vfs_ext s s'"
  shows "map_option mount_core (get_mount i s') = map_option mount_core (get_mount i s)"
  using assms bt_get_map [of i mount_core "mount_table s"] bt_get_map [of i mount_core "mount_table s'"]
  by (simp add: vfs_ext_def get_mount_def)

lemma vfs_ext_strong:
  assumes "vfs_ext s s'"
  shows "vfs_strong s' = vfs_strong s"
proof -
  have *: "map m_root (bt_values t) = map (fst \<circ> snd \<circ> snd) (map (map_prod id mount_core) t)" for t
    by (simp add: bt_values_def mount_core_def)
  show ?thesis using assms unfolding vfs_strong_def vfs_ext_def * by (simp only:)
qed

lemma vfs_ext_node:
  assumes "vfs_ext s s'" "n < length (nodes s)"
  shows "nodes s' ! n = nodes s ! n" "n < length (nodes s')"
  using assms by (auto simp: vfs_ext_def nth_append)

lemma vfs_ext_entry:
  assumes "vfs_ext s s'" "d < length (entries (directory_cache s))"
  shows "de_id (entry s' d) = de_id (entry s d)" "de_name (entry s' d) = de_name (entry s d)"
    "de_node (entry s' d) = de_node (entry s d)" "de_parent (entry s' d) = de_parent (entry s d)"
    "d < length (entries (directory_cache s'))"
  using assms by (auto simp: vfs_ext_def entries_ext_def entry_def)

lemma vfs_ext_mount_root:
  assumes "vfs_ext s s'"
  shows "is_mount_root s' d \<longleftrightarrow> is_mount_root s d"
proof -
  have *: "is_mount_root t d \<longleftrightarrow> (\<exists>i. map_option (fst \<circ> snd) (map_option mount_core (get_mount i t)) = Some d)" for t
    by (auto simp: is_mount_root_def mount_core_def option.map_comp)
  show ?thesis unfolding * vfs_ext_mount [OF assms] ..
qed

lemma vfs_ext_small: "vfs_ext s s' \<Longrightarrow> vfs_small s' \<Longrightarrow> vfs_small s"
  by (simp add: vfs_ext_def vfs_small_def cache_small_def)

lemma vfs_ext_alive:
  assumes "vfs_ext s s'" "\<forall>r \<in> set ls. r < length (entries (directory_cache s))"
  shows "alive ls (entries (directory_cache s')) d \<longleftrightarrow> alive ls (entries (directory_cache s)) d"
  using assms by (intro entries_ext_alive) (simp_all add: vfs_ext_def)

lemma vfs_ext_ancestors:
  assumes "vfs_ext s s'" "d < length (entries (directory_cache s))"
  shows "ancestors (entries (directory_cache s')) d = ancestors (entries (directory_cache s)) d"
  using assms by (intro entries_ext_ancestors) (simp_all add: vfs_ext_def)

section \<open>Consequences of the invariant\<close>

lemma vfs_okD:
  assumes "vfs_ok ls s"
  shows "cache_inv (directory_cache s)" "cache_live (ls @ vfs_strong s) (directory_cache s)"
    "nodes_inv s" "mounts_inv s" "entries_inv s" "files_inv s" "tree_inv s"
  using assms by (simp_all add: vfs_ok_def)

lemma tree_inv_cong:
  assumes "tree_inv s"
    and "\<And>n name x. n < length (nodes s') \<Longrightarrow> ram_child (nodes s') n name x \<Longrightarrow>
        n < length (nodes s) \<and> ram_child (nodes s) n name x"
    and "\<And>i m'. get_mount i s' = Some m' \<Longrightarrow>
        \<exists>m. get_mount i s = Some m \<and> fs_root (m_file_system m') = fs_root (m_file_system m)"
  shows "tree_inv s'"
  using assms unfolding tree_inv_def by metis

lemma vfs_ok_subset: "vfs_ok ls s \<Longrightarrow> set ls' \<subseteq> set ls \<Longrightarrow> vfs_ok ls' s"
  using cache_live_mono [of "ls @ vfs_strong s" "directory_cache s" "ls' @ vfs_strong s"]
  by (auto simp: vfs_ok_def)

lemma vfs_ok_absorb:
  assumes "vfs_ok ls s" "\<forall>r \<in> set ls'. alive (ls @ vfs_strong s) (entries (directory_cache s)) r"
  shows "vfs_ok ls' s"
proof -
  have "\<forall>r \<in> set (ls' @ vfs_strong s). alive (ls @ vfs_strong s) (entries (directory_cache s)) r"
    using assms(2) by (auto intro: alive_strong)
  then show ?thesis
    using assms(1) cache_live_absorb [of "ls @ vfs_strong s" "directory_cache s" "ls' @ vfs_strong s"]
    by (simp add: vfs_ok_def)
qed

lemma vfs_ok_local: "vfs_ok ls s \<Longrightarrow> r \<in> set ls \<Longrightarrow> r < length (entries (directory_cache s))"
  by (auto simp: vfs_ok_def cache_live_def)

lemma vfs_ok_entry:
  assumes "vfs_ok ls s" "d < length (entries (directory_cache s))"
  shows "entry_coherent s d" "de_node (entry s d) < length (nodes s)"
  using assms by (simp_all add: vfs_ok_def entries_inv_def entry_coherent_def)

lemma vfs_ok_node:
  assumes "vfs_ok ls s" "n < length (nodes s)"
  obtains m where "get_mount (mount_id (nodes s ! n)) s = Some m"
    "node_typed (mount_type m) (kind (nodes s ! n)) (private_data (nodes s ! n))"
    "node_id (nodes s ! n) < inner (next_node_id (m_file_system m))"
  using assms by (force simp: vfs_ok_def nodes_inv_def node_mounted_def split: option.splits)

lemma vfs_ok_children:
  assumes "vfs_ok ls s" "n < length (nodes s)" "private_data (nodes s ! n) = RamDirectoryNode c"
  shows "bt_sorted c" "bt_get name c = Some x \<Longrightarrow> x < length (nodes s)"
    "bt_get name c = Some x \<Longrightarrow> mount_id (nodes s ! x) = mount_id (nodes s ! n)"
  using assms by (auto simp: vfs_ok_def nodes_inv_def children_ok_def)

lemma vfs_ok_mount:
  assumes "vfs_ok ls s" "get_mount i s = Some m"
  shows "m_id m = i" "m_root m < length (entries (directory_cache s))"
    "de_node (entry s (m_root m)) = fs_root (m_file_system m)"
    "fs_root (m_file_system m) < length (nodes s)"
    "mount_id (nodes s ! fs_root (m_file_system m)) = i"
    "m_root m \<in> set (vfs_strong s)"
proof -
  show root: "m_root m < length (entries (directory_cache s))" and
    node: "de_node (entry s (m_root m)) = fs_root (m_file_system m)" and
    "m_id m = i" and "mount_id (nodes s ! fs_root (m_file_system m)) = i"
    using assms by (auto simp: vfs_ok_def mounts_inv_def)
  show "fs_root (m_file_system m) < length (nodes s)"
    using vfs_ok_entry(2) [OF assms(1) root] node by simp
  show "m_root m \<in> set (vfs_strong s)"
    using assms bt_get_mem [of i "mount_table s" m]
    by (auto simp: vfs_strong_def get_mount_def bt_values_def intro: rev_image_eqI)
qed

lemma mount_root_iff:
  assumes "vfs_ok ls s"
  shows "is_mount_root s d \<longleftrightarrow> (\<exists>m \<in> set (bt_values (mount_table s)). m_root m = d)"
proof -
  have "bt_sorted (mount_table s)" using assms by (simp add: vfs_ok_def mounts_inv_def)
  then show ?thesis
    unfolding is_mount_root_def get_mount_def Bex_def by (metis bt_values_iff)
qed

lemma mount_root_alive:
  assumes "vfs_ok ls s" "is_mount_root s d"
  shows "alive (ls @ vfs_strong s) (entries (directory_cache s)) d" "d < length (entries (directory_cache s))"
    "is_directory (entry_node s d)"
proof -
  obtain i m where m: "get_mount i s = Some m" "m_root m = d"
    using assms(2) by (auto simp: is_mount_root_def)
  then show "alive (ls @ vfs_strong s) (entries (directory_cache s)) d"
    using vfs_ok_mount(6) [OF assms(1) m(1)] by (intro alive_strong) simp
  show d: "d < length (entries (directory_cache s))"
    using vfs_ok_mount(2) [OF assms(1) m(1)] m(2) by simp
  show "is_directory (entry_node s d)"
    using vfs_ok_entry(1) [OF assms(1) d] assms(2) by (simp add: entry_coherent_def)
qed

text \<open>A directory is a node with children (ramfs) or the root of a devfs.\<close>

lemma directory_data:
  assumes "vfs_ok ls s" "n < length (nodes s)" "is_directory (nodes s ! n)"
  obtains (ram) m c where "get_mount (mount_id (nodes s ! n)) s = Some m"
      "mount_type m = RamFileSystemType" "private_data (nodes s ! n) = RamDirectoryNode c"
  | (dev) m where "get_mount (mount_id (nodes s ! n)) s = Some m"
      "mount_type m = DevFileSystemType" "private_data (nodes s ! n) = NoData"
proof -
  obtain m where m: "get_mount (mount_id (nodes s ! n)) s = Some m"
    "node_typed (mount_type m) Directory (private_data (nodes s ! n))"
    using vfs_ok_node [OF assms(1,2)] assms(3) by (auto simp: is_directory_def)
  then show ?thesis
    by (cases "mount_type m"; cases "private_data (nodes s ! n)") (auto intro: ram dev)
qed

lemma find_mounted_iff:
  assumes ok: "vfs_ok ls s" and small: "vfs_small s" and p: "p < length (entries (directory_cache s))"
  shows "find_mounted s p name = Some d \<longleftrightarrow>
    is_mount_root s d \<and> de_parent (entry s d) = Some p \<and> de_name (entry s d) = name"
proof -
  note c = vfs_okD(1,2) [OF ok]
  have small': "cache_small (directory_cache s)" using small by (simp add: vfs_small_def)
  have at: "mounted_at s p name m \<longleftrightarrow> de_parent (entry s (m_root m)) = Some p \<and> de_name (entry s (m_root m)) = name"
    if "is_mount_root s (m_root m)" for m
  proof -
    have d: "m_root m < length (entries (directory_cache s))" using mount_root_alive(2) [OF ok that] .
    have "de_id (entry s q) = de_id (entry s p) \<longleftrightarrow> q = p" if "de_parent (entry s (m_root m)) = Some q" for q
      using cache_id_inj [OF c(1) small' _ p] cache_parent_less [OF c(1) d] that d
      by (auto simp: entry_def)
    then show ?thesis by (auto simp: mounted_at_def directory_entry_eq_def split: option.splits)
  qed
  have mem: "is_mount_root s (m_root m)" if "m \<in> set (bt_values (mount_table s))" for m
    using that mount_root_iff [OF ok] by blast
  show ?thesis
  proof
    assume "find_mounted s p name = Some d"
    then obtain m where "List.find (mounted_at s p name) (bt_values (mount_table s)) = Some m" "m_root m = d"
      by (auto simp: find_mounted_def)
    then have "m \<in> set (bt_values (mount_table s))" "mounted_at s p name m"
      by (auto simp: find_Some_iff)
    then show "is_mount_root s d \<and> de_parent (entry s d) = Some p \<and> de_name (entry s d) = name"
      using at mem \<open>m_root m = d\<close> by auto
  next
    assume r: "is_mount_root s d \<and> de_parent (entry s d) = Some p \<and> de_name (entry s d) = name"
    then obtain m where m: "m \<in> set (bt_values (mount_table s))" "m_root m = d"
      using mount_root_iff [OF ok] by blast
    then have "mounted_at s p name m" using at mem r by auto
    then obtain m' where m': "List.find (mounted_at s p name) (bt_values (mount_table s)) = Some m'"
      using m(1) by (cases "List.find (mounted_at s p name) (bt_values (mount_table s))") (auto simp: find_None_iff)
    then have "m' \<in> set (bt_values (mount_table s))" "mounted_at s p name m'"
      by (auto simp: find_Some_iff)
    then have "is_mount_root s (m_root m')" "de_parent (entry s (m_root m')) = Some p"
      "de_name (entry s (m_root m')) = name"
      using at mem by auto
    then have "m_root m' = d"
      using live_entry_unique [OF c(2), of "m_root m'" d] mount_root_alive(1) [OF ok] r
      by (auto simp: entry_def)
    then show "find_mounted s p name = Some d" using m' by (simp add: find_mounted_def)
  qed
qed

section \<open>The invariant along an extension\<close>

lemma vfs_ext_mounts_inv:
  assumes ok: "vfs_ok ls s" and ext: "vfs_ext s s'"
  shows "mounts_inv s'"
proof -
  have keys: "map fst (mount_table s') = map fst (mount_table s)"
  proof -
    have "map fst t = map fst (map (map_prod id mount_core) t)" for t :: "(u64, vfs_mount) btree_map"
      by (simp add: o_def)
    then show ?thesis using ext unfolding vfs_ext_def by metis
  qed
  then have "bt_sorted (mount_table s')"
    using vfs_okD(4) [OF ok] by (simp add: mounts_inv_def bt_sorted_def)
  moreover have "m_id m' = i \<and> (\<exists>j < mount_next s'. i = atomic_value j)
          \<and> m_root m' < length (entries (directory_cache s'))
          \<and> de_node (entry s' (m_root m')) = fs_root (m_file_system m')
          \<and> mount_id (nodes s' ! fs_root (m_file_system m')) = i"
    if "get_mount i s' = Some m'" for i m'
  proof -
    obtain m where m: "get_mount i s = Some m" "mount_core m' = mount_core m"
      using vfs_ext_mount [OF ext, of i] \<open>get_mount i s' = Some m'\<close> by (cases "get_mount i s") auto
    note mt = vfs_ok_mount [OF ok m(1)]
    have "\<exists>j < mount_next s. i = atomic_value j"
      using vfs_okD(4) [OF ok] m(1) by (simp add: mounts_inv_def)
    moreover have "mount_next s' = mount_next s" using ext by (simp add: vfs_ext_def)
    ultimately show ?thesis
      using m(2) mt vfs_ext_entry [OF ext mt(2)] vfs_ext_node [OF ext mt(4)]
      by (simp add: mount_core_def)
  qed
  ultimately show ?thesis by (simp add: mounts_inv_def)
qed

lemma vfs_ext_fs_child:
  assumes "vfs_ext s s'" "n < length (nodes s)"
  shows "fs_child (char_devices s') (nodes s') n name = fs_child (char_devices s) (nodes s) n name"
  using assms vfs_ext_node [OF assms] by (simp add: fs_child_def vfs_ext_def)

lemma vfs_ext_place:
  assumes "vfs_ext s s'" "n < length (nodes s)"
  shows "place_of (nodes s') n = place_of (nodes s) n"
  using vfs_ext_node [OF assms] by (simp add: place_of_def)

lemma vfs_ok_parent:
  assumes "vfs_ok ls s" "d < length (entries (directory_cache s))" "de_parent (entry s d) = Some p"
  shows "p < d" "p < length (entries (directory_cache s))" "is_directory (entry_node s p)"
proof -
  show "p < d" using cache_parent_less [OF vfs_okD(1) [OF assms(1)] assms(2)] assms(3)
    by (simp add: entry_def)
  then show "p < length (entries (directory_cache s))" using assms(2) by simp
  show "is_directory (entry_node s p)"
    using vfs_ok_entry(1) [OF assms(1,2)] assms(3) by (simp add: entry_coherent_def)
qed

lemma vfs_ext_entry_node:
  assumes "vfs_ok ls s" "vfs_ext s s'" "d < length (entries (directory_cache s))"
  shows "entry_node s' d = entry_node s d"
  using vfs_ext_entry [OF assms(2,3)] vfs_ext_node(1) [OF assms(2) vfs_ok_entry(2) [OF assms(1,3)]]
  by (simp add: entry_node_def)

lemma vfs_ext_coherent:
  assumes ok: "vfs_ok ls s" and ext: "vfs_ext s s'" and d: "d < length (entries (directory_cache s))"
  shows "entry_coherent s' d"
proof -
  note e = vfs_ext_entry [OF ext d] and n = vfs_ok_entry [OF ok d]
  have par: "is_directory (entry_node s' p)
      \<and> fs_child (char_devices s') (nodes s') (de_node (entry s' p)) name
        = fs_child (char_devices s) (nodes s) (de_node (entry s p)) name"
    if "de_parent (entry s d) = Some p" for p name
  proof -
    note p = vfs_ok_parent [OF ok d that]
    show ?thesis
      using p(3) vfs_ext_entry_node [OF ok ext p(2)] vfs_ext_entry(3) [OF ext p(2)]
        vfs_ext_fs_child [OF ext vfs_ok_entry(2) [OF ok p(2)]] by simp
  qed
  have m: "is_mount_root s' d \<longleftrightarrow> is_mount_root s d" using vfs_ext_mount_root [OF ext] .
  show ?thesis
    using n e par m vfs_ext_node(2) [OF ext n(2)] vfs_ext_place [OF ext n(2)] vfs_ext_entry_node [OF ok ext d]
    by (auto simp: entry_coherent_def split: if_splits)
qed

lemma vfs_ok_file:
  assumes "vfs_ok ls s" "bt_get fd (files s) = Some f"
  shows "file_wf s fd f" "file_node f < length (nodes s)"
  using assms by (auto simp: vfs_ok_def files_inv_def file_wf_def)

lemma open_count_pos:
  assumes "bt_sorted (files s)" "0 < open_count s n"
  obtains fd f where "bt_get fd (files s) = Some f" "file_node f = n"
proof -
  obtain fd f where "(fd, f) \<in> set (files s)" "file_node f = n"
    using assms(2) by (auto simp: open_count_def filter_empty_conv)
  then show ?thesis using that bt_mem_iff [OF assms(1), of fd f] by blast
qed

lemma open_count_fresh:
  assumes "vfs_ok ls s" "length (nodes s) \<le> n"
  shows "open_count s n = 0"
proof (rule ccontr)
  have srt: "bt_sorted (files s)" using vfs_okD(6) [OF assms(1)] by (simp add: files_inv_def)
  assume "open_count s n \<noteq> 0"
  then obtain fd f where "bt_get fd (files s) = Some f" "file_node f = n"
    using open_count_pos [OF srt, of n] by auto
  then show False using vfs_ok_file(2) [OF assms(1)] assms(2) by fastforce
qed

lemma vfs_ext_files_inv:
  assumes ok: "vfs_ok ls s" and ext: "vfs_ext s s'"
    and new: "\<And>n. length (nodes s) \<le> n \<Longrightarrow> n < length (nodes s') \<Longrightarrow> link_count (metadata (nodes s' ! n)) = 1"
  shows "files_inv s'"
proof -
  have same: "files s' = files s" "fd_next s' = fd_next s" using ext by (simp_all add: vfs_ext_def)
  have wf: "file_wf s' fd f" if "bt_get fd (files s) = Some f" for fd f
    using vfs_ok_file [OF ok that] vfs_ext_node [OF ext vfs_ok_file(2) [OF ok that]] same
    by (simp add: file_wf_def)
  have oc: "open_count s' n = open_count s n" for n using same by (simp add: open_count_def)
  have "link_count (metadata (nodes s' ! n)) = Suc (open_count s n)" if "n < length (nodes s')" for n
  proof (cases "n < length (nodes s)")
    case True
    then show ?thesis using vfs_okD(6) [OF ok] vfs_ext_node(1) [OF ext True] by (simp add: files_inv_def)
  next
    case False
    then show ?thesis using new [of n] that open_count_fresh [OF ok, of n] by simp
  qed
  then show ?thesis using vfs_okD(6) [OF ok] wf same oc by (simp add: files_inv_def)
qed

lemma vfs_ext_tree_inv:
  assumes ok: "vfs_ok ls s" and ext: "vfs_ext s s'"
    and new: "\<And>n name x. length (nodes s) \<le> n \<Longrightarrow> n < length (nodes s') \<Longrightarrow> \<not> ram_child (nodes s') n name x"
  shows "tree_inv s'"
proof (rule tree_inv_cong [OF vfs_okD(7) [OF ok]])
  fix n name x
  assume n: "n < length (nodes s')" and ch: "ram_child (nodes s') n name x"
  then have less: "n < length (nodes s)" using new [of n name x] not_less by blast
  then show "n < length (nodes s) \<and> ram_child (nodes s) n name x"
    using ch vfs_ext_node(1) [OF ext less] by (simp add: ram_child_def)
next
  fix i m'
  assume "get_mount i s' = Some m'"
  then show "\<exists>m. get_mount i s = Some m \<and> fs_root (m_file_system m') = fs_root (m_file_system m)"
    using vfs_ext_mount [OF ext, of i] by (cases "get_mount i s") (auto simp: mount_core_def)
qed

end
