(* ===== verification/Vfs_Steps.thy ===== *)
theory Vfs_Steps
  imports Vfs_Inv
begin

text \<open>
  The steps that the operations of the VFS are made of, and that each of them preserves the
  invariant: a node is allocated, an entry enters the directory cache, a driver is asked for a
  name, and \<open>get_cached_or_lookup\<close>.
\<close>

section \<open>New nodes\<close>

text \<open>The node counter of a mounted file system advances by one, and a node is allocated.\<close>

definition advance_node_id :: "u64 \<Rightarrow> vfs \<Rightarrow> vfs" where
  "advance_node_id i s =
     (case get_mount i s of
        None \<Rightarrow> s
      | Some m \<Rightarrow> s\<lparr>mount_table := bt_insert i
          (m\<lparr>m_file_system := (m_file_system m)
            \<lparr>next_node_id := \<lparr>inner = inner (next_node_id (m_file_system m)) + 1\<rparr>\<rparr>\<rparr>) (mount_table s)\<rparr>)"

definition node_counter :: "u64 \<Rightarrow> vfs \<Rightarrow> u64" where
  "node_counter i s = (case get_mount i s of None \<Rightarrow> 0 | Some m \<Rightarrow> inner (next_node_id (m_file_system m)))"

definition with_node :: "fs_node \<Rightarrow> vfs \<Rightarrow> vfs" where
  "with_node nd s = (advance_node_id (mount_id nd) s)\<lparr>nodes := nodes s @ [nd]\<rparr>"

lemma advance_node_id_fields [simp]:
  "files (advance_node_id i s) = files s" "directory_cache (advance_node_id i s) = directory_cache s"
  "nodes (advance_node_id i s) = nodes s" "handles (advance_node_id i s) = handles s"
  "mount_next (advance_node_id i s) = mount_next s" "fd_next (advance_node_id i s) = fd_next s"
  "char_devices (advance_node_id i s) = char_devices s" "fs_types (advance_node_id i s) = fs_types s"
  by (simp_all add: advance_node_id_def split: option.split)

lemma with_node_fields [simp]:
  "files (with_node nd s) = files s" "directory_cache (with_node nd s) = directory_cache s"
  "nodes (with_node nd s) = nodes s @ [nd]" "handles (with_node nd s) = handles s"
  "mount_next (with_node nd s) = mount_next s" "fd_next (with_node nd s) = fd_next s"
  "char_devices (with_node nd s) = char_devices s" "fs_types (with_node nd s) = fs_types s"
  by (simp_all add: with_node_def)

lemma advance_node_id_mounts:
  assumes "bt_sorted (mount_table s)"
  shows "map (map_prod id mount_core) (mount_table (advance_node_id i s)) = map (map_prod id mount_core) (mount_table s)"
  using assms bt_insert_map_same
  by (auto simp: advance_node_id_def get_mount_def mount_core_def split: option.split intro!: bt_insert_map_same)

lemma get_mount_advance:
  "get_mount j (advance_node_id i s) = map_option (\<lambda>m. if j = i
     then m\<lparr>m_file_system := (m_file_system m)\<lparr>next_node_id := \<lparr>inner = inner (next_node_id (m_file_system m)) + 1\<rparr>\<rparr>\<rparr>
     else m) (get_mount j s)"
  by (cases "bt_get j (mount_table s)") (auto simp: advance_node_id_def get_mount_def bt_get_insert split: option.split)

lemma get_mount_with_node: "get_mount j (with_node nd s) = get_mount j (advance_node_id (mount_id nd) s)"
  by (simp add: with_node_def get_mount_def)

lemma with_node_ext:
  assumes "vfs_ok ls s"
  shows "vfs_ext s (with_node nd s)" "vfs_ext s (advance_node_id i s)"
  using advance_node_id_mounts [of s] vfs_okD(4) [OF assms]
  by (simp_all add: vfs_ext_def with_node_def mounts_inv_def)

lemma node_mounted_advance:
  assumes "node_mounted s nd" "node_counter i s \<noteq> - 1"
  shows "node_mounted (advance_node_id i s) nd"
proof -
  show ?thesis using assms
    by (auto simp: word_less_inc node_mounted_def get_mount_advance mount_type_def node_counter_def split: option.splits)
qed

lemma node_mounted_ext_nodes: "node_mounted (s\<lparr>nodes := h\<rparr>) nd = node_mounted s nd"
  by (simp add: node_mounted_def get_mount_def)

lemma children_ok_append:
  assumes "children_ok h nd"
  shows "children_ok (h @ xs) nd"
  using assms by (fastforce simp: children_ok_def nth_append)

lemma with_node_nodes_inv:
  assumes ok: "vfs_ok ls s" and m: "get_mount (mount_id nd) s = Some m"
    and typed: "node_typed (mount_type m) (kind nd) (private_data nd)"
    and id: "node_id nd = inner (next_node_id (m_file_system m))" "node_id nd \<noteq> - 1"
    and ch: "\<And>c. private_data nd = RamDirectoryNode c \<Longrightarrow> c = []"
  shows "nodes_inv (with_node nd s)"
proof -
  let ?s = "with_node nd s" and ?i = "mount_id nd"
  have cnt: "node_counter ?i s \<noteq> - 1" using m id by (simp add: node_counter_def)
  have mounted: "node_mounted ?s nd'" if "node_mounted s nd'" for nd'
    using node_mounted_advance [OF that cnt] by (simp add: with_node_def node_mounted_ext_nodes)
  have new: "node_mounted ?s nd"
    using m typed id word_self_inc [OF id(2)]
    by (simp add: node_mounted_def get_mount_with_node get_mount_advance mount_type_def)
  have old: "node_mounted s (nodes s ! n) \<and> children_ok (nodes s) (nodes s ! n)" if "n < length (nodes s)" for n
    using vfs_okD(3) [OF ok] that by (simp add: nodes_inv_def)
  have fresh: "\<not> fs_node_eq (nodes s ! n) nd" if n: "n < length (nodes s)" for n
  proof
    assume eq: "fs_node_eq (nodes s ! n) nd"
    obtain m' where "get_mount (mount_id (nodes s ! n)) s = Some m'"
      "node_id (nodes s ! n) < inner (next_node_id (m_file_system m'))"
      using vfs_ok_node [OF ok n] by blast
    then show False using eq m id by (simp add: fs_node_eq_def)
  qed
  have all: "node_mounted ?s (nodes ?s ! n) \<and> children_ok (nodes ?s) (nodes ?s ! n)" if "n < length (nodes ?s)" for n
  proof (cases "n < length (nodes s)")
    case True
    then show ?thesis using old [OF True] mounted children_ok_append by (simp add: nth_append)
  next
    case False
    then have "nodes ?s ! n = nd" using that by (simp add: nth_append less_Suc_eq)
    then show ?thesis using new ch by (auto simp: children_ok_def)
  qed
  have uniq: "a = b" if "a < length (nodes ?s)" "b < length (nodes ?s)" "fs_node_eq (nodes ?s ! a) (nodes ?s ! b)" for a b
  proof -
    have sym: "\<not> fs_node_eq nd (nodes s ! n)" if "n < length (nodes s)" for n
      using fresh [OF that] by (simp add: fs_node_eq_def eq_commute)
    show ?thesis
      using that fresh sym vfs_okD(3) [OF ok]
      by (cases "a < length (nodes s)"; cases "b < length (nodes s)")
        (simp_all add: nodes_inv_def nth_append less_Suc_eq)
  qed
  show ?thesis unfolding nodes_inv_def using all uniq by blast
qed

lemma with_node_ok:
  assumes ok: "vfs_ok ls s" and m: "get_mount (mount_id nd) s = Some m"
    and typed: "node_typed (mount_type m) (kind nd) (private_data nd)"
    and id: "node_id nd = inner (next_node_id (m_file_system m))" "node_id nd \<noteq> - 1"
    and lc: "link_count (metadata nd) = 1"
    and ch: "\<And>c. private_data nd = RamDirectoryNode c \<Longrightarrow> c = []"
  shows "vfs_ok ls (with_node nd s)"
proof -
  let ?s = "with_node nd s"
  note ext = with_node_ext(1) [OF ok, of nd]
  have "nodes_inv ?s" by (rule with_node_nodes_inv [OF ok m typed id ch])
  moreover have "entries_inv ?s"
    using vfs_ext_coherent [OF ok ext] by (simp add: entries_inv_def)
  moreover have "files_inv ?s"
  proof (rule vfs_ext_files_inv [OF ok ext])
    fix n assume "length (nodes s) \<le> n" "n < length (nodes ?s)"
    then have "n = length (nodes s)" by simp
    then show "link_count (metadata (nodes ?s ! n)) = 1" using lc by simp
  qed
  moreover have "tree_inv ?s"
  proof (rule vfs_ext_tree_inv [OF ok ext])
    fix n name x assume "length (nodes s) \<le> n" "n < length (nodes ?s)"
    then have "nodes ?s ! n = nd" by (simp add: nth_append less_Suc_eq)
    then show "\<not> ram_child (nodes ?s) n name x"
      using ch by (auto simp: ram_child_def split: private_data.split)
  qed
  moreover have "vfs_strong ?s = vfs_strong s" using vfs_ext_strong [OF ext] .
  ultimately show ?thesis
    using ok vfs_ext_mounts_inv [OF ok ext] by (simp add: vfs_ok_def)
qed

lemma advance_node_id_ok:
  assumes ok: "vfs_ok ls s" and cnt: "node_counter i s \<noteq> - 1"
  shows "vfs_ok ls (advance_node_id i s)"
proof -
  note ext = with_node_ext(2) [OF ok, of i]
  have "nodes_inv (advance_node_id i s)"
    using vfs_okD(3) [OF ok] node_mounted_advance [OF _ cnt] by (simp add: nodes_inv_def)
  moreover have "entries_inv (advance_node_id i s)"
    using vfs_ext_coherent [OF ok ext] by (simp add: entries_inv_def)
  moreover have "files_inv (advance_node_id i s)"
    by (rule vfs_ext_files_inv [OF ok ext]) simp
  moreover have "tree_inv (advance_node_id i s)"
    by (rule vfs_ext_tree_inv [OF ok ext]) simp
  moreover have "vfs_strong (advance_node_id i s) = vfs_strong s" using vfs_ext_strong [OF ext] .
  ultimately show ?thesis
    using ok vfs_ext_mounts_inv [OF ok ext] by (simp add: vfs_ok_def)
qed

section \<open>New entries\<close>

definition with_entry :: "dref option \<Rightarrow> nref \<Rightarrow> string \<Rightarrow> vfs \<Rightarrow> vfs" where
  "with_entry parent n name s = s\<lparr>directory_cache := cache_inserted parent n name (directory_cache s)\<rparr>"

lemma with_entry_fields [simp]:
  "files (with_entry par n name s) = files s" "mount_table (with_entry par n name s) = mount_table s"
  "directory_cache (with_entry par n name s) = cache_inserted par n name (directory_cache s)"
  "nodes (with_entry par n name s) = nodes s" "handles (with_entry par n name s) = handles s"
  "mount_next (with_entry par n name s) = mount_next s" "fd_next (with_entry par n name s) = fd_next s"
  "char_devices (with_entry par n name s) = char_devices s" "fs_types (with_entry par n name s) = fs_types s"
  by (simp_all add: with_entry_def)

lemma with_entry_ext: "vfs_ext s (with_entry par n name s)"
  by (simp add: vfs_ext_def cache_inserted_ext)

lemma with_entry_new:
  fixes par n name s
  assumes "par \<noteq> Some (length (entries (directory_cache s)))"
  defines "e \<equiv> entry (with_entry par n name s) (length (entries (directory_cache s)))"
  shows "de_name e = name" "de_node e = n" "de_parent e = par"
  using cache_inserted_new [OF assms(1)] by (simp_all add: e_def entry_def)

text \<open>\<open>no_live_child\<close>: no entry in use has this parent and name.\<close>

definition no_live_child :: "dref list \<Rightarrow> vfs \<Rightarrow> dref \<Rightarrow> string \<Rightarrow> bool" where
  "no_live_child ls s p name \<longleftrightarrow>
     cache_lookup (ls @ vfs_strong s) p name (directory_cache s) = None"

lemma vfs_cache_insert_eq:
  assumes "no_live_child ls s p name"
  shows "vfs_cache_insert ls (Some p) n name s =
    (Ok (length (entries (directory_cache s))), with_entry (Some p) n name s)"
  using assms by (simp add: vfs_cache_insert_def cache_insert_eq with_entry_def no_live_child_def)

lemma with_entry_live:
  assumes ok: "vfs_ok ls s" and small: "vfs_small s"
    and p: "alive (ls @ vfs_strong s) (entries (directory_cache s)) p"
    and no: "no_live_child ls s p name"
  defines "e \<equiv> length (entries (directory_cache s))"
  shows "cache_inv (directory_cache (with_entry (Some p) n name s))"
    "cache_live (e # ls @ vfs_strong s) (directory_cache (with_entry (Some p) n name s))"
    "p < length (entries (directory_cache s))"
proof -
  show par: "p < length (entries (directory_cache s))"
    using alive_bound [OF _ p] vfs_okD(2) [OF ok] by (simp add: cache_live_def)
  show "cache_inv (directory_cache (with_entry (Some p) n name s))"
    using cache_inserted_inv [OF vfs_okD(1) [OF ok], of "Some p" name n] par by simp
  show "cache_live (e # ls @ vfs_strong s) (directory_cache (with_entry (Some p) n name s))"
    using cache_inserted_live [OF vfs_okD(1) [OF ok] _ vfs_okD(2) [OF ok], of "Some p" name n] p no small
    by (simp add: e_def no_live_child_def vfs_small_def)
qed

lemma with_entry_ok:
  assumes ok: "vfs_ok ls s" and small: "vfs_small s"
    and p: "alive (ls @ vfs_strong s) (entries (directory_cache s)) p" "is_directory (entry_node s p)"
    and no: "no_live_child ls s p name"
    and n: "n < length (nodes s)"
    and child: "fs_child (char_devices s) (nodes s) (de_node (entry s p)) name = Some (place_of (nodes s) n)"
  shows "vfs_ok (length (entries (directory_cache s)) # ls) (with_entry (Some p) n name s)"
proof -
  let ?s = "with_entry (Some p) n name s" and ?e = "length (entries (directory_cache s))"
  note ext = with_entry_ext [of s "Some p" n name]
  note live = with_entry_live [OF ok small p(1) no]
  have new: "de_name (entry ?s ?e) = name" "de_node (entry ?s ?e) = n" "de_parent (entry ?s ?e) = Some p"
    using with_entry_new [of "Some p" s n name] live(3) by simp_all
  have not_root: "\<not> is_mount_root ?s ?e"
    using mount_root_alive(2) [OF ok, of ?e] vfs_ext_mount_root [OF ext] by auto
  have "entry_coherent ?s ?e"
    using new not_root n child p(2) vfs_ext_entry_node [OF ok ext live(3)] vfs_ext_entry [OF ext live(3)]
    by (simp add: entry_coherent_def)
  then have "entries_inv ?s"
    using vfs_ext_coherent [OF ok ext] by (auto simp: entries_inv_def less_Suc_eq)
  moreover have "nodes_inv ?s"
    using vfs_okD(3) [OF ok] by (simp add: nodes_inv_def node_mounted_def get_mount_def)
  moreover have "files_inv ?s" by (rule vfs_ext_files_inv [OF ok ext]) simp
  moreover have "tree_inv ?s" by (rule vfs_ext_tree_inv [OF ok ext]) simp
  ultimately show ?thesis
    using live vfs_ext_mounts_inv [OF ok ext] vfs_ext_strong [OF ext] by (simp add: vfs_ok_def)
qed

section \<open>Driver calls\<close>

lemma call_directory_operation_eq:
  assumes "get_mount (mount_id (nodes s ! n)) s = Some m"
  shows "call_directory_operation n f s =
    (case f (file_system_directory_operations (char_devices s) (m_file_system m)) (m_file_system m, nodes s) of
       (r, (fs', h)) \<Rightarrow> (r, put_file_system (mount_id (nodes s ! n)) fs' (s\<lparr>nodes := h\<rparr>)))"
  using assms by (simp add: call_directory_operation_def node_file_system_def try_bind_def unwrap_def ret_def)

lemma put_file_system_same:
  assumes "vfs_ok ls s" "get_mount i s = Some m"
  shows "put_file_system i (m_file_system m) s = s"
  using assms vfs_okD(4) [OF assms(1)] bt_insert_same [of "mount_table s" i m]
  by (simp add: put_file_system_def get_mount_def mounts_inv_def)

lemma put_file_system_advance:
  assumes "get_mount i s = Some m"
  shows "put_file_system i ((m_file_system m)\<lparr>next_node_id := \<lparr>inner = inner (next_node_id (m_file_system m)) + 1\<rparr>\<rparr>)
      (s\<lparr>nodes := h\<rparr>) = (advance_node_id i s)\<lparr>nodes := h\<rparr>"
  using assms by (simp add: put_file_system_def advance_node_id_def get_mount_def)

lemma mount_type_ops:
  "mount_type m = RamFileSystemType \<Longrightarrow>
     file_system_directory_operations cds (m_file_system m) = ram_directory_operations"
  "mount_type m = DevFileSystemType \<Longrightarrow>
     file_system_directory_operations cds (m_file_system m) = dev_directory_operations cds"
  "mount_type m = RamFileSystemType \<Longrightarrow> file_system_file_operations (m_file_system m) = ram_file_operations"
  "mount_type m = DevFileSystemType \<Longrightarrow> file_system_file_operations (m_file_system m) = dev_file_operations"
  by (simp_all add: file_system_directory_operations_def file_system_file_operations_def mount_type_def)

lemma call_lookup_ram:
  assumes ok: "vfs_ok ls s" and m: "get_mount (mount_id (nodes s ! n)) s = Some m" "mount_type m = RamFileSystemType"
    and c: "private_data (nodes s ! n) = RamDirectoryNode c"
  shows "call_directory_operation n (\<lambda>ops. do_lookup ops n name) s = (Ok (bt_get name c), s)"
  using assms put_file_system_same [OF ok m(1)]
  by (simp add: call_directory_operation_eq mount_type_ops ram_directory_operations_def
      default_directory_operations_def ram_lookup_dir)

definition device_node :: "u64 \<Rightarrow> vfs \<Rightarrow> char_device \<Rightarrow> fs_node" where
  "device_node i s d = \<lparr>node_id = node_counter i s, mount_id = i, kind = CharDevice,
     metadata = new_metadata, private_data = CharDeviceData d\<rparr>"

lemma call_lookup_dev:
  assumes ok: "vfs_ok ls s" and m: "get_mount (mount_id (nodes s ! n)) s = Some m" "mount_type m = DevFileSystemType"
  defines "i \<equiv> mount_id (nodes s ! n)"
  shows "call_directory_operation n (\<lambda>ops. do_lookup ops n name) s =
    (case get_char_device name (char_devices s) of
       None \<Rightarrow> (Ok None, s)
     | Some d \<Rightarrow> if node_counter i s = - 1 then (Panic Overflow, s)
         else (Ok (Some (length (nodes s))), with_node (device_node i s d) s))"
proof -
  have mid: "fs_mount_id (m_file_system m, nodes s) = i"
    using vfs_ok_mount(5) [OF ok m(1)] by (simp add: fs_mount_id_def i_def)
  show ?thesis
    using m mid put_file_system_same [OF ok m(1)] put_file_system_advance [OF m(1)]
    by (auto simp: call_directory_operation_eq mount_type_ops dev_directory_operations_def
        default_directory_operations_def dev_lookup_def on_fs_simp on_heap_simp take_node_id_Ok
        take_node_id_max try_bind_def node_counter_def device_node_def i_def with_node_def split: option.split)
qed

section \<open>One lookup\<close>

lemma vfs_ok_alive_bound:
  "vfs_ok ls s \<Longrightarrow> alive (ls @ vfs_strong s) (entries (directory_cache s)) d \<Longrightarrow> d < length (entries (directory_cache s))"
  using alive_bound [of "ls @ vfs_strong s" "length (entries (directory_cache s))"]
  by (auto simp: vfs_ok_def cache_live_def)

lemma vfs_cache_lookup_iff:
  assumes "vfs_ok ls s" "vfs_small s" "p < length (entries (directory_cache s))"
  shows "cache_lookup (ls @ vfs_strong s) p name (directory_cache s) = Some d \<longleftrightarrow>
    alive (ls @ vfs_strong s) (entries (directory_cache s)) d
    \<and> de_parent (entry s d) = Some p \<and> de_name (entry s d) = name"
  using cache_lookup_iff [OF vfs_okD(1) [OF assms(1)] _ vfs_okD(2) [OF assms(1)] assms(3)] assms(2)
  by (simp add: vfs_small_def entry_def)

lemma ram_child_place:
  assumes ok: "vfs_ok ls s" and n: "n < length (nodes s)" "private_data (nodes s ! n) = RamDirectoryNode c"
    and x: "bt_get name c = Some x"
  shows "x < length (nodes s)" "place_of (nodes s) x = Node x"
proof -
  note ch = vfs_ok_children [OF ok n]
  show x_less: "x < length (nodes s)" using ch(2) x by blast
  have same: "mount_id (nodes s ! x) = mount_id (nodes s ! n)" using ch(3) x by blast
  obtain m where m: "get_mount (mount_id (nodes s ! n)) s = Some m"
    "node_typed (mount_type m) (kind (nodes s ! n)) (private_data (nodes s ! n))"
    using vfs_ok_node [OF ok n(1)] by blast
  have ram: "mount_type m = RamFileSystemType"
    using m(2) n(2) by (cases "mount_type m"; cases "kind (nodes s ! n)") simp_all
  obtain m' where "get_mount (mount_id (nodes s ! x)) s = Some m'"
    "node_typed (mount_type m') (kind (nodes s ! x)) (private_data (nodes s ! x))"
    using vfs_ok_node [OF ok x_less] by blast
  then have "node_typed RamFileSystemType (kind (nodes s ! x)) (private_data (nodes s ! x))"
    using m(1) same ram by simp
  then show "place_of (nodes s) x = Node x"
    by (cases "kind (nodes s ! x)"; cases "private_data (nodes s ! x)") (simp_all add: place_of_def)
qed

lemma directory_place:
  assumes "vfs_ok ls s" "n < length (nodes s)" "is_directory (nodes s ! n)"
  shows "place_of (nodes s) n = Node n"
  by (rule directory_data [OF assms]) (simp_all add: place_of_def)

text \<open>
  The outcome of a lookup in the backing file system: nothing changes when the name is not
  there; otherwise there is a node for the place the name stands for.
\<close>

lemma call_lookup:
  assumes ok: "vfs_ok ls s" and n: "n < length (nodes s)" "is_directory (nodes s ! n)"
    and run: "call_directory_operation n (\<lambda>ops. do_lookup ops n name) s = (r, s')"
  shows "(r = Panic Overflow \<and> s' = s)
    \<or> (r = Ok None \<and> s' = s \<and> fs_child (char_devices s) (nodes s) n name = None)
    \<or> (\<exists>x. r = Ok (Some x) \<and> vfs_ok ls s' \<and> vfs_ext s s' \<and> directory_cache s' = directory_cache s
          \<and> x < length (nodes s') \<and> fs_child (char_devices s) (nodes s) n name = Some (place_of (nodes s') x))"
proof (rule directory_data [OF ok n])
  fix m c
  assume m: "get_mount (mount_id (nodes s ! n)) s = Some m" "mount_type m = RamFileSystemType"
    and c: "private_data (nodes s ! n) = RamDirectoryNode c"
  have "r = Ok (bt_get name c)" "s' = s" using run call_lookup_ram [OF ok m c] by simp_all
  then show ?thesis
    using c ram_child_place [OF ok n(1) c] ok by (cases "bt_get name c") (simp_all add: fs_child_def)
next
  fix m
  assume m: "get_mount (mount_id (nodes s ! n)) s = Some m" "mount_type m = DevFileSystemType"
    and c: "private_data (nodes s ! n) = NoData"
  let ?i = "mount_id (nodes s ! n)"
  note eq = call_lookup_dev [OF ok m, of name]
  show ?thesis
  proof (cases "get_char_device name (char_devices s)")
    case None
    then show ?thesis using eq run c by (simp add: fs_child_def)
  next
    case (Some d)
    show ?thesis
    proof (cases "node_counter ?i s = - 1")
      case True
      then show ?thesis using eq run Some by simp
    next
      case False
      let ?nd = "device_node ?i s d"
      have nd: "mount_id ?nd = ?i" "kind ?nd = CharDevice" "private_data ?nd = CharDeviceData d"
        "node_id ?nd = node_counter ?i s" "link_count (metadata ?nd) = 1"
        by (simp_all add: device_node_def new_metadata_def)
      have "vfs_ok ls (with_node ?nd s)"
        using with_node_ok [OF ok, of ?nd m] nd m False by (simp add: node_counter_def)
      moreover have "r = Ok (Some (length (nodes s)))" "s' = with_node ?nd s"
        using eq run Some False by simp_all
      ultimately show ?thesis
        using with_node_ext(1) [OF ok, of ?nd] nd Some c by (simp add: fs_child_def place_of_def)
    qed
  qed
qed

lemma no_live_child_cong:
  "directory_cache s' = directory_cache s \<Longrightarrow> vfs_strong s' = vfs_strong s \<Longrightarrow>
     no_live_child ls s' p name = no_live_child ls s p name"
  by (simp add: no_live_child_def)

lemma get_cached_or_lookup_spec:
  assumes ok: "vfs_ok ls s" and small: "vfs_small s"
    and p: "alive (ls @ vfs_strong s) (entries (directory_cache s)) p" "is_directory (entry_node s p)"
    and run: "get_cached_or_lookup ls p name s = (r, s')"
  shows "vfs_ext s s' \<and>
    (r = Panic Overflow
     \<or> (r = Ok None \<and> s' = s \<and> no_live_child ls s p name
          \<and> fs_child (char_devices s) (nodes s) (de_node (entry s p)) name = None)
     \<or> (\<exists>e. r = Ok (Some e) \<and> vfs_ok (e # ls) s'
          \<and> de_parent (entry s' e) = Some p \<and> de_name (entry s' e) = name))"
proof -
  have p_less: "p < length (entries (directory_cache s))" using vfs_ok_alive_bound [OF ok p(1)] .
  show ?thesis
  proof (cases "cache_lookup (ls @ vfs_strong s) p name (directory_cache s)")
    case (Some e)
    then have "r = Ok (Some e)" "s' = s" using run by (simp_all add: get_cached_or_lookup_def)
    moreover have e: "alive (ls @ vfs_strong s) (entries (directory_cache s)) e"
      "de_parent (entry s e) = Some p" "de_name (entry s e) = name"
      using Some vfs_cache_lookup_iff [OF ok small p_less] by blast+
    moreover have "vfs_ok (e # ls) s"
      using e(1) by (intro vfs_ok_absorb [OF ok]) (auto intro: alive_strong)
    ultimately show ?thesis by simp
  next
    case None
    then have no: "no_live_child ls s p name" by (simp add: no_live_child_def)
    let ?n = "de_node (entry s p)"
    obtain r1 s1 where call: "call_directory_operation ?n (\<lambda>ops. do_lookup ops ?n name) s = (r1, s1)"
      by (cases "call_directory_operation ?n (\<lambda>ops. do_lookup ops ?n name) s")
    have dir: "is_directory (nodes s ! ?n)" using p(2) by (simp add: entry_node_def)
    from call_lookup [OF ok vfs_ok_entry(2) [OF ok p_less] dir call]
    show ?thesis
    proof (elim disjE conjE exE)
      assume "r1 = Panic Overflow" "s1 = s"
      then show ?thesis using run None call by (simp add: get_cached_or_lookup_def)
    next
      assume "r1 = Ok None" "s1 = s" "fs_child (char_devices s) (nodes s) ?n name = None"
      then show ?thesis using run None call no by (simp add: get_cached_or_lookup_def)
    next
      fix x
      assume r1: "r1 = Ok (Some x)" and ok1: "vfs_ok ls s1" and ext: "vfs_ext s s1"
        and cache: "directory_cache s1 = directory_cache s" and x: "x < length (nodes s1)"
        and child: "fs_child (char_devices s) (nodes s) ?n name = Some (place_of (nodes s1) x)"
      let ?e = "length (entries (directory_cache s1))"
      have strong: "vfs_strong s1 = vfs_strong s" using vfs_ext_strong [OF ext] .
      have no1: "no_live_child ls s1 p name" using no no_live_child_cong [OF cache strong] by simp
      have small1: "vfs_small s1" using small ext cache by (simp add: vfs_small_def vfs_ext_def)
      have p1: "alive (ls @ vfs_strong s1) (entries (directory_cache s1)) p" using p(1) cache strong by simp
      have dir1: "is_directory (entry_node s1 p)" using p(2) vfs_ext_entry_node [OF ok ext p_less] by simp
      have child1: "fs_child (char_devices s1) (nodes s1) (de_node (entry s1 p)) name = Some (place_of (nodes s1) x)"
        using child vfs_ext_fs_child [OF ext vfs_ok_entry(2) [OF ok p_less]] cache by (simp add: entry_def)
      have "r = Ok (Some ?e)" "s' = with_entry (Some p) x name s1"
        using run None call r1 vfs_cache_insert_eq [OF no1, of x] by (simp_all add: get_cached_or_lookup_def)
      moreover have "vfs_ok (?e # ls) (with_entry (Some p) x name s1)"
        using with_entry_ok [OF ok1 small1 p1 dir1 no1 x child1] .
      moreover have "Some p \<noteq> Some ?e" using p_less cache by simp
      ultimately show ?thesis
        using vfs_ext_trans [OF ext with_entry_ext] with_entry_new [of "Some p" s1 x name] by simp
    qed
  qed
qed

end
