(* ===== verification/Vfs_Namespace.thy ===== *)
theory Vfs_Namespace
  imports Vfs_Steps
begin

text \<open>
  The abstract view of the VFS: which place a path names. It depends on the mounts and on the
  directories of the drivers only, not on what the directory cache holds.
\<close>

section \<open>The namespace\<close>

text \<open>
  What the tree of names looks like, without the directory cache. A path is given by its names
  from the last to the first. A mount on the path hides whatever the file system of the parent
  has there.
\<close>

definition entry_path :: "vfs \<Rightarrow> dref \<Rightarrow> string list" where
  "entry_path s d = map (\<lambda>e. de_name (entry s e)) (butlast (ancestors (entries (directory_cache s)) d))"

definition mount_place :: "vfs \<Rightarrow> string list \<Rightarrow> place option" where
  "mount_place s path =
     map_option (\<lambda>m. Node (fs_root (m_file_system m)))
       (List.find (\<lambda>m. entry_path s (m_root m) = path) (bt_values (mount_table s)))"

definition place_child :: "vfs \<Rightarrow> place \<Rightarrow> string \<Rightarrow> place option" where
  "place_child s pl name =
     (case pl of Node n \<Rightarrow> fs_child (char_devices s) (nodes s) n name | Device d \<Rightarrow> None)"

definition place_is_directory :: "vfs \<Rightarrow> place \<Rightarrow> bool" where
  "place_is_directory s pl = (case pl of Node n \<Rightarrow> is_directory (nodes s ! n) | Device d \<Rightarrow> False)"

fun place_at :: "vfs \<Rightarrow> string list \<Rightarrow> place option" where
  "place_at s [] = mount_place s []"
| "place_at s (name # up) =
     (case mount_place s (name # up) of
        Some pl \<Rightarrow> Some pl
      | None \<Rightarrow> Option.bind (place_at s up) (\<lambda>pl. place_child s pl name))"

definition directory_at :: "vfs \<Rightarrow> string list \<Rightarrow> bool" where
  "directory_at s up = (case place_at s up of None \<Rightarrow> False | Some pl \<Rightarrow> place_is_directory s pl)"

text \<open>Resolving segments from a path, and splitting off the last segment of a path.\<close>

fun walk :: "vfs \<Rightarrow> string list \<Rightarrow> string list \<Rightarrow> (io_error, string list option) outcome" where
  "walk s [] up = Ok (Some up)"
| "walk s (segment # rest) up =
     (if \<not> directory_at s up then Err NotADirectory
      else if segment = ''.'' then walk s rest up
      else if segment = ''..'' then walk s rest (tl up)
      else if place_at s (segment # up) = None then Ok None
      else walk s rest (segment # up))"

fun walk_parent :: "vfs \<Rightarrow> string list \<Rightarrow> string list \<Rightarrow> (io_error, string list \<times> string) outcome" where
  "walk_parent s [] up = Panic Unreachable"
| "walk_parent s (segment # rest) up =
     (if segment = ''.'' \<or> segment = ''..'' then Panic Todo
      else if rest = [] then Ok (up, segment)
      else if place_at s (segment # up) = None then Err EntryNotFound
      else if \<not> directory_at s (segment # up) then Err NotADirectory
      else walk_parent s rest (segment # up))"

lemma place_child_Some:
  "place_child s pl name = Some q \<longleftrightarrow> (\<exists>n. pl = Node n \<and> fs_child (char_devices s) (nodes s) n name = Some q)"
  by (cases pl) (simp_all add: place_child_def)

lemma entry_path_root: "de_parent (entry s d) = None \<Longrightarrow> entry_path s d = []"
  by (simp add: entry_path_def ancestors_root entry_def)

lemma entry_path_parent:
  "de_parent (entry s d) = Some p \<Longrightarrow> p < d \<Longrightarrow> entry_path s d = de_name (entry s d) # entry_path s p"
  by (simp add: entry_path_def ancestors_parent entry_def)

lemma entry_path_ext:
  assumes "vfs_ext s s'" "d < length (entries (directory_cache s))"
  shows "entry_path s' d = entry_path s d"
proof -
  have "e < length (entries (directory_cache s))" if "e \<in> set (ancestors (entries (directory_cache s)) d)" for e
    using ancestors_le [OF that] assms(2) by simp
  then show ?thesis
    using vfs_ext_ancestors [OF assms] vfs_ext_entry(2) [OF assms(1)]
    by (auto simp: entry_path_def dest!: in_set_butlastD)
qed

lemma entry_path_inj:
  assumes ok: "vfs_ok ls s"
    and "alive (ls @ vfs_strong s) (entries (directory_cache s)) a" "alive (ls @ vfs_strong s) (entries (directory_cache s)) b"
    and "entry_path s a = entry_path s b"
  shows "a = b"
  using assms(2-4)
proof (induction a arbitrary: b rule: less_induct)
  case (less a)
  let ?al = "\<lambda>d. alive (ls @ vfs_strong s) (entries (directory_cache s)) d"
  have bound: "a < length (entries (directory_cache s))" "b < length (entries (directory_cache s))"
    using vfs_ok_alive_bound [OF ok] less.prems by blast+
  show ?case
  proof (cases "de_parent (entry s a)")
    case None
    then have "entry_path s b = []" using less.prems(3) entry_path_root [OF None] by simp
    then have b: "de_parent (entry s b) = None"
      using entry_path_parent [of s b] vfs_ok_parent(1) [OF ok bound(2)] by (cases "de_parent (entry s b)") auto
    have "de_name (entry s a) = ''/''" "de_name (entry s b) = ''/''"
      using None b cache_root_name [OF vfs_okD(1) [OF ok]] bound by (simp_all add: entry_def)
    then show ?thesis
      using live_entry_unique [OF vfs_okD(2) [OF ok] less.prems(1,2)] None b by (simp add: entry_def)
  next
    case (Some p)
    note p = vfs_ok_parent [OF ok bound(1) Some]
    have pa: "entry_path s a = de_name (entry s a) # entry_path s p" using entry_path_parent [OF Some p(1)] .
    then obtain q where q: "de_parent (entry s b) = Some q"
      using less.prems(3) entry_path_root [of s b] by (cases "de_parent (entry s b)") auto
    note q' = vfs_ok_parent [OF ok bound(2) q]
    have pb: "entry_path s b = de_name (entry s b) # entry_path s q" using entry_path_parent [OF q q'(1)] .
    have "?al p" "?al q"
      using alive_parent [OF less.prems(1)] alive_parent [OF less.prems(2)] Some q p(1) q'(1)
      by (simp_all add: entry_def)
    then have "p = q" using less.IH [OF p(1)] pa pb less.prems(3) by simp
    then show ?thesis
      using live_entry_unique [OF vfs_okD(2) [OF ok] less.prems(1,2)] pa pb less.prems(3) Some q
      by (simp add: entry_def)
  qed
qed

lemma mount_place_Some:
  assumes ok: "vfs_ok ls s"
  shows "mount_place s path = Some pl \<longleftrightarrow>
    (\<exists>d. is_mount_root s d \<and> entry_path s d = path \<and> pl = Node (de_node (entry s d)))"
proof
  assume "mount_place s path = Some pl"
  then obtain m where "m \<in> set (bt_values (mount_table s))" and m: "entry_path s (m_root m) = path"
    "pl = Node (fs_root (m_file_system m))"
    by (auto simp: mount_place_def dest!: find_SomeD)
  then obtain i where "get_mount i s = Some m"
    using vfs_okD(4) [OF ok] by (auto simp: mounts_inv_def get_mount_def bt_values_iff)
  then show "\<exists>d. is_mount_root s d \<and> entry_path s d = path \<and> pl = Node (de_node (entry s d))"
    using m vfs_ok_mount(3) [OF ok] by (intro exI [of _ "m_root m"]) (auto simp: is_mount_root_def)
next
  assume "\<exists>d. is_mount_root s d \<and> entry_path s d = path \<and> pl = Node (de_node (entry s d))"
  then obtain d where d: "is_mount_root s d" "entry_path s d = path" "pl = Node (de_node (entry s d))" by blast
  let ?P = "\<lambda>m. entry_path s (m_root m) = path"
  obtain m where m: "m \<in> set (bt_values (mount_table s))" "m_root m = d"
    using mount_root_iff [OF ok] d(1) by blast
  then obtain m' where m': "List.find ?P (bt_values (mount_table s)) = Some m'"
    using d(2) find_ex [of m _ ?P] by blast
  then have "m' \<in> set (bt_values (mount_table s))" "?P m'" using find_SomeD [OF m'] by simp_all
  then have r: "is_mount_root s (m_root m')" "entry_path s (m_root m') = path"
    using mount_root_iff [OF ok] by blast+
  then have "m_root m' = d"
    using entry_path_inj [OF ok mount_root_alive(1) [OF ok r(1)] mount_root_alive(1) [OF ok d(1)]] d(2) by simp
  moreover obtain i where i: "get_mount i s = Some m'"
    using \<open>m' \<in> _\<close> vfs_okD(4) [OF ok] by (auto simp: mounts_inv_def get_mount_def bt_values_iff)
  ultimately show "mount_place s path = Some pl"
    using m' d(3) vfs_ok_mount(3) [OF ok i] by (simp add: mount_place_def)
qed

lemma place_at_mount: "mount_place s path = Some pl \<Longrightarrow> place_at s path = Some pl"
  by (cases path) simp_all

text \<open>Every entry in use stands for the place at its path.\<close>

lemma place_at_entry:
  assumes ok: "vfs_ok ls s" and al: "alive (ls @ vfs_strong s) (entries (directory_cache s)) d"
  shows "place_at s (entry_path s d) = Some (place_of (nodes s) (de_node (entry s d)))"
  using al
proof (induction d rule: less_induct)
  case (less d)
  have bound: "d < length (entries (directory_cache s))" using vfs_ok_alive_bound [OF ok less.prems] .
  note coh = vfs_ok_entry [OF ok bound]
  show ?case
  proof (cases "is_mount_root s d")
    case True
    have "place_of (nodes s) (de_node (entry s d)) = Node (de_node (entry s d))"
      using directory_place [OF ok coh(2)] mount_root_alive(3) [OF ok True] by (simp add: entry_node_def)
    moreover have "mount_place s (entry_path s d) = Some (Node (de_node (entry s d)))"
      using mount_place_Some [OF ok] True by blast
    ultimately show ?thesis using place_at_mount by simp
  next
    case False
    then obtain p where p: "de_parent (entry s d) = Some p"
      and child: "fs_child (char_devices s) (nodes s) (de_node (entry s p)) (de_name (entry s d))
        = Some (place_of (nodes s) (de_node (entry s d)))"
      using coh(1) by (auto simp: entry_coherent_def)
    note p' = vfs_ok_parent [OF ok bound p]
    have path: "entry_path s d = de_name (entry s d) # entry_path s p" using entry_path_parent [OF p p'(1)] .
    have "mount_place s (entry_path s d) = None"
    proof (rule ccontr)
      assume "mount_place s (entry_path s d) \<noteq> None"
      then obtain r where "is_mount_root s r" "entry_path s r = entry_path s d"
        using mount_place_Some [OF ok] by auto
      then show False
        using entry_path_inj [OF ok mount_root_alive(1) [OF ok] less.prems] False by auto
    qed
    moreover have "alive (ls @ vfs_strong s) (entries (directory_cache s)) p"
      using alive_parent [OF less.prems] p p'(1) by (simp add: entry_def)
    then have "place_at s (entry_path s p) = Some (Node (de_node (entry s p)))"
      using less.IH [OF p'(1)] directory_place [OF ok vfs_ok_entry(2) [OF ok p'(2)]] p'(3)
      by (simp add: entry_node_def)
    ultimately show ?thesis using path child by (simp add: place_child_def)
  qed
qed

lemma directory_at_entry:
  assumes ok: "vfs_ok ls s" and al: "alive (ls @ vfs_strong s) (entries (directory_cache s)) d"
  shows "directory_at s (entry_path s d) = is_directory (entry_node s d)"
proof -
  have n: "de_node (entry s d) < length (nodes s)" using vfs_ok_entry(2) [OF ok vfs_ok_alive_bound [OF ok al]] .
  have "place_is_directory s (place_of (nodes s) (de_node (entry s d))) = is_directory (entry_node s d)"
  proof (cases "is_directory (entry_node s d)")
    case True
    then show ?thesis
      using directory_place [OF ok n] by (simp add: place_is_directory_def entry_node_def)
  next
    case False
    then show ?thesis
      by (simp add: place_is_directory_def entry_node_def place_of_def split: private_data.split)
  qed
  then show ?thesis using place_at_entry [OF ok al] by (simp add: directory_at_def)
qed

section \<open>The namespace along an extension\<close>

lemma mount_place_range:
  assumes "vfs_ok ls s" "mount_place s path = Some pl"
  shows "\<exists>n < length (nodes s). pl = Node n"
  using assms mount_place_Some [OF assms(1)] vfs_ok_entry(2) [OF assms(1)] mount_root_alive(2) [OF assms(1)] by blast

lemma fs_child_range:
  assumes "vfs_ok ls s" "n < length (nodes s)" "fs_child (char_devices s) (nodes s) n name = Some (Node x)"
  shows "x < length (nodes s)"
  using assms ram_child_place(1) [OF assms(1,2)] by (auto simp: fs_child_def split: private_data.splits)

lemma place_at_range:
  assumes ok: "vfs_ok ls s"
  shows "place_at s path = Some (Node n) \<Longrightarrow> n < length (nodes s)"
proof (induction path arbitrary: n)
  case Nil
  then show ?case using mount_place_range [OF ok, of "[]"] by auto
next
  case (Cons name up)
  show ?case
  proof (cases "mount_place s (name # up)")
    case None
    then obtain k where "place_at s up = Some (Node k)"
      "fs_child (char_devices s) (nodes s) k name = Some (Node n)"
      using Cons.prems by (auto simp: place_child_Some bind_eq_Some_conv)
    then show ?thesis using Cons.IH fs_child_range [OF ok] by blast
  next
    case (Some pl)
    then show ?thesis using Cons.prems mount_place_range [OF ok Some] by auto
  qed
qed

lemma mount_place_ext:
  assumes ok: "vfs_ok ls s" and ext: "vfs_ext s s'"
  shows "mount_place s' path = mount_place s path"
proof -
  define P where "P t x = (entry_path t (fst (snd x)) = path)" for t and x :: "u64 \<times> dref \<times> nref \<times> file_system_metadata"
  have eq: "mount_place t path = map_option (\<lambda>x. Node (fst (snd (snd x))))
      (List.find (P t) (map mount_core (bt_values (mount_table t))))" for t
    by (simp add: mount_place_def find_map_comp P_def mount_core_def o_def option.map_comp)
  have "map mount_core (bt_values (mount_table s')) = map mount_core (bt_values (mount_table s))"
  proof -
    have *: "map mount_core (bt_values t) = map snd (map (map_prod id mount_core) t)" for t
      by (simp add: bt_values_def)
    show ?thesis using ext unfolding vfs_ext_def * by (simp only:)
  qed
  moreover have P: "P s' x = P s x" if x: "x \<in> set (map mount_core (bt_values (mount_table s)))" for x
  proof -
    obtain m where m: "m \<in> set (bt_values (mount_table s))" "x = mount_core m" using x by auto
    then have "m_root m < length (entries (directory_cache s))"
      using mount_root_alive(2) [OF ok] mount_root_iff [OF ok] by blast
    then show ?thesis using entry_path_ext [OF ext] m by (simp add: P_def mount_core_def)
  qed
  moreover have "List.find (P s') (map mount_core (bt_values (mount_table s)))
      = List.find (P s) (map mount_core (bt_values (mount_table s)))"
    by (rule find_cong [OF refl]) (rule P)
  ultimately show ?thesis unfolding eq by simp
qed

lemma place_at_ext:
  assumes ok: "vfs_ok ls s" and ext: "vfs_ext s s'"
  shows "place_at s' path = place_at s path"
proof (induction path)
  case Nil
  then show ?case using mount_place_ext [OF assms] by simp
next
  case (Cons name up)
  have "place_child s' pl name = place_child s pl name" if "place_at s up = Some pl" for pl
    using that place_at_range [OF ok, of up] vfs_ext_fs_child [OF ext] by (simp add: place_child_def split: place.split)
  then show ?case
    using Cons mount_place_ext [OF assms] by (cases "place_at s up") (simp_all split: option.split)
qed

lemma directory_at_ext:
  assumes ok: "vfs_ok ls s" and ext: "vfs_ext s s'"
  shows "directory_at s' path = directory_at s path"
  using place_at_ext [OF assms] place_at_range [OF ok, of path] vfs_ext_node(1) [OF ext]
  by (simp add: directory_at_def place_is_directory_def split: option.split place.split)

lemma walk_ext:
  assumes "vfs_ok ls s" "vfs_ext s s'"
  shows "walk s' segs up = walk s segs up" "walk_parent s' segs up = walk_parent s segs up"
  by (induction segs arbitrary: up)
    (simp_all add: place_at_ext [OF assms] directory_at_ext [OF assms] del: place_at.simps)

end
