(* ===== verification/Vfs_Resolve.thy ===== *)
theory Vfs_Resolve
  imports Vfs_Namespace
begin

text \<open>
  \<open>resolve_path\<close> and \<open>resolve_path_parent_directory\<close> refine a walk through the namespace.
\<close>

section \<open>The counters never go back\<close>

named_theorems counters \<open>operations under which the id counters only grow\<close>

definition counters_le :: "vfs \<Rightarrow> vfs \<Rightarrow> bool" where
  "counters_le s s' \<longleftrightarrow> entry_next (directory_cache s) \<le> entry_next (directory_cache s')
     \<and> mount_next s \<le> mount_next s' \<and> fd_next s \<le> fd_next s'"

definition advances :: "(vfs, 'e, 'a) op \<Rightarrow> bool" where
  "advances m \<longleftrightarrow> (\<forall>s. counters_le s (snd (m s)))"

lemma counters_le_refl [simp]: "counters_le s s"
  by (simp add: counters_le_def)

lemma counters_le_trans: "counters_le a b \<Longrightarrow> counters_le b c \<Longrightarrow> counters_le a c"
  by (auto simp: counters_le_def)

lemma counters_le_small: "counters_le s s' \<Longrightarrow> vfs_small s' \<Longrightarrow> vfs_small s"
  by (auto simp: counters_le_def vfs_small_def cache_small_def)

lemma advancesD: "advances m \<Longrightarrow> m s = (r, s') \<Longrightarrow> counters_le s s'"
  by (metis advances_def snd_conv)

lemma advances_small: "advances m \<Longrightarrow> m s = (r, s') \<Longrightarrow> vfs_small s' \<Longrightarrow> vfs_small s"
  using advancesD counters_le_small by blast

lemma advances_at: "advances m \<Longrightarrow> counters_le s (snd (m s))"
  by (simp add: advances_def)

lemma advances_try_bind_at:
  assumes "counters_le s (snd (m s))" "\<And>x s'. counters_le s' (snd (f x s'))"
  shows "counters_le s (snd (try_bind m f s))"
proof -
  obtain r s1 where m: "m s = (r, s1)" by (cases "m s")
  then have "counters_le s s1" using assms(1) by simp
  moreover have "counters_le s1 (snd (f x s1))" for x using assms(2) .
  ultimately show "counters_le s (snd (try_bind m f s))"
    using m counters_le_trans by (cases r) (auto simp: try_bind_def)
qed

lemma advances_same:
  assumes "\<And>s. directory_cache (snd (m s)) = directory_cache s \<and> mount_next (snd (m s)) = mount_next s
    \<and> fd_next (snd (m s)) = fd_next s"
  shows "advances m"
  using assms by (simp add: advances_def counters_le_def)

lemma advances_basic [counters]:
  "advances (ret x)" "advances (fail e)" "advances (panic p)" "advances (asserting b)"
  "advances (unwrap v)" "advances (ok_or v e)" "advances (checked_add k n)" "advances (checked_sub k n)"
  "advances (on_nodes m)" "advances (give_handle d)" "advances (parse_path str)"
  "advances (require_absolute pth)" "advances require_root" "advances (get_file fd)"
  "advances (node_file_system n)" "advances (node_file_operations n)" "advances (advance_position fd f n)"
  by (rule advances_same, simp add: op_simps on_nodes_def give_handle_def parse_path_def
        require_absolute_def require_root_def get_file_def node_file_system_def node_file_operations_def
        advance_position_def split: option.split outcome.split prod.split)+

lemma put_file_system_counters [simp]:
  "directory_cache (put_file_system i fs s) = directory_cache s"
  "mount_next (put_file_system i fs s) = mount_next s" "fd_next (put_file_system i fs s) = fd_next s"
  by (simp_all add: put_file_system_def split: option.split)

lemma advances_call [counters]: "advances (call_directory_operation n f)"
  by (rule advances_same) (auto simp: call_directory_operation_def node_file_system_def op_simps
      split: option.splits prod.split)

lemma advances_cache_insert [counters]: "advances (vfs_cache_insert ls par n name)"
  by (auto simp: advances_def counters_le_def vfs_cache_insert_def cache_insert_eq)

lemmas advances_rules = advances_try_bind_at counters [THEN advances_at]

lemma advances_get_cached [counters]: "advances (get_cached_or_lookup ls p name)"
  unfolding advances_def get_cached_or_lookup_def
  by (auto split: option.split intro!: advances_rules)

lemma advances_resolve_segments [counters]: "advances (resolve_segments segs stack)"
  unfolding advances_def
  by (induction segs stack rule: resolve_segments.induct)
    (auto split: option.split list.split intro!: advances_rules advances_get_cached [THEN advances_at])

lemma advances_resolve_parent_segments [counters]: "advances (resolve_parent_segments segs stack)"
  unfolding advances_def
  by (induction segs stack rule: resolve_parent_segments.induct)
    (auto split: option.split list.split intro!: advances_rules advances_get_cached [THEN advances_at])

declare place_at.simps [simp del]

section \<open>Resolution\<close>

lemma find_mounted_place:
  assumes ok: "vfs_ok ls s" and small: "vfs_small s"
    and p: "alive (ls @ vfs_strong s) (entries (directory_cache s)) p"
    and none: "find_mounted s p name = None"
  shows "mount_place s (name # entry_path s p) = None"
proof (rule ccontr)
  assume "mount_place s (name # entry_path s p) \<noteq> None"
  then obtain d where d: "is_mount_root s d" "entry_path s d = name # entry_path s p"
    using mount_place_Some [OF ok] by auto
  note al = mount_root_alive [OF ok d(1)]
  obtain q where q: "de_parent (entry s d) = Some q"
    using d(2) entry_path_root [of s d] by (cases "de_parent (entry s d)") auto
  note q' = vfs_ok_parent [OF ok al(2) q]
  have path: "de_name (entry s d) = name" "entry_path s q = entry_path s p"
    using entry_path_parent [OF q q'(1)] d(2) by simp_all
  have "alive (ls @ vfs_strong s) (entries (directory_cache s)) q"
    using alive_parent [OF al(1)] q q'(1) by (simp add: entry_def)
  then have "q = p" using entry_path_inj [OF ok _ p path(2)] by blast
  then show False
    using find_mounted_iff [OF ok small vfs_ok_alive_bound [OF ok p], of name d] d(1) q path none by simp
qed

lemma no_child_place:
  assumes ok: "vfs_ok ls s" and p: "alive (ls @ vfs_strong s) (entries (directory_cache s)) p"
    and dir: "is_directory (entry_node s p)" and none: "mount_place s (name # entry_path s p) = None"
    and child: "fs_child (char_devices s) (nodes s) (de_node (entry s p)) name = None"
  shows "place_at s (name # entry_path s p) = None"
proof -
  have "de_node (entry s p) < length (nodes s)" using vfs_ok_entry(2) [OF ok vfs_ok_alive_bound [OF ok p]] .
  then have "place_of (nodes s) (de_node (entry s p)) = Node (de_node (entry s p))"
    using directory_place [OF ok] dir by (simp add: entry_node_def)
  then show ?thesis using place_at_entry [OF ok p] none child by (simp add: place_child_def place_at.simps)
qed

text \<open>One step down: the mount on the name, or the cached or looked-up entry.\<close>

lemma alive_member: "r \<in> set ls \<Longrightarrow> alive (ls @ st) es r"
  by (rule alive_strong) simp

lemma ancestors_chain:
  assumes "vfs_ok ls s" "d < length (entries (directory_cache s))" "de_parent (entry s d) = Some p"
  shows "ancestors (entries (directory_cache s)) d = d # ancestors (entries (directory_cache s)) p"
    "entry_path s d = de_name (entry s d) # entry_path s p"
  using vfs_ok_parent(1) [OF assms] ancestors_parent entry_path_parent [OF assms(3)] assms(3)
  by (simp_all add: entry_def)

lemma lookup_step:
  assumes ok: "vfs_ok ls s" and small: "vfs_small s" and mem: "cur \<in> set ls"
    and dir: "is_directory (entry_node s cur)"
    and run: "get_cached_or_lookup ls cur name s = (r, s')"
  shows "vfs_ext s s' \<and>
    (r = Panic Overflow
     \<or> (r = Ok None \<and> s' = s \<and> no_live_child ls s cur name
          \<and> place_at s (name # entry_path s cur) = None)
     \<or> (\<exists>e. r = Ok (Some e) \<and> vfs_ok (e # ls) s'
          \<and> ancestors (entries (directory_cache s')) e = e # ancestors (entries (directory_cache s)) cur
          \<and> entry_path s' e = name # entry_path s cur))"
proof -
  have al: "alive (ls @ vfs_strong s) (entries (directory_cache s)) cur" using alive_member [OF mem] .
  have bound: "cur < length (entries (directory_cache s))" using vfs_ok_alive_bound [OF ok al] .
  have none: "place_at s (name # entry_path s cur) = None"
    if no: "no_live_child ls s cur name"
      and child: "fs_child (char_devices s) (nodes s) (de_node (entry s cur)) name = None"
  proof -
    have "find_mounted s cur name = None"
    proof (rule ccontr)
      assume "find_mounted s cur name \<noteq> None"
      then obtain d where d: "is_mount_root s d" "de_parent (entry s d) = Some cur" "de_name (entry s d) = name"
        using find_mounted_iff [OF ok small bound] by auto
      then have "cache_lookup (ls @ vfs_strong s) cur name (directory_cache s) = Some d"
        using vfs_cache_lookup_iff [OF ok small bound] mount_root_alive(1) [OF ok d(1)] by blast
      then show False using no by (simp add: no_live_child_def)
    qed
    then show ?thesis
      using no_child_place [OF ok al dir find_mounted_place [OF ok small al] child] by blast
  qed
  note spec = get_cached_or_lookup_spec [OF ok small al dir run]
  then have ext: "vfs_ext s s'" by blast
  from spec show ?thesis
  proof (elim conjE disjE exE)
    fix e
    assume e: "r = Ok (Some e)" "vfs_ok (e # ls) s'" "de_parent (entry s' e) = Some cur" "de_name (entry s' e) = name"
    have e_bound: "e < length (entries (directory_cache s'))" using vfs_ok_local [OF e(2), of e] by simp
    show ?thesis
      using ext e ancestors_chain [OF e(2) e_bound e(3)] vfs_ext_ancestors [OF ext bound] entry_path_ext [OF ext bound]
      by auto
  qed (use none ext in auto)
qed

lemma mounted_step:
  assumes ok: "vfs_ok ls s" and small: "vfs_small s" and mem: "cur \<in> set ls"
    and found: "find_mounted s cur name = Some d"
  shows "vfs_ok (d # ls) s" "ancestors (entries (directory_cache s)) d = d # ancestors (entries (directory_cache s)) cur"
    "entry_path s d = name # entry_path s cur"
proof -
  have bound: "cur < length (entries (directory_cache s))" using vfs_ok_local [OF ok mem] .
  have d: "is_mount_root s d" "de_parent (entry s d) = Some cur" "de_name (entry s d) = name"
    using find_mounted_iff [OF ok small bound] found by blast+
  note al = mount_root_alive [OF ok d(1)]
  show "vfs_ok (d # ls) s"
    using al(1) by (intro vfs_ok_absorb [OF ok]) (auto intro: alive_strong)
  show "ancestors (entries (directory_cache s)) d = d # ancestors (entries (directory_cache s)) cur"
    "entry_path s d = name # entry_path s cur"
    using ancestors_chain [OF ok al(2) d(2)] d(3) by simp_all
qed

text \<open>
  The loop of \<open>resolve_path\<close> refines \<^const>\<open>walk\<close>: with the ancestors of an entry on the stack, it
  ends on the entry of the path that the walk ends on. The one other outcome is the overflow
  of the node counter of a devfs.
\<close>

definition resolves ::
  "vfs \<Rightarrow> (io_error, string list option) outcome \<Rightarrow> (io_error, dref option) outcome \<Rightarrow> bool" where
  "resolves s' spec r \<longleftrightarrow> r = Panic Overflow \<or>
     (case spec of
        Ok None \<Rightarrow> r = Ok None \<and> vfs_inv s'
      | Ok (Some up) \<Rightarrow> (\<exists>e. r = Ok (Some e) \<and> vfs_ok [e] s' \<and> entry_path s' e = up)
      | Err x \<Rightarrow> r = Err x \<and> vfs_inv s'
      | Panic q \<Rightarrow> r = Panic q)"

lemma place_at_local:
  assumes "vfs_ok ls s" "d \<in> set ls"
  shows "place_at s (entry_path s d) \<noteq> None" "directory_at s (entry_path s d) = is_directory (entry_node s d)"
  using place_at_entry [OF assms(1)] directory_at_entry [OF assms(1)] alive_member [OF assms(2)] by simp_all

text \<open>The step into an entry of the current directory; \<open>go_on\<close> stands for the rest of the path.\<close>

lemma resolve_name_step:
  assumes ok: "vfs_ok (ancestors (entries (directory_cache s)) cur) s" and small: "vfs_small s"
    and name: "is_directory (entry_node s cur)" "seg \<noteq> ''.''" "seg \<noteq> ''..''"
    and run: "try_bind (get_cached_or_lookup (ancestors (entries (directory_cache s)) cur) cur seg) (\<lambda>r. case r of
        None \<Rightarrow> ret None | Some e \<Rightarrow> resolve_segments rest (e # ancestors (entries (directory_cache s)) cur)) s = (r, s')"
    and go_on: "\<And>s1 e. vfs_ok (ancestors (entries (directory_cache s1)) e) s1 \<Longrightarrow>
        resolve_segments rest (ancestors (entries (directory_cache s1)) e) s1 = (r, s') \<Longrightarrow>
        vfs_ext s1 s' \<and> resolves s' (walk s1 rest (entry_path s1 e)) r"
  shows "vfs_ext s s' \<and> resolves s' (walk s (seg # rest) (entry_path s cur)) r"
proof -
  let ?st = "ancestors (entries (directory_cache s)) cur"
  have mem: "cur \<in> set ?st" by simp
  note dir = place_at_local(2) [OF ok mem]
  have base: "vfs_inv s" using vfs_ok_subset [OF ok] by simp
  obtain r1 s1 where look: "get_cached_or_lookup ?st cur seg s = (r1, s1)"
    by (cases "get_cached_or_lookup ?st cur seg s")
  note spec = lookup_step [OF ok small mem name(1) look]
  then have ext: "vfs_ext s s1" by blast
  from spec show ?thesis
  proof (elim conjE disjE exE)
    assume "r1 = Panic Overflow"
    then show ?thesis using run look ext by (simp add: resolves_def)
  next
    assume "r1 = Ok None" "s1 = s" "place_at s (seg # entry_path s cur) = None"
    then show ?thesis using run look base name dir by (simp add: resolves_def)
  next
    fix e
    assume e: "r1 = Ok (Some e)" "vfs_ok (e # ?st) s1"
      "ancestors (entries (directory_cache s1)) e = e # ?st" "entry_path s1 e = seg # entry_path s cur"
    have "vfs_ext s1 s' \<and> resolves s' (walk s1 rest (entry_path s1 e)) r"
      using go_on [of s1 e] e run look by simp
    moreover have "place_at s (seg # entry_path s cur) \<noteq> None"
      using place_at_local(1) [OF e(2), of e] place_at_ext [OF ok ext] e(4) by simp
    ultimately show ?thesis
      using e(4) walk_ext(1) [OF ok ext] vfs_ext_trans [OF ext] name dir by auto
  qed
qed

lemma resolve_segments_walk:
  assumes "vfs_ok (ancestors (entries (directory_cache s)) cur) s"
    and "resolve_segments segs (ancestors (entries (directory_cache s)) cur) s = (r, s')" "vfs_small s'"
  shows "vfs_ext s s' \<and> resolves s' (walk s segs (entry_path s cur)) r"
  using assms
proof (induction segs arbitrary: cur s)
  case Nil
  let ?st = "ancestors (entries (directory_cache s)) cur"
  obtain below where st: "?st = cur # below" by (metis hd_ancestors ancestors_not_Nil list.collapse)
  then have "r = Ok (Some cur)" "s' = s" using Nil.prems(2) by auto
  moreover have "vfs_ok [cur] s" using Nil.prems(1) st by (auto intro: vfs_ok_subset)
  ultimately show ?case by (simp add: resolves_def)
next
  case (Cons seg rest)
  let ?es = "entries (directory_cache s)"
  let ?st = "ancestors ?es cur"
  obtain below where st: "?st = cur # below" by (metis hd_ancestors ancestors_not_Nil list.collapse)
  note ok = Cons.prems(1) and run = Cons.prems(2)
  have mem: "cur \<in> set ?st" by simp
  note dir = place_at_local(2) [OF ok mem]
  have base: "vfs_inv s" using vfs_ok_subset [OF ok] by simp
  have bound: "cur < length ?es" using vfs_ok_local [OF ok mem] .
  consider (notdir) "\<not> is_directory (entry_node s cur)"
    | (dot) "is_directory (entry_node s cur)" "seg = ''.''"
    | (dotdot) "is_directory (entry_node s cur)" "seg = ''..''"
    | (name) "is_directory (entry_node s cur)" "seg \<noteq> ''.''" "seg \<noteq> ''..''" by blast
  then show ?case
  proof cases
    case notdir
    then show ?thesis using run st dir base by (simp add: resolves_def)
  next
    case dot
    then show ?thesis using run st dir Cons.IH [OF ok _ Cons.prems(3)] by simp
  next
    case dotdot
    show ?thesis
    proof (cases "de_parent (entry s cur)")
      case None
      then have "?st = [cur]" "entry_path s cur = []"
        using ancestors_root [of ?es cur] entry_path_root [OF None] by (simp_all add: entry_def)
      then show ?thesis using run dir dotdot Cons.IH [OF ok _ Cons.prems(3)] by simp
    next
      case (Some p)
      note p = ancestors_chain [OF ok bound Some]
      have "vfs_ok (ancestors ?es p) s" using vfs_ok_subset [OF ok] p(1) by auto
      moreover have "resolve_segments rest (ancestors ?es p) s = (r, s')" using run p(1) dotdot by simp
      ultimately show ?thesis using Cons.IH [OF _ _ Cons.prems(3)] p(2) dir dotdot by simp
    qed
  next
    case name
    have small: "vfs_small s" using advances_small [OF advances_resolve_segments run Cons.prems(3)] .
    show ?thesis
    proof (cases "find_mounted s cur seg")
      case (Some d)
      note d = mounted_step [OF ok small mem Some]
      have "resolve_segments rest (ancestors ?es d) s = (r, s')" using run name Some st d(2) by simp
      then show ?thesis
        using Cons.IH [of s d] d Cons.prems(3) place_at_local(1) [OF d(1), of d] dir name by auto
    next
      case None
      have "try_bind (get_cached_or_lookup ?st cur seg) (\<lambda>r.
          case r of None \<Rightarrow> ret None | Some e \<Rightarrow> resolve_segments rest (e # ?st)) s = (r, s')"
        using run name None unfolding st by simp
      then show ?thesis by (rule resolve_name_step [OF ok small name _ Cons.IH]) (use Cons.prems(3) in simp_all)
    qed
  qed
qed

definition resolves_parent ::
  "vfs \<Rightarrow> (io_error, string list \<times> string) outcome \<Rightarrow> (io_error, dref \<times> string) outcome \<Rightarrow> bool" where
  "resolves_parent s' spec r \<longleftrightarrow> r = Panic Overflow \<or>
     (case spec of
        Ok (up, name) \<Rightarrow> (\<exists>p. r = Ok (p, name) \<and> vfs_ok [p] s' \<and> entry_path s' p = up)
      | Err x \<Rightarrow> r = Err x \<and> vfs_inv s'
      | Panic q \<Rightarrow> r = Panic q)"

lemma resolve_parent_segments_walk:
  assumes "vfs_ok (ancestors (entries (directory_cache s)) cur) s" "is_directory (entry_node s cur)"
    and "resolve_parent_segments segs (ancestors (entries (directory_cache s)) cur) s = (r, s')" "vfs_small s'"
  shows "vfs_ext s s' \<and> resolves_parent s' (walk_parent s segs (entry_path s cur)) r"
  using assms
proof (induction segs arbitrary: cur s)
  case Nil
  then show ?case by (simp add: resolves_parent_def)
next
  case (Cons seg rest)
  let ?es = "entries (directory_cache s)"
  let ?st = "ancestors ?es cur"
  obtain below where st: "?st = cur # below" by (metis hd_ancestors ancestors_not_Nil list.collapse)
  note ok = Cons.prems(1) and run = Cons.prems(3)
  have mem: "cur \<in> set ?st" by simp
  consider (dots) "seg = ''.'' \<or> seg = ''..''" | (last) "seg \<noteq> ''.''" "seg \<noteq> ''..''" "rest = []"
    | (name) "seg \<noteq> ''.''" "seg \<noteq> ''..''" "rest \<noteq> []" by blast
  then show ?case
  proof cases
    case dots
    then show ?thesis using run by (auto simp: resolves_parent_def)
  next
    case last
    moreover have "vfs_ok [cur] s" using ok st by (auto intro: vfs_ok_subset)
    ultimately show ?thesis using run st by (auto simp: resolves_parent_def)
  next
    case name
    have small: "vfs_small s" using advances_small [OF advances_resolve_parent_segments run Cons.prems(4)] .
    obtain r1 s1 where look: "get_cached_or_lookup ?st cur seg s = (r1, s1)"
      by (cases "get_cached_or_lookup ?st cur seg s")
    have run': "try_bind (get_cached_or_lookup ?st cur seg) (\<lambda>r.
        case r of None \<Rightarrow> fail EntryNotFound
        | Some e \<Rightarrow> (\<lambda>t. if \<not> is_directory (entry_node t e) then (Err NotADirectory, t)
                      else resolve_parent_segments rest (e # ?st) t)) s = (r, s')"
      using run name unfolding st by simp
    note spec = lookup_step [OF ok small mem Cons.prems(2) look]
    then have ext: "vfs_ext s s1" by blast
    from spec show ?thesis
    proof (elim conjE disjE exE)
      assume "r1 = Panic Overflow"
      then show ?thesis using run' look ext by (simp add: resolves_parent_def)
    next
      assume "r1 = Ok None" "s1 = s" "place_at s (seg # entry_path s cur) = None"
      then show ?thesis
        using run' look vfs_ok_subset [OF ok] name by (auto simp add: resolves_parent_def)
    next
      fix e
      assume e: "r1 = Ok (Some e)" "vfs_ok (e # ?st) s1"
        "ancestors (entries (directory_cache s1)) e = e # ?st" "entry_path s1 e = seg # entry_path s cur"
      have there: "place_at s (seg # entry_path s cur) \<noteq> None"
        "directory_at s (seg # entry_path s cur) = is_directory (entry_node s1 e)"
        using place_at_local [OF e(2), of e] place_at_ext [OF ok ext] directory_at_ext [OF ok ext] e(4) by simp_all
      show ?thesis
      proof (cases "is_directory (entry_node s1 e)")
        case True
        then have "vfs_ext s1 s' \<and> resolves_parent s' (walk_parent s1 rest (entry_path s1 e)) r"
          using Cons.IH [of s1 e] e run' look Cons.prems(4) by simp
        then show ?thesis
          using there True e(4) walk_ext(2) [OF ok ext] vfs_ext_trans [OF ext] name by auto
      next
        case False
        then have "r = Err NotADirectory" "s' = s1" using run' look e(1) by simp_all
        moreover have "vfs_inv s1" using vfs_ok_subset [OF e(2)] by simp
        ultimately show ?thesis
          using there False name ext by (auto simp: resolves_parent_def)
      qed
    qed
  qed
qed

section \<open>Whole paths\<close>

text \<open>\<open>walk_path\<close> and \<open>walk_path_parent\<close>: the two resolutions of a path string, on the namespace.\<close>

definition walk_path :: "vfs \<Rightarrow> string \<Rightarrow> (io_error, string list option) outcome" where
  "walk_path s str =
     (case path_from_str str of
        Err _ \<Rightarrow> Err InvalidPath
      | Panic q \<Rightarrow> Panic q
      | Ok p \<Rightarrow>
          if hd str \<noteq> slash then Panic Todo
          else if place_at s [] = None then Err NoRootDirectory
          else walk s (tl (segments p)) [])"

definition walk_path_parent :: "vfs \<Rightarrow> string \<Rightarrow> (io_error, string list \<times> string) outcome" where
  "walk_path_parent s str =
     (case path_from_str str of
        Err _ \<Rightarrow> Err InvalidPath
      | Panic q \<Rightarrow> Panic q
      | Ok p \<Rightarrow>
          if hd str \<noteq> slash then Panic Todo
          else if place_at s [] = None then Err NoRootDirectory
          else if tl (segments p) = [] then Err InvalidPath
          else walk_parent s (tl (segments p)) [])"

lemma walk_cong:
  assumes "\<And>path. place_at s' path = place_at s path" "\<And>path. directory_at s' path = directory_at s path"
  shows "walk s' segs up = walk s segs up" "walk_parent s' segs up = walk_parent s segs up"
    "walk_path s' str = walk_path s str" "walk_path_parent s' str = walk_path_parent s str"
proof -
  have *: "walk s' segs up = walk s segs up" "walk_parent s' segs up = walk_parent s segs up" for segs up
    by (induction segs arbitrary: up) (simp_all add: assms)
  then show "walk s' segs up = walk s segs up" "walk_parent s' segs up = walk_parent s segs up"
    "walk_path s' str = walk_path s str" "walk_path_parent s' str = walk_path_parent s str"
    using assms(1) by (auto simp: walk_path_def walk_path_parent_def split: outcome.split)
qed

lemma walk_path_ext:
  assumes "vfs_ok ls s" "vfs_ext s s'"
  shows "walk_path s' str = walk_path s str" "walk_path_parent s' str = walk_path_parent s str"
  using walk_cong(3,4) [OF place_at_ext [OF assms] directory_at_ext [OF assms]] by simp_all

lemma parse_path_eq:
  "parse_path str s = (case path_from_str str of Ok p \<Rightarrow> Ok p | Err _ \<Rightarrow> Err InvalidPath | Panic q \<Rightarrow> Panic q, s)"
  by (simp add: parse_path_def split: outcome.split)

lemma require_absolute_eq:
  assumes "path_from_str str = Ok p"
  shows "require_absolute p s = (if hd str = slash then Ok () else Panic Todo, s)"
  using path_from_str_Ok_absolute [OF assms, where ?'a = io_error] by (simp add: require_absolute_def)

lemma root_entry:
  assumes ok: "vfs_inv s" and small: "vfs_small s"
  shows "(case get_root (vfs_strong s) (directory_cache s) of
     None \<Rightarrow> place_at s [] = None
   | Some d \<Rightarrow> place_at s [] \<noteq> None \<and> vfs_ok [d] s \<and> entry_path s d = []
       \<and> ancestors (entries (directory_cache s)) d = [d] \<and> is_directory (entry_node s d))"
proof -
  have small': "cache_small (directory_cache s)" using small by (simp add: vfs_small_def)
  have live: "cache_live (vfs_strong s) (directory_cache s)" using vfs_okD(2) [OF ok] by simp
  note root = get_root_iff [OF vfs_okD(1) [OF ok] small' live]
  show ?thesis
  proof (cases "get_root (vfs_strong s) (directory_cache s)")
    case None
    have "place_at s [] = None"
    proof (rule ccontr)
      assume "place_at s [] \<noteq> None"
      then obtain d where d: "is_mount_root s d" "entry_path s d = []"
        using mount_place_Some [OF ok] by (auto simp: place_at.simps)
      note al = mount_root_alive [OF ok d(1)]
      have "de_parent (entry s d) = None"
        using d(2) entry_path_parent [of s d] vfs_ok_parent(1) [OF ok al(2)] by (cases "de_parent (entry s d)") auto
      then show False using root [of d] al(1) None by (simp add: entry_def)
    qed
    then show ?thesis using None by simp
  next
    case (Some d)
    then have d: "alive (vfs_strong s) (entries (directory_cache s)) d" "de_parent (entry s d) = None"
      using root [of d] by (simp_all add: entry_def)
    have "vfs_ok [d] s" using d(1) by (intro vfs_ok_absorb [OF ok]) simp
    moreover have "ancestors (entries (directory_cache s)) d = [d]"
      using ancestors_root d(2) by (simp add: entry_def)
    moreover have "is_directory (entry_node s d)"
    proof -
      have "d < length (entries (directory_cache s))" using vfs_ok_alive_bound [OF ok] d(1) by simp
      then show ?thesis using vfs_ok_entry(1) [OF ok, of d] d(2) by (auto simp: entry_coherent_def split: if_splits)
    qed
    ultimately show ?thesis
      using Some entry_path_root [OF d(2)] place_at_local(1) [of "[d]" s d] by simp
  qed
qed

lemma advances_resolve_path [counters]: "advances (resolve_path str)"
  unfolding advances_def resolve_path_def
  by (auto intro!: advances_rules advances_resolve_segments [THEN advances_at])

lemma advances_resolve_parent [counters]: "advances (resolve_path_parent_directory str)"
  unfolding advances_def resolve_path_parent_directory_def Let_def
  by (auto intro!: advances_rules advances_resolve_parent_segments [THEN advances_at])

lemma resolve_path_walk:
  assumes ok: "vfs_inv s" and run: "resolve_path str s = (r, s')" and small: "vfs_small s'"
  shows "vfs_ext s s' \<and> resolves s' (walk_path s str) r"
proof (cases "path_from_str str")
  case (Ok p)
  note abs = require_absolute_eq [OF Ok]
  note root = root_entry [OF ok advances_small [OF advances_resolve_path run small]]
  show ?thesis
  proof (cases "hd str = slash")
    case True
    show ?thesis
    proof (cases "get_root (vfs_strong s) (directory_cache s)")
      case None
      then show ?thesis
        using run root Ok True abs ok
        by (simp add: resolve_path_def parse_path_eq try_bind_def require_root_def ok_or_def walk_path_def resolves_def)
    next
      case (Some d)
      then have "resolve_segments (tl (segments p)) [d] s = (r, s')"
        using run Ok True abs
        by (simp add: resolve_path_def parse_path_eq try_bind_def require_root_def ok_or_def drop_Suc)
      then show ?thesis
        using resolve_segments_walk [of s d "tl (segments p)" r s'] root Some small Ok True
        by (auto simp: walk_path_def)
    qed
  qed (use run Ok abs in \<open>simp add: resolve_path_def parse_path_eq try_bind_def walk_path_def resolves_def\<close>)
qed (use run ok in \<open>auto simp: resolve_path_def parse_path_eq try_bind_def walk_path_def resolves_def\<close>)

lemma resolve_path_parent_walk:
  assumes ok: "vfs_inv s" and run: "resolve_path_parent_directory str s = (r, s')" and small: "vfs_small s'"
  shows "vfs_ext s s' \<and> resolves_parent s' (walk_path_parent s str) r"
proof (cases "path_from_str str")
  case (Ok p)
  note abs = require_absolute_eq [OF Ok]
  note root = root_entry [OF ok advances_small [OF advances_resolve_parent run small]]
  have count: "length (segments p) - 1 = 0 \<longleftrightarrow> tl (segments p) = []" by (cases "segments p") simp_all
  show ?thesis
  proof (cases "hd str = slash")
    case True
    show ?thesis
    proof (cases "get_root (vfs_strong s) (directory_cache s)")
      case None
      then show ?thesis
        using run root Ok True abs ok
        by (simp add: resolve_path_parent_directory_def parse_path_eq try_bind_def require_root_def ok_or_def
            walk_path_parent_def resolves_parent_def)
    next
      case (Some d)
      then have run': "(if tl (segments p) = [] then fail InvalidPath
          else resolve_parent_segments (tl (segments p)) [d]) s = (r, s')"
        using run Ok True abs count
        by (simp add: resolve_path_parent_directory_def parse_path_eq try_bind_def require_root_def
            ok_or_def drop_Suc Let_def split: if_splits)
      show ?thesis
      proof (cases "tl (segments p) = []")
        case True
        then show ?thesis
          using run' Some root Ok \<open>hd str = slash\<close> ok by (auto simp: walk_path_parent_def resolves_parent_def)
      next
        case False
        then show ?thesis
          using resolve_parent_segments_walk [of s d "tl (segments p)" r s'] run' root Some small Ok \<open>hd str = slash\<close>
          by (auto simp: walk_path_parent_def)
      qed
    qed
  qed (use run Ok abs in \<open>simp add: resolve_path_parent_directory_def parse_path_eq try_bind_def
        walk_path_parent_def resolves_parent_def\<close>)
qed (use run ok in \<open>auto simp: resolve_path_parent_directory_def parse_path_eq try_bind_def
      walk_path_parent_def resolves_parent_def\<close>)

end
