(* ===== verification/Vfs_Files.thy ===== *)
theory Vfs_Files
  imports Vfs_Resolve
begin

text \<open>
  The operations that leave the tree of names alone: references of callers, pruning the cache,
  and opening, closing, reading and writing files.
\<close>

section \<open>References of callers\<close>

lemma handles_ok:
  assumes ok: "vfs_ok ls s" and sub: "set ls' \<union> set hs \<subseteq> set ls \<union> set (handles s)"
  shows "vfs_ok ls' (s\<lparr>handles := hs\<rparr>)"
proof -
  have [simp]: "get_mount i (s\<lparr>handles := hs\<rparr>) = get_mount i s" for i by (simp add: get_mount_def)
  have [simp]: "entry (s\<lparr>handles := hs\<rparr>) d = entry s d" for d by (simp add: entry_def)
  have [simp]: "entry_node (s\<lparr>handles := hs\<rparr>) d = entry_node s d" for d by (simp add: entry_node_def)
  have "set (ls' @ vfs_strong (s\<lparr>handles := hs\<rparr>)) \<subseteq> set (ls @ vfs_strong s)"
    using sub by (auto simp: vfs_strong_def)
  then have "cache_live (ls' @ vfs_strong (s\<lparr>handles := hs\<rparr>)) (directory_cache s)"
    using cache_live_mono [OF vfs_okD(2) [OF ok]] by blast
  moreover have "tree_inv (s\<lparr>handles := hs\<rparr>)"
    by (rule tree_inv_cong [OF vfs_okD(7) [OF ok]]) simp_all
  ultimately show ?thesis
    using ok by (simp add: vfs_ok_def nodes_inv_def node_mounted_def mounts_inv_def entries_inv_def
        entry_coherent_def is_mount_root_def files_inv_def file_wf_def open_count_def)
qed

lemma handles_namespace:
  "place_at (s\<lparr>handles := hs\<rparr>) path = place_at s path"
proof -
  have "mount_place (s\<lparr>handles := hs\<rparr>) = mount_place s"
    by (simp add: fun_eq_iff mount_place_def entry_path_def entry_def)
  moreover have "place_child (s\<lparr>handles := hs\<rparr>) = place_child s" by (simp add: fun_eq_iff place_child_def split: place.split)
  ultimately show ?thesis by (induction path) (simp_all add: place_at.simps split: option.split)
qed

lemma drop_handle_ok: "vfs_inv s \<Longrightarrow> vfs_inv (drop_handle d s)"
  unfolding drop_handle_def by (rule handles_ok) (auto dest: notin_set_remove1)

section \<open>Pruning\<close>

lemma prune_ext:
  assumes "vfs_ok ls s"
  shows "vfs_ext s (prune_directory_cache s)"
  using prune_entries_facts(2) [OF vfs_okD(1) [OF assms], of "vfs_strong s"] vfs_okD(2) [OF assms]
  by (simp add: vfs_ext_def prune_directory_cache_def cache_live_def prune_def Let_def)

lemma prune_ok:
  assumes ok: "vfs_inv s"
  shows "vfs_inv (prune_directory_cache s)"
proof -
  let ?s = "prune_directory_cache s"
  note ext = prune_ext [OF ok]
  have bound: "\<forall>r \<in> set (vfs_strong s). r < length (entries (directory_cache s))"
    using vfs_okD(2) [OF ok] by (simp add: cache_live_def)
  note facts = prune_entries_facts [OF vfs_okD(1) [OF ok] bound]
  have same: "nodes ?s = nodes s" "mount_table ?s = mount_table s" by (simp_all add: prune_directory_cache_def)
  have "nodes_inv ?s"
    using vfs_okD(3) [OF ok] same by (simp add: nodes_inv_def node_mounted_def get_mount_def)
  moreover have "entries_inv ?s"
    using vfs_ext_coherent [OF ok ext] facts(1) by (simp add: entries_inv_def prune_directory_cache_def)
  moreover have "files_inv ?s" by (rule vfs_ext_files_inv [OF ok ext]) (use same in simp)
  moreover have "tree_inv ?s" by (rule vfs_ext_tree_inv [OF ok ext]) (use same in simp)
  moreover have "cache_inv (directory_cache ?s)"
    using prune_inv [OF vfs_okD(1) [OF ok] bound] by (simp add: prune_directory_cache_def)
  moreover have "cache_live (vfs_strong s) (directory_cache ?s)"
    using prune_live [OF vfs_okD(1) [OF ok]] vfs_okD(2) [OF ok] by (simp add: prune_directory_cache_def)
  ultimately show ?thesis
    using vfs_ext_mounts_inv [OF ok ext] vfs_ext_strong [OF ext] by (simp add: vfs_ok_def)
qed

section \<open>Changes of contents\<close>

text \<open>
  \<open>vfs_same s s'\<close>: nothing changed but open files, link counts and other metadata, and the bytes
  of files. Such a change keeps the namespace.
\<close>

fun same_shape :: "private_data \<Rightarrow> private_data \<Rightarrow> bool" where
  "same_shape (RamFileNode a) (RamFileNode b) = True"
| "same_shape a b \<longleftrightarrow> a = b"

definition same_node :: "fs_node \<Rightarrow> fs_node \<Rightarrow> bool" where
  "same_node a b \<longleftrightarrow> node_id b = node_id a \<and> mount_id b = mount_id a \<and> kind b = kind a
     \<and> same_shape (private_data a) (private_data b)"

definition vfs_same :: "vfs \<Rightarrow> vfs \<Rightarrow> bool" where
  "vfs_same s s' \<longleftrightarrow> directory_cache s' = directory_cache s \<and> mount_table s' = mount_table s
     \<and> mount_next s' = mount_next s \<and> handles s' = handles s \<and> char_devices s' = char_devices s
     \<and> fs_types s' = fs_types s \<and> list_all2 same_node (nodes s) (nodes s')"

lemma same_shape_refl [simp]: "same_shape d d"
  by (cases d) simp_all

lemma same_shape_trans: "same_shape a b \<Longrightarrow> same_shape b c \<Longrightarrow> same_shape a c"
  by (cases a; cases b; cases c) simp_all

lemma same_node_refl [simp]: "same_node n n"
  by (simp add: same_node_def)

lemma same_node_trans: "same_node a b \<Longrightarrow> same_node b c \<Longrightarrow> same_node a c"
  by (auto simp: same_node_def intro: same_shape_trans)

lemma vfs_same_refl [simp]: "vfs_same s s"
  by (simp add: vfs_same_def list_all2_refl)

lemma vfs_same_trans: "vfs_same a b \<Longrightarrow> vfs_same b c \<Longrightarrow> vfs_same a c"
  by (auto simp: vfs_same_def intro: list_all2_trans [OF same_node_trans])

lemma same_shape_cases:
  assumes "same_shape a b"
  shows "(\<exists>x y. a = RamFileNode x \<and> b = RamFileNode y) \<or> a = b"
  using assms by (cases a; cases b) simp_all

lemma vfs_same_node:
  assumes "vfs_same s s'"
  shows "length (nodes s') = length (nodes s)" "n < length (nodes s) \<Longrightarrow> same_node (nodes s ! n) (nodes s' ! n)"
  using assms by (auto simp: vfs_same_def list_all2_conv_all_nth)

lemma vfs_same_simps:
  assumes "vfs_same s s'"
  shows "get_mount i s' = get_mount i s" "entry s' d = entry s d" "vfs_strong s' = vfs_strong s"
    "is_mount_root s' d = is_mount_root s d" "entry_path s' d = entry_path s d" "mount_place s' = mount_place s"
    "directory_cache s' = directory_cache s" "char_devices s' = char_devices s"
  using assms by (simp_all add: vfs_same_def get_mount_def entry_def vfs_strong_def is_mount_root_def
      entry_path_def mount_place_def fun_eq_iff)

lemma vfs_same_directory:
  assumes "vfs_same s s'" "n < length (nodes s)"
  shows "is_directory (nodes s' ! n) = is_directory (nodes s ! n)"
    "fs_child (char_devices s') (nodes s') n name = fs_child (char_devices s) (nodes s) n name"
    "place_of (nodes s') n = place_of (nodes s) n"
proof -
  have same: "same_node (nodes s ! n) (nodes s' ! n)" using vfs_same_node(2) [OF assms] .
  then show "is_directory (nodes s' ! n) = is_directory (nodes s ! n)"
    by (simp add: same_node_def is_directory_def)
  have shape: "same_shape (private_data (nodes s ! n)) (private_data (nodes s' ! n))"
    using same by (simp add: same_node_def)
  show "fs_child (char_devices s') (nodes s') n name = fs_child (char_devices s) (nodes s) n name"
    "place_of (nodes s') n = place_of (nodes s) n"
    using same_shape_cases [OF shape] vfs_same_simps(8) [OF assms(1)] by (auto simp: fs_child_def place_of_def)
qed

lemma node_typed_shape: "same_shape a b \<Longrightarrow> node_typed t k b = node_typed t k a"
  by (cases a; cases b; cases t; cases k) simp_all

lemma vfs_same_nodes_inv:
  assumes ok: "vfs_ok ls s" and same: "vfs_same s s'"
  shows "nodes_inv s'"
proof -
  note sn = vfs_same_node [OF same] and ss = vfs_same_simps [OF same]
  have mounted: "node_mounted s' (nodes s' ! n) \<and> children_ok (nodes s') (nodes s' ! n)" if n: "n < length (nodes s)" for n
  proof -
    have old: "node_mounted s (nodes s ! n)" "children_ok (nodes s) (nodes s ! n)"
      using vfs_okD(3) [OF ok] n by (simp_all add: nodes_inv_def)
    have nn: "same_node (nodes s ! n) (nodes s' ! n)" using sn(2) [OF n] .
    have "node_mounted s' (nodes s' ! n)"
      using old(1) nn node_typed_shape ss(1) by (simp add: node_mounted_def same_node_def split: option.splits)
    moreover have "children_ok (nodes s') (nodes s' ! n)"
      unfolding children_ok_def
    proof (intro allI impI conjI)
      fix c name x
      assume c: "private_data (nodes s' ! n) = RamDirectoryNode c"
      then have c': "private_data (nodes s ! n) = RamDirectoryNode c"
        using nn same_shape_cases [of "private_data (nodes s ! n)" "private_data (nodes s' ! n)"]
        by (auto simp: same_node_def)
      note ch = vfs_ok_children [OF ok n c']
      show "bt_sorted c" using ch(1) .
      assume x: "bt_get name c = Some x"
      then have x_less: "x < length (nodes s)" using ch(2) by blast
      then show "x < length (nodes s')" using sn(1) by simp
      show "mount_id (nodes s' ! x) = mount_id (nodes s' ! n)"
        using ch(3) [OF x] sn(2) [OF x_less] nn by (simp add: same_node_def)
    qed
    ultimately show ?thesis ..
  qed
  have uniq: "a = b" if "a < length (nodes s)" "b < length (nodes s)" "fs_node_eq (nodes s' ! a) (nodes s' ! b)" for a b
    using that vfs_okD(3) [OF ok] sn(2) [OF that(1)] sn(2) [OF that(2)]
    by (auto simp: nodes_inv_def fs_node_eq_def same_node_def)
  show ?thesis unfolding nodes_inv_def sn(1) using mounted uniq by blast
qed

lemma vfs_same_entries_inv:
  assumes ok: "vfs_ok ls s" and same: "vfs_same s s'"
  shows "entries_inv s'"
  unfolding entries_inv_def vfs_same_simps(7) [OF same]
proof (intro allI impI)
  note sn = vfs_same_node [OF same] and ss = vfs_same_simps [OF same]
  fix d assume d: "d < length (entries (directory_cache s))"
  note coh = vfs_ok_entry [OF ok d] and vs = vfs_same_directory [OF same]
  have par: "is_directory (entry_node s' p)
      \<and> fs_child (char_devices s') (nodes s') (de_node (entry s' p)) name
        = fs_child (char_devices s) (nodes s) (de_node (entry s p)) name"
    if "de_parent (entry s d) = Some p" for p name
  proof -
    note p = vfs_ok_parent [OF ok d that]
    show ?thesis using p(3) vs [OF vfs_ok_entry(2) [OF ok p(2)]] ss(2) by (simp add: entry_node_def)
  qed
  show "entry_coherent s' d"
    using coh par ss sn(1) vs [OF coh(2)] by (auto simp: entry_coherent_def entry_node_def split: if_splits)
qed

lemma vfs_same_ok:
  assumes ok: "vfs_ok ls s" and same: "vfs_same s s'" and files: "files_inv s'"
  shows "vfs_ok ls s'"
proof -
  note sn = vfs_same_node [OF same] and ss = vfs_same_simps [OF same]
  have "mounts_inv s'"
  proof -
    have "mount_id (nodes s' ! fs_root (m_file_system m)) = mount_id (nodes s ! fs_root (m_file_system m))"
      if "get_mount i s = Some m" for i m
      using sn(2) [OF vfs_ok_mount(4) [OF ok that]] by (simp add: same_node_def)
    then show ?thesis
      using vfs_okD(4) [OF ok] ss same by (auto simp: mounts_inv_def vfs_same_def)
  qed
  moreover have "tree_inv s'"
  proof (rule tree_inv_cong [OF vfs_okD(7) [OF ok]])
    fix n name x assume n: "n < length (nodes s')" and ch: "ram_child (nodes s') n name x"
    then show "n < length (nodes s) \<and> ram_child (nodes s) n name x"
      using sn(1) sn(2) [of n] same_shape_cases [of "private_data (nodes s ! n)" "private_data (nodes s' ! n)"]
      by (auto simp: ram_child_def same_node_def)
  qed (use ss(1) in simp)
  ultimately show ?thesis using vfs_okD [OF ok] ss files vfs_same_nodes_inv [OF ok same] vfs_same_entries_inv [OF ok same] by (simp add: vfs_ok_def)
qed

lemma vfs_same_place_at:
  assumes ok: "vfs_ok ls s" and same: "vfs_same s s'"
  shows "place_at s' path = place_at s path"
proof (induction path)
  case Nil
  then show ?case using vfs_same_simps(6) [OF same] by (simp add: place_at.simps)
next
  case (Cons name up)
  have "place_child s' pl name = place_child s pl name" if "place_at s up = Some pl" for pl
    using that place_at_range [OF ok, of up] vfs_same_directory(2) [OF same] by (simp add: place_child_def split: place.split)
  then show ?case
    using Cons vfs_same_simps(6) [OF same] by (cases "place_at s up") (simp_all add: place_at.simps split: option.split)
qed

section \<open>Open files\<close>

lemma vfs_ok_files:
  assumes "vfs_ok ls s"
  shows "bt_sorted (files s)" "0 < fd_next s"
    "n < length (nodes s) \<Longrightarrow> link_count (metadata (nodes s ! n)) = Suc (open_count s n)"
  using assms by (auto simp: vfs_ok_def files_inv_def)

lemma fresh_fd:
  assumes ok: "vfs_ok ls s" and small: "fd_next s < 2 ^ 64"
  shows "bt_get (atomic_value (fd_next s)) (files s) = None" "atomic_value (fd_next s) \<noteq> FileDescriptor_NULL"
proof -
  show "bt_get (atomic_value (fd_next s)) (files s) = None"
  proof (rule ccontr)
    assume "bt_get (atomic_value (fd_next s)) (files s) \<noteq> None"
    then obtain f where "bt_get (atomic_value (fd_next s)) (files s) = Some f" by auto
    then obtain j where "j < fd_next s" "atomic_value (fd_next s) = atomic_value j"
      using vfs_ok_file(1) [OF ok] by (auto simp: file_wf_def)
    then show False using atomic_value_inj [of "fd_next s" j] small by simp
  qed
  show "atomic_value (fd_next s) \<noteq> FileDescriptor_NULL"
    using atomic_value_eq_0 [OF vfs_ok_files(2) [OF ok] small] by (simp add: FileDescriptor_NULL_def)
qed

lemma set_link_count_same: "n < length h \<Longrightarrow> list_all2 same_node h (set_link_count n k h)"
  by (auto simp: list_all2_conv_all_nth nth_set_link_count same_node_def)

definition opened :: "nref \<Rightarrow> file_mode \<Rightarrow> vfs \<Rightarrow> vfs" where
  "opened n m s = s\<lparr>nodes := set_link_count n (Suc (link_count (metadata (nodes s ! n)))) (nodes s),
     fd_next := Suc (fd_next s), files := bt_insert (atomic_value (fd_next s)) (file_new n m) (files s)\<rparr>"

lemma opened_same: "n < length (nodes s) \<Longrightarrow> vfs_same s (opened n m s)"
  by (simp add: opened_def vfs_same_def set_link_count_same)

lemma opened_ok:
  assumes ok: "vfs_ok ls s" and n: "n < length (nodes s)" and small: "fd_next s < 2 ^ 64"
    and mode: "m \<noteq> Read \<Longrightarrow> \<not> is_directory (nodes s ! n)"
  shows "vfs_ok ls (opened n m s)"
proof (rule vfs_same_ok [OF ok opened_same [OF n]])
  let ?s = "opened n m s" and ?fd = "atomic_value (fd_next s)"
  have fields: "fd_next ?s = Suc (fd_next s)" "files ?s = bt_insert ?fd (file_new n m) (files s)"
    "length (nodes ?s) = length (nodes s)" by (simp_all add: opened_def)
  have dir: "is_directory (nodes ?s ! k) = is_directory (nodes s ! k)" if "k < length (nodes s)" for k
    using vfs_same_directory(1) [OF opened_same [OF n] that] .
  have "file_wf ?s fd f" if "bt_get fd (files ?s) = Some f" for fd f
  proof (cases "fd = ?fd")
    case True
    then have "f = file_new n m" using that fields by simp
    then show ?thesis using True fields n mode dir [OF n] vfs_ok_files(2) [OF ok] by (auto simp: file_wf_def file_new_def)
  next
    case False
    then have f: "bt_get fd (files s) = Some f" using that fields by simp
    show ?thesis
      using vfs_ok_file [OF ok f] fields dir [OF vfs_ok_file(2) [OF ok f]] less_SucI by (fastforce simp: file_wf_def)
  qed
  moreover have "link_count (metadata (nodes ?s ! k)) = Suc (open_count ?s k)" if "k < length (nodes ?s)" for k
    using that vfs_ok_files(3) [OF ok] bt_count_insert [OF fresh_fd(1) [OF ok small]] n
    by (simp add: open_count_def fields) (auto simp: opened_def nth_set_link_count file_new_def)
  ultimately show "files_inv ?s" using vfs_ok_files [OF ok] fields by (simp add: files_inv_def)
qed

lemma node_file_operations_eq:
  assumes "get_mount (mount_id (nodes s ! n)) s = Some m"
  shows "node_file_operations n s = (Ok (file_system_file_operations (m_file_system m)), s)"
  using assms by (simp add: node_file_operations_def node_file_system_def try_bind_def unwrap_def)

lemma file_operations_defaults [simp]:
  "fo_open (file_system_file_operations fs) n m = ret (file_new n m)"
  "fo_flush (file_system_file_operations fs) f = ret ()"
  by (simp_all add: file_system_file_operations_def ram_file_operations_def dev_file_operations_def
      default_file_operations_def split: fs_type.split)

lemma on_nodes_ret [simp]: "on_nodes (ret x) = ret x"
  by (simp add: on_nodes_def fun_eq_iff ret_def)

lemma open_file_part:
  assumes ok: "vfs_ok ls s" and n: "n < length (nodes s)"
  shows "try_bind (on_nodes (increment_link_count n)) (\<lambda>_.
       defer_scope (on_nodes (decrement_link_count n)) (\<lambda>error_cleanup.
         try_bind (node_file_operations n) (\<lambda>ops.
         try_bind (on_nodes (fo_open ops n m)) (\<lambda>f.
         try_bind new_file_descriptor (\<lambda>fd s.
           (Ok (fd, defer_cancel error_cleanup), s\<lparr>files := bt_insert fd f (files s)\<rparr>)))))) s =
     (if link_count (metadata (nodes s ! n)) + 1 < usize_limit
      then (Ok (atomic_value (fd_next s)), opened n m s) else (Panic Overflow, s))"
proof (cases "link_count (metadata (nodes s ! n)) + 1 < usize_limit")
  case True
  let ?s1 = "s\<lparr>nodes := set_link_count n (Suc (link_count (metadata (nodes s ! n)))) (nodes s)\<rparr>"
  have inc: "(on_nodes (increment_link_count n) :: unit vfs_op) s = (Ok (), ?s1)"
    using True by (simp add: on_nodes_def increment_link_count_def try_bind_def checked_add_def)
  obtain mt where mt: "get_mount (mount_id (nodes s ! n)) s = Some mt" using vfs_ok_node [OF ok n] by blast
  then have "get_mount (mount_id (nodes ?s1 ! n)) ?s1 = Some mt"
    using n by (simp add: get_mount_def nth_set_link_count)
  note ops = node_file_operations_eq [OF this]
  show ?thesis
    using True inc ops
    by (simp add: defer_scope_def new_file_descriptor_def fetch_add_def try_bind_def opened_def)
next
  case False
  then show ?thesis by (simp add: on_nodes_def increment_link_count_def try_bind_def checked_add_def)
qed

section \<open>Closing\<close>

definition closed :: "u64 \<Rightarrow> open_file \<Rightarrow> vfs \<Rightarrow> vfs" where
  "closed fd f s = s\<lparr>files := bt_remove fd (files s),
     nodes := set_link_count (file_node f) (link_count (metadata (nodes s ! file_node f)) - 1) (nodes s)\<rparr>"

lemma vfs_close_eq:
  assumes ok: "vfs_inv s"
  shows "vfs_close fd s =
    (case bt_get fd (files s) of None \<Rightarrow> (Err InvalidFile, s) | Some f \<Rightarrow> (Ok (), closed fd f s))"
proof (cases "bt_get fd (files s)")
  case None
  then show ?thesis by (simp add: vfs_close_def get_file_def ok_or_def)
next
  case (Some f)
  note n = vfs_ok_file(2) [OF ok Some]
  obtain mt where mt: "get_mount (mount_id (nodes s ! file_node f)) s = Some mt" using vfs_ok_node [OF ok n] by blast
  show ?thesis
    using Some node_file_operations_eq [OF mt] vfs_ok_files(3) [OF ok n]
    by (simp add: vfs_close_def get_file_def ok_or_def try_bind_def on_nodes_def decrement_link_count_def
        checked_sub_def closed_def)
qed

lemma closed_same: "file_node f < length (nodes s) \<Longrightarrow> vfs_same s (closed fd f s)"
  by (simp add: closed_def vfs_same_def set_link_count_same)

lemma closed_ok:
  assumes ok: "vfs_ok ls s" and f: "bt_get fd (files s) = Some f"
  shows "vfs_ok ls (closed fd f s)"
proof -
  note n = vfs_ok_file(2) [OF ok f]
  show ?thesis
  proof (rule vfs_same_ok [OF ok closed_same [OF n]])
    let ?s = "closed fd f s"
    have fields: "fd_next ?s = fd_next s" "files ?s = bt_remove fd (files s)"
      "length (nodes ?s) = length (nodes s)" by (simp_all add: closed_def)
    have "file_wf ?s fd' f'" if "bt_get fd' (files ?s) = Some f'" for fd' f'
    proof -
      have f': "bt_get fd' (files s) = Some f'" using that fields by (simp split: if_splits)
      show ?thesis
        using vfs_ok_file [OF ok f'] fields vfs_same_directory(1) [OF closed_same [OF n] vfs_ok_file(2) [OF ok f']]
        by (simp add: file_wf_def)
    qed
    moreover have "link_count (metadata (nodes ?s ! k)) = Suc (open_count ?s k)" if "k < length (nodes ?s)" for k
      using that vfs_ok_files(3) [OF ok] bt_count_remove [OF vfs_ok_files(1) [OF ok] f, of "\<lambda>(fd, f). file_node f = k"]
      by (simp add: open_count_def fields) (auto simp: closed_def nth_set_link_count)
    ultimately show "files_inv ?s" using vfs_ok_files [OF ok] fields by (simp add: files_inv_def)
  qed
qed

section \<open>Reading and writing\<close>

text \<open>A position moved and bytes of files changed: what \<open>read\<close> and \<open>write\<close> do.\<close>

definition moved :: "u64 \<Rightarrow> open_file \<Rightarrow> usize \<Rightarrow> node_heap \<Rightarrow> vfs \<Rightarrow> vfs" where
  "moved fd f p h s = s\<lparr>nodes := h, files := bt_insert fd (f\<lparr>position := p\<rparr>) (files s)\<rparr>"

lemma moved_ok:
  assumes ok: "vfs_ok ls s" and f: "bt_get fd (files s) = Some f"
    and h: "list_all2 same_node (nodes s) h"
    and lc: "\<And>k. k < length h \<Longrightarrow> link_count (metadata (h ! k)) = link_count (metadata (nodes s ! k))"
  shows "vfs_ok ls (moved fd f p h s)"
proof -
  let ?s = "moved fd f p h s"
  have same: "vfs_same s ?s" using h by (simp add: vfs_same_def moved_def)
  show ?thesis
  proof (rule vfs_same_ok [OF ok same])
    have fields: "fd_next ?s = fd_next s" "files ?s = bt_insert fd (f\<lparr>position := p\<rparr>) (files s)"
      "nodes ?s = h" "length h = length (nodes s)" using list_all2_lengthD [OF h] by (simp_all add: moved_def)
    have "file_wf ?s fd' f'" if get: "bt_get fd' (files ?s) = Some f'" for fd' f'
    proof -
      obtain f'' where f'': "bt_get fd' (files s) = Some f''" "file_node f' = file_node f''" "mode f' = mode f''"
        using get fields f by (auto split: if_splits)
      show ?thesis
        using vfs_ok_file [OF ok f''(1)] f'' fields vfs_same_directory(1) [OF same vfs_ok_file(2) [OF ok f''(1)]]
        by (simp add: file_wf_def)
    qed
    moreover have "link_count (metadata (nodes ?s ! k)) = Suc (open_count ?s k)" if "k < length (nodes ?s)" for k
      using that vfs_ok_files(3) [OF ok, of k] lc [of k] fields
        bt_count_replace [OF vfs_ok_files(1) [OF ok] f, of "\<lambda>(fd, f). file_node f = k" "f\<lparr>position := p\<rparr>"]
      by (simp add: open_count_def)
    ultimately show "files_inv ?s" using vfs_ok_files [OF ok] fields by (simp add: files_inv_def)
  qed
qed

text \<open>The two kinds of file that are not directories, and how the drivers serve them.\<close>

lemma file_node_cases:
  assumes ok: "vfs_ok ls s" and n: "n < length (nodes s)" "\<not> is_directory (nodes s ! n)"
  obtains (ram) data where "private_data (nodes s ! n) = RamFileNode data" "kind (nodes s ! n) = File"
      "node_file_operations n s = (Ok ram_file_operations, s)"
  | (dev) d where "private_data (nodes s ! n) = CharDeviceData d" "kind (nodes s ! n) = CharDevice"
      "node_file_operations n s = (Ok dev_file_operations, s)"
proof -
  obtain m where m: "get_mount (mount_id (nodes s ! n)) s = Some m"
    "node_typed (mount_type m) (kind (nodes s ! n)) (private_data (nodes s ! n))"
    using vfs_ok_node [OF ok n(1)] by blast
  note ops = node_file_operations_eq [OF m(1)]
  show ?thesis
    using m(2) n(2) ops
    by (cases "mount_type m"; cases "kind (nodes s ! n)"; cases "private_data (nodes s ! n)")
      (simp_all add: is_directory_def mount_type_ops ram dev)
qed

lemma ram_ops [simp]: "fo_read ram_file_operations = ram_read" "fo_write ram_file_operations = ram_write"
  by (simp_all add: ram_file_operations_def)

lemma dev_ops [simp]: "fo_read dev_file_operations = dev_read" "fo_write dev_file_operations = dev_write"
  by (simp_all add: dev_file_operations_def)

lemma dev_device:
  assumes "kind (h ! file_node f) = CharDevice" "private_data (h ! file_node f) = CharDeviceData d"
  shows "dev_read f off buf h = fo_read (char_device_file_operations d) f off buf h"
    "dev_write f off buf h = fo_write (char_device_file_operations d) f off buf h"
  using assms by (simp_all add: dev_read_def dev_write_def data_as_char_device_def)

lemma device_read:
  "fo_read (char_device_file_operations d) f off buf h =
     (case d of NullDevice \<Rightarrow> (Err OperationNotSupported, h)
      | ZeroDevice \<Rightarrow> (Ok (length buf, replicate (length buf) 0), h))"
  "fo_write (char_device_file_operations d) f off buf h =
     (case d of NullDevice \<Rightarrow> (Ok (length buf), h) | ZeroDevice \<Rightarrow> (Err OperationNotSupported, h))"
  by (cases d; simp add: default_file_operations_def null_write_def zero_read_def)+

definition file_bytes :: "vfs \<Rightarrow> nref \<Rightarrow> u8 list option" where
  "file_bytes s n = (case private_data (nodes s ! n) of RamFileNode d \<Rightarrow> Some d | _ \<Rightarrow> None)"

lemma advance_position_eq:
  "advance_position fd f n s =
     (if position f + n < usize_limit
      then (Ok (), s\<lparr>files := bt_insert fd (f\<lparr>position := position f + n\<rparr>) (files s)\<rparr>)
      else (Panic Overflow, s))"
  by (simp add: advance_position_def try_bind_def checked_add_def)

lemma moved_same_nodes: "s\<lparr>files := bt_insert fd (f\<lparr>position := p\<rparr>) (files s)\<rparr> = moved fd f p (nodes s) s"
  by (simp add: moved_def)

text \<open>What \<open>read\<close> and \<open>write\<close> do on a file, a device, and on descriptors that do not allow them.\<close>

lemma vfs_read_no_file: "bt_get fd (files s) = None \<Longrightarrow> vfs_read fd buf s = (Err InvalidFile, s)"
  by (simp add: vfs_read_def get_file_def ok_or_def)

lemma vfs_write_no_file: "bt_get fd (files s) = None \<Longrightarrow> vfs_write fd buf s = (Err InvalidFile, s)"
  by (simp add: vfs_write_def get_file_def ok_or_def)

lemma vfs_read_directory_file:
  "bt_get fd (files s) = Some f \<Longrightarrow> is_directory (nodes s ! file_node f) \<Longrightarrow> vfs_read fd buf s = (Panic Assert, s)"
  by (simp add: vfs_read_def get_file_def ok_or_def try_bind_def asserting_def is_directory_def)

lemma vfs_write_directory_file:
  "bt_get fd (files s) = Some f \<Longrightarrow> is_directory (nodes s ! file_node f) \<Longrightarrow> vfs_write fd buf s = (Panic Assert, s)"
  by (simp add: vfs_write_def get_file_def ok_or_def try_bind_def asserting_def is_directory_def)

lemma vfs_read_wrong_mode:
  "bt_get fd (files s) = Some f \<Longrightarrow> \<not> is_directory (nodes s ! file_node f) \<Longrightarrow> mode f \<noteq> Read \<Longrightarrow>
     vfs_read fd buf s = (Err InvalidMode, s)"
  by (simp add: vfs_read_def get_file_def ok_or_def try_bind_def asserting_def is_directory_def)

lemma vfs_write_wrong_mode:
  "bt_get fd (files s) = Some f \<Longrightarrow> \<not> is_directory (nodes s ! file_node f) \<Longrightarrow> mode f \<noteq> Write \<Longrightarrow>
     vfs_write fd buf s = (Err InvalidMode, s)"
  by (simp add: vfs_write_def get_file_def ok_or_def try_bind_def asserting_def is_directory_def)

lemma vfs_read_file:
  fixes buf :: "u8 list"
  assumes ok: "vfs_ok ls s" and f: "bt_get fd (files s) = Some f" "mode f = Read"
    and data: "private_data (nodes s ! file_node f) = RamFileNode data"
  defines "n \<equiv> min (length buf) (length data - position f)"
  shows "vfs_read fd buf s =
    (if position f + n < usize_limit
     then (Ok (n, take n (drop (position f) data) @ drop n buf), moved fd f (position f + n) (nodes s) s)
     else (Panic Overflow, s))"
proof -
  have kind: "\<not> is_directory (nodes s ! file_node f)"
    using directory_data [OF ok vfs_ok_file(2) [OF ok f(1)]] data by (metis private_data.distinct(1,7))
  show ?thesis
  proof (rule file_node_cases [OF ok vfs_ok_file(2) [OF ok f(1)] kind])
    fix data'
    assume "node_file_operations (file_node f) s = (Ok ram_file_operations, s)"
    then show ?thesis
      using f kind ram_read_bytes [OF data, of "position f" buf]
      by (simp add: vfs_read_def get_file_def ok_or_def try_bind_def asserting_def is_directory_def
          on_nodes_def advance_position_eq moved_same_nodes Let_def n_def)
  next
    fix d assume "private_data (nodes s ! file_node f) = CharDeviceData d"
    then show ?thesis using data by simp
  qed
qed

lemma vfs_write_file:
  assumes ok: "vfs_ok ls s" and f: "bt_get fd (files s) = Some f" "mode f = Write"
    and data: "private_data (nodes s ! file_node f) = RamFileNode data"
  shows "vfs_write fd buf s =
    (if position f + length buf < usize_limit
     then (Ok (length buf), moved fd f (position f + length buf)
        (set_private_data (file_node f) (RamFileNode (write_at (position f) buf data)) (nodes s)) s)
     else (Panic Overflow, s))"
proof -
  have kind: "\<not> is_directory (nodes s ! file_node f)"
    using directory_data [OF ok vfs_ok_file(2) [OF ok f(1)]] data by (metis private_data.distinct(1,7))
  show ?thesis
  proof (rule file_node_cases [OF ok vfs_ok_file(2) [OF ok f(1)] kind])
    fix data'
    assume "node_file_operations (file_node f) s = (Ok ram_file_operations, s)"
    then show ?thesis
      using f kind ram_write_bytes [OF data, of "position f" buf] ram_write_overflow [OF data, of "position f" buf]
      by (simp add: vfs_write_def get_file_def ok_or_def try_bind_def asserting_def is_directory_def
          on_nodes_def advance_position_eq moved_def)
  next
    fix d assume "private_data (nodes s ! file_node f) = CharDeviceData d"
    then show ?thesis using data by simp
  qed
qed

lemma vfs_read_device:
  assumes ok: "vfs_ok ls s" and f: "bt_get fd (files s) = Some f" "mode f = Read"
    and dev: "private_data (nodes s ! file_node f) = CharDeviceData d"
  shows "vfs_read fd buf s =
    (case d of
       NullDevice \<Rightarrow> (Err OperationNotSupported, s)
     | ZeroDevice \<Rightarrow> if position f + length buf < usize_limit
         then (Ok (length buf, replicate (length buf) 0), moved fd f (position f + length buf) (nodes s) s)
         else (Panic Overflow, s))"
proof -
  have kind: "\<not> is_directory (nodes s ! file_node f)"
    using directory_data [OF ok vfs_ok_file(2) [OF ok f(1)]] dev by (metis private_data.distinct(5,11))
  show ?thesis
  proof (rule file_node_cases [OF ok vfs_ok_file(2) [OF ok f(1)] kind])
    fix d'
    assume "kind (nodes s ! file_node f) = CharDevice" "node_file_operations (file_node f) s = (Ok dev_file_operations, s)"
    then show ?thesis
      using f kind dev_device(1) [OF _ dev, of "position f" buf, unfolded device_read]
      by (cases d) (simp_all add: vfs_read_def get_file_def ok_or_def try_bind_def asserting_def is_directory_def
          on_nodes_def advance_position_eq moved_def)
  next
    fix data assume "private_data (nodes s ! file_node f) = RamFileNode data"
    then show ?thesis using dev by simp
  qed
qed

lemma vfs_write_device:
  assumes ok: "vfs_ok ls s" and f: "bt_get fd (files s) = Some f" "mode f = Write"
    and dev: "private_data (nodes s ! file_node f) = CharDeviceData d"
  shows "vfs_write fd buf s =
    (case d of
       ZeroDevice \<Rightarrow> (Err OperationNotSupported, s)
     | NullDevice \<Rightarrow> if position f + length buf < usize_limit
         then (Ok (length buf), moved fd f (position f + length buf) (nodes s) s)
         else (Panic Overflow, s))"
proof -
  have kind: "\<not> is_directory (nodes s ! file_node f)"
    using directory_data [OF ok vfs_ok_file(2) [OF ok f(1)]] dev by (metis private_data.distinct(5,11))
  show ?thesis
  proof (rule file_node_cases [OF ok vfs_ok_file(2) [OF ok f(1)] kind])
    fix d'
    assume "kind (nodes s ! file_node f) = CharDevice" "node_file_operations (file_node f) s = (Ok dev_file_operations, s)"
    then show ?thesis
      using f kind dev_device(2) [OF _ dev, of "position f" buf, unfolded device_read]
      by (cases d) (simp_all add: vfs_write_def get_file_def ok_or_def try_bind_def asserting_def is_directory_def
          on_nodes_def advance_position_eq moved_def)
  next
    fix data assume "private_data (nodes s ! file_node f) = RamFileNode data"
    then show ?thesis using dev by simp
  qed
qed

end
