(* ===== verification/Vfs_Create.thy ===== *)
theory Vfs_Create
  imports Vfs_Files
begin

text \<open>
  Adding an entry: the drivers' create methods and the insertion into the cache, and how they
  change the namespace.
\<close>

section \<open>Creating entries\<close>

lemma walk_parent_directory:
  assumes "directory_at s up" "walk_parent s segs up = Ok (up', name)"
  shows "directory_at s up'"
  using assms by (induction s segs up rule: walk_parent.induct) (auto split: if_splits)

lemma walk_none_parent:
  assumes "walk s segs up = Ok None" "walk_parent s segs up = Ok (up', name)"
  shows "place_at s (name # up') = None"
  using assms by (induction s segs up rule: walk_parent.induct) (auto split: if_splits)

lemma walk_path_none_parent:
  assumes none: "walk_path s str = Ok None" and par: "walk_path_parent s str = Ok (up, name)"
    and root: "directory_at s []"
  shows "place_at s (name # up) = None" "directory_at s up"
proof -
  obtain p where p: "path_from_str str = Ok p"
    using none by (cases "path_from_str str") (simp_all add: walk_path_def)
  have "walk s (tl (segments p)) [] = Ok None" "walk_parent s (tl (segments p)) [] = Ok (up, name)"
    using none par p by (auto simp: walk_path_def walk_path_parent_def split: if_splits)
  then show "place_at s (name # up) = None" "directory_at s up"
    using walk_none_parent walk_parent_directory root by blast+
qed

lemma root_is_directory:
  assumes ok: "vfs_ok ls s" and root: "place_at s [] \<noteq> None"
  shows "directory_at s []"
proof -
  obtain d where "is_mount_root s d" "place_at s [] = Some (Node (de_node (entry s d)))"
    using root mount_place_Some [OF ok] by (auto simp: place_at.simps)
  then show ?thesis
    using mount_root_alive(3) [OF ok] by (simp add: directory_at_def place_is_directory_def entry_node_def)
qed

text \<open>
  What holds when a name is about to be created: the parent is a directory, and the name is
  taken neither by a driver, nor by a mount, nor by an entry of the cache.
\<close>

definition free_name :: "vfs \<Rightarrow> dref \<Rightarrow> string \<Rightarrow> bool" where
  "free_name s p name \<longleftrightarrow> vfs_ok [p] s \<and> is_directory (entry_node s p)
     \<and> place_at s (name # entry_path s p) = None"

lemma resolve_for_create:
  assumes ok: "vfs_inv s" and r1: "resolve_path str s = (Ok None, s1)"
    and r2: "resolve_path_parent_directory str s1 = (Ok (p, name), s2)" and small: "vfs_small s2"
  shows "vfs_ext s s2" "free_name s2 p name" "walk_path_parent s str = Ok (entry_path s2 p, name)"
proof -
  have small1: "vfs_small s1" using advances_small [OF advances_resolve_parent r2 small] .
  note w1 = resolve_path_walk [OF ok r1 small1]
  then have ext1: "vfs_ext s s1" and none: "walk_path s str = Ok None" and ok1: "vfs_inv s1"
    by (auto simp: resolves_def split: outcome.splits option.splits)
  note w2 = resolve_path_parent_walk [OF ok1 r2 small]
  then have ext2: "vfs_ext s1 s2" by blast
  have same: "walk_path_parent s1 str = walk_path_parent s str"
    using walk_path_ext(2) [OF ok ext1] .
  show par: "walk_path_parent s str = Ok (entry_path s2 p, name)"
    using w2 same by (auto simp: resolves_parent_def split: outcome.splits)
  have okp: "vfs_ok [p] s2" using w2 by (auto simp: resolves_parent_def split: outcome.splits)
  show ext: "vfs_ext s s2" using vfs_ext_trans [OF ext1 ext2] .
  have root: "directory_at s []"
  proof (rule root_is_directory [OF ok])
    show "place_at s [] \<noteq> None"
      using par by (auto simp: walk_path_parent_def split: outcome.splits if_splits)
  qed
  note facts = walk_path_none_parent [OF none par root]
  show "free_name s2 p name"
    using okp facts place_at_ext [OF ok ext] directory_at_ext [OF ok ext] place_at_local(2) [OF okp, of p]
    by (simp add: free_name_def)
qed

lemma free_name_no_child:
  assumes free: "free_name s p name" and small: "vfs_small s"
  shows "no_live_child [p] s p name" "fs_child (char_devices s) (nodes s) (de_node (entry s p)) name = None"
    "de_node (entry s p) < length (nodes s)" "is_directory (nodes s ! de_node (entry s p))"
proof -
  have ok: "vfs_ok [p] s" and dir: "is_directory (entry_node s p)" and none: "place_at s (name # entry_path s p) = None"
    using free by (simp_all add: free_name_def)
  have p: "p < length (entries (directory_cache s))" using vfs_ok_local [OF ok, of p] by simp
  have al: "alive ([p] @ vfs_strong s) (entries (directory_cache s)) p" by (rule alive_member) simp
  show n: "de_node (entry s p) < length (nodes s)" using vfs_ok_entry(2) [OF ok p] .
  show dir': "is_directory (nodes s ! de_node (entry s p))" using dir by (simp add: entry_node_def)
  have "place_at s (entry_path s p) = Some (Node (de_node (entry s p)))"
    using place_at_entry [OF ok al] directory_place [OF ok n dir'] by simp
  then show "fs_child (char_devices s) (nodes s) (de_node (entry s p)) name = None"
    using none by (simp add: place_at.simps place_child_def split: option.splits)
  show "no_live_child [p] s p name"
  proof (rule ccontr)
    assume "\<not> no_live_child [p] s p name"
    then obtain d where "cache_lookup ([p] @ vfs_strong s) p name (directory_cache s) = Some d"
      by (auto simp: no_live_child_def)
    then have d: "alive ([p] @ vfs_strong s) (entries (directory_cache s)) d"
      "de_parent (entry s d) = Some p" "de_name (entry s d) = name"
      using vfs_cache_lookup_iff [OF ok small p] by blast+
    have "entry_path s d = name # entry_path s p"
      using ancestors_chain(2) [OF ok vfs_ok_alive_bound [OF ok d(1)] d(2)] d(3) by simp
    then show False using place_at_entry [OF ok d(1)] none by simp
  qed
qed

text \<open>A ramfs directory gets a new child.\<close>

definition with_child :: "nref \<Rightarrow> string \<Rightarrow> nref \<Rightarrow> (string, nref) btree_map \<Rightarrow> vfs \<Rightarrow> vfs" where
  "with_child n name x c s = s\<lparr>nodes := set_private_data n (RamDirectoryNode (bt_insert name x c)) (nodes s)\<rparr>"

lemma with_child_fields [simp]:
  "files (with_child n name x c s) = files s" "mount_table (with_child n name x c s) = mount_table s"
  "directory_cache (with_child n name x c s) = directory_cache s" "handles (with_child n name x c s) = handles s"
  "mount_next (with_child n name x c s) = mount_next s" "fd_next (with_child n name x c s) = fd_next s"
  "char_devices (with_child n name x c s) = char_devices s" "fs_types (with_child n name x c s) = fs_types s"
  "length (nodes (with_child n name x c s)) = length (nodes s)"
  "get_mount i (with_child n name x c s) = get_mount i s" "entry (with_child n name x c s) d = entry s d"
  "vfs_strong (with_child n name x c s) = vfs_strong s"
  "entry_path (with_child n name x c s) d = entry_path s d"
  by (simp_all add: with_child_def get_mount_def entry_def vfs_strong_def entry_path_def)

lemma with_child_node:
  assumes "k < length (nodes s)"
  shows "nodes (with_child n name x c s) ! k =
    (if k = n then (nodes s ! n)\<lparr>private_data := RamDirectoryNode (bt_insert name x c)\<rparr> else nodes s ! k)"
  using assms by (simp add: with_child_def nth_set_private_data)

lemma with_child_fs_child:
  assumes "n < length (nodes s)" "private_data (nodes s ! n) = RamDirectoryNode c" "k < length (nodes s)"
  shows "fs_child (char_devices s) (nodes (with_child n name x c s)) k name' =
    (if k = n \<and> name' = name then Some (Node x) else fs_child (char_devices s) (nodes s) k name')"
  using assms by (auto simp: fs_child_def with_child_node)

lemma with_child_place:
  assumes "n < length (nodes s)" "private_data (nodes s ! n) = RamDirectoryNode c" "k < length (nodes s)"
  shows "place_of (nodes (with_child n name x c s)) k = place_of (nodes s) k"
    "is_directory (nodes (with_child n name x c s) ! k) = is_directory (nodes s ! k)"
  using assms by (simp_all add: place_of_def with_child_node is_directory_def)

lemma with_child_ids:
  assumes "k < length (nodes s)"
  shows "mount_id (nodes (with_child n name x c s) ! k) = mount_id (nodes s ! k)"
    "node_id (nodes (with_child n name x c s) ! k) = node_id (nodes s ! k)"
    "metadata (nodes (with_child n name x c s) ! k) = metadata (nodes s ! k)"
  using with_child_node [OF assms] by simp_all

lemma with_child_children_ok:
  assumes ok: "vfs_ok ls s" and n: "n < length (nodes s)" "private_data (nodes s ! n) = RamDirectoryNode c"
    and x: "x < length (nodes s)" "mount_id (nodes s ! x) = mount_id (nodes s ! n)" and k: "k < length (nodes s)"
  shows "children_ok (nodes (with_child n name x c s)) (nodes (with_child n name x c s) ! k)"
  unfolding children_ok_def
proof (intro allI impI conjI)
  let ?s = "with_child n name x c s"
  note node = with_child_node [OF k, of n name x c] and ids = with_child_ids(1) [of _ s n name x c]
  fix c' name' y
  assume c': "private_data (nodes ?s ! k) = RamDirectoryNode c'"
  have srt: "bt_sorted c" using vfs_ok_children(1) [OF ok n] .
  show "bt_sorted c'"
    using c' node srt vfs_ok_children(1) [OF ok k] by (auto split: if_splits)
  assume y: "bt_get name' c' = Some y"
  have "y < length (nodes s) \<and> mount_id (nodes s ! y) = mount_id (nodes s ! k)"
  proof (cases "k = n")
    case True
    then show ?thesis
      using c' node y x vfs_ok_children(2,3) [OF ok n, of name' y] by (auto split: if_splits)
  next
    case False
    then show ?thesis using c' node y vfs_ok_children(2,3) [OF ok k] by simp
  qed
  then show "y < length (nodes ?s)" "mount_id (nodes ?s ! y) = mount_id (nodes ?s ! k)"
    using ids [OF k] ids [of y] by simp_all
qed

lemma with_child_nodes_inv:
  assumes ok: "vfs_ok ls s" and n: "n < length (nodes s)" "private_data (nodes s ! n) = RamDirectoryNode c"
    and x: "x < length (nodes s)" "mount_id (nodes s ! x) = mount_id (nodes s ! n)"
  shows "nodes_inv (with_child n name x c s)"
proof -
  let ?s = "with_child n name x c s"
  have "node_mounted ?s (nodes ?s ! k)" if k: "k < length (nodes s)" for k
  proof -
    note node = with_child_node [OF k, of n name x c]
    obtain m where m: "get_mount (mount_id (nodes s ! k)) s = Some m"
      "node_typed (mount_type m) (kind (nodes s ! k)) (private_data (nodes s ! k))"
      "node_id (nodes s ! k) < inner (next_node_id (m_file_system m))"
      using vfs_ok_node [OF ok k] by blast
    have "node_typed (mount_type m) (kind (nodes s ! k)) (private_data (nodes ?s ! k))"
      using m(2) n(2) node by (cases "mount_type m"; cases "kind (nodes s ! k)") auto
    then show ?thesis using m node by (simp add: node_mounted_def split: if_splits)
  qed
  then show ?thesis
    using vfs_okD(3) [OF ok] with_child_ids with_child_children_ok [OF ok n x]
    by (simp add: nodes_inv_def fs_node_eq_def)
qed

lemma with_child_entries_inv:
  assumes ok: "vfs_ok ls s" and n: "n < length (nodes s)" "private_data (nodes s ! n) = RamDirectoryNode c"
    and free: "bt_get name c = None"
  shows "entries_inv (with_child n name x c s)"
  unfolding entries_inv_def with_child_fields
proof (intro allI impI)
  let ?s = "with_child n name x c s"
  fix d assume d: "d < length (entries (directory_cache s))"
  note coh = vfs_ok_entry [OF ok d]
  have root: "is_mount_root ?s d = is_mount_root s d" by (simp add: is_mount_root_def)
  have par: "is_directory (entry_node ?s p)
      \<and> (fs_child (char_devices s) (nodes s) (de_node (entry s p)) nm = Some pl \<longrightarrow>
         fs_child (char_devices s) (nodes ?s) (de_node (entry s p)) nm = Some pl)"
    if "de_parent (entry s d) = Some p" for p nm pl
  proof -
    note p = vfs_ok_parent [OF ok d that]
    have "fs_child (char_devices s) (nodes s) n name = None" using n free by (simp add: fs_child_def)
    then show ?thesis
      using p(3) with_child_place(2) [OF n vfs_ok_entry(2) [OF ok p(2)]]
        with_child_fs_child [OF n vfs_ok_entry(2) [OF ok p(2)]]
      by (auto simp: entry_node_def)
  qed
  show "entry_coherent ?s d"
    using coh root par with_child_place [OF n coh(2)]
    by (auto simp: entry_coherent_def entry_node_def split: if_splits)
qed

lemma with_child_tree_inv:
  assumes ok: "vfs_ok ls s" and n: "n < length (nodes s)" "private_data (nodes s ! n) = RamDirectoryNode c"
    and new: "\<And>a na. a < length (nodes s) \<Longrightarrow> \<not> ram_child (nodes s) a na x"
      "\<And>i m. get_mount i s = Some m \<Longrightarrow> fs_root (m_file_system m) \<noteq> x"
  shows "tree_inv (with_child n name x c s)"
proof -
  let ?s = "with_child n name x c s"
  have ch: "ram_child (nodes ?s) a na y \<longleftrightarrow> (if a = n \<and> na = name then y = x else ram_child (nodes s) a na y)"
    if "a < length (nodes s)" for a na y
    using with_child_node [OF that, of n name x c] n by (auto simp: ram_child_def)
  have "a = b \<and> na = nb" if "a < length (nodes s)" "b < length (nodes s)"
      "ram_child (nodes ?s) a na y" "ram_child (nodes ?s) b nb y" for a na b nb y
    using that ch new(1) vfs_okD(7) [OF ok] unfolding tree_inv_def by (metis (full_types))
  moreover have "\<not> ram_child (nodes ?s) a na (fs_root (m_file_system m))"
    if "a < length (nodes s)" "get_mount i s = Some m" for a na i m
    using that ch new(2) [OF that(2)] vfs_okD(7) [OF ok] unfolding tree_inv_def by (metis (full_types))
  ultimately show ?thesis unfolding tree_inv_def with_child_fields by blast
qed

lemma with_child_ok:
  assumes ok: "vfs_ok ls s" and n: "n < length (nodes s)" "private_data (nodes s ! n) = RamDirectoryNode c"
    and free: "bt_get name c = None"
    and x: "x < length (nodes s)" "mount_id (nodes s ! x) = mount_id (nodes s ! n)"
    and new: "\<And>a na. a < length (nodes s) \<Longrightarrow> \<not> ram_child (nodes s) a na x"
      "\<And>i m. get_mount i s = Some m \<Longrightarrow> fs_root (m_file_system m) \<noteq> x"
  shows "vfs_ok ls (with_child n name x c s)"
proof -
  let ?s = "with_child n name x c s"
  have "mounts_inv ?s"
    using vfs_okD(4) [OF ok] vfs_ok_mount(4) [OF ok] with_child_ids(1) by (auto simp: mounts_inv_def)
  moreover have "files_inv ?s"
  proof -
    have "file_wf ?s fd f" if "bt_get fd (files s) = Some f" for fd f
      using vfs_ok_file [OF ok that] with_child_place(2) [OF n vfs_ok_file(2) [OF ok that]] by (simp add: file_wf_def)
    then show ?thesis
      using vfs_okD(6) [OF ok] with_child_ids(3) by (simp add: files_inv_def open_count_def)
  qed
  ultimately show ?thesis
    using vfs_okD(1,2) [OF ok] with_child_nodes_inv [OF ok n x] with_child_entries_inv [OF ok n free]
      with_child_tree_inv [OF ok n new] by (simp add: vfs_ok_def)
qed

section \<open>Different paths, different nodes\<close>

lemma fs_child_ram_child:
  "fs_child cds h n name = Some (Node x) \<longleftrightarrow> ram_child h n name x"
  by (auto simp: fs_child_def ram_child_def split: private_data.split)

text \<open>A node is at a path because it is mounted there, or because it is a child there.\<close>

lemma place_at_node:
  assumes ok: "vfs_ok ls s" and at: "place_at s path = Some (Node n)"
  obtains (mount) d i m where "is_mount_root s d" "entry_path s d = path" "de_node (entry s d) = n"
      "get_mount i s = Some m" "m_root m = d" "fs_root (m_file_system m) = n"
  | (child) name up a where "path = name # up" "mount_place s path = None" "place_at s up = Some (Node a)"
      "ram_child (nodes s) a name n" "a < length (nodes s)"
proof (cases "mount_place s path")
  case (Some pl)
  then have "pl = Node n" using place_at_mount [OF Some] at by simp
  then obtain d where d: "is_mount_root s d" "entry_path s d = path" "de_node (entry s d) = n"
    using Some mount_place_Some [OF ok] by auto
  then obtain i m where m: "get_mount i s = Some m" "m_root m = d" by (auto simp: is_mount_root_def)
  then show ?thesis using mount [OF d m] vfs_ok_mount(3) [OF ok m(1)] d(3) by simp
next
  case None
  then obtain name up where path: "path = name # up" using at by (cases path) (auto simp: place_at.simps)
  then obtain a where a: "place_at s up = Some (Node a)" "ram_child (nodes s) a name n"
    using at None by (auto simp: place_at.simps bind_eq_Some_conv place_child_Some fs_child_ram_child)
  then show ?thesis using child [OF path None a] place_at_range [OF ok a(1)] by blast
qed

lemma tree_root:
  assumes "vfs_ok ls s" "get_mount i s = Some m" "a < length (nodes s)"
  shows "\<not> ram_child (nodes s) a na (fs_root (m_file_system m))"
  using vfs_okD(7) [OF assms(1)] assms(2,3) by (simp add: tree_inv_def)

lemma tree_child:
  assumes "vfs_ok ls s" "ram_child (nodes s) a na x" "ram_child (nodes s) b nb x"
    and "a < length (nodes s)" "b < length (nodes s)"
  shows "a = b \<and> na = nb"
  using vfs_okD(7) [OF assms(1)] assms(2-5) unfolding tree_inv_def by blast

lemma place_at_inj:
  assumes ok: "vfs_ok ls s"
  shows "place_at s P = Some (Node n) \<Longrightarrow> place_at s Q = Some (Node n) \<Longrightarrow> P = Q"
proof (induction P arbitrary: Q n)
  case (Cons x xs)
  from ok Cons.prems(1) show ?case
  proof (cases rule: place_at_node)
    case P: (mount d i m)
    from ok Cons.prems(2) show ?thesis
    proof (cases rule: place_at_node)
      case Q: (mount d' i' m')
      have "i = i'" using vfs_ok_mount(5) [OF ok P(4)] vfs_ok_mount(5) [OF ok Q(4)] P(6) Q(6) by simp
      then show ?thesis using P Q by simp
    next
      case Q: (child name up a)
      then show ?thesis using tree_root [OF ok P(4) Q(5)] P(6) by simp
    qed
  next
    case P: (child name up a)
    from ok Cons.prems(2) show ?thesis
    proof (cases rule: place_at_node)
      case Q: (mount d' i' m')
      then show ?thesis using tree_root [OF ok Q(4) P(5)] P(4) by simp
    next
      case Q: (child name' up' a')
      have "a = a' \<and> name = name'" using tree_child [OF ok P(4) Q(4) P(5) Q(5)] .
      then show ?thesis using Cons.IH [of a up'] P Q by simp
    qed
  qed
next
  case Nil
  from ok Nil.prems(1) show ?case
  proof (cases rule: place_at_node)
    case P: (mount d i m)
    from ok Nil.prems(2) show ?thesis
    proof (cases rule: place_at_node)
      case Q: (mount d' i' m')
      have "i = i'" using vfs_ok_mount(5) [OF ok P(4)] vfs_ok_mount(5) [OF ok Q(4)] P(6) Q(6) by simp
      then show ?thesis using P Q by simp
    next
      case Q: (child name up a)
      then show ?thesis using tree_root [OF ok P(4) Q(5)] P(6) by simp
    qed
  qed simp
qed

section \<open>The namespace after a creation\<close>

lemma with_child_mount_place: "mount_place (with_child n name x c s) = mount_place s"
  by (simp add: mount_place_def fun_eq_iff)

text \<open>The new node has no children and is nowhere else; so one path is added and no other changes.\<close>

lemma with_child_place_at:
  assumes ok: "vfs_ok ls s" and at: "place_at s up = Some (Node n)" "place_at s (name # up) = None"
    and n: "n < length (nodes s)" "private_data (nodes s ! n) = RamDirectoryNode c"
    and x: "x < length (nodes s)" "\<And>nm. fs_child (char_devices s) (nodes s) x nm = None" "x \<noteq> n"
  shows "place_at (with_child n name x c s) path =
    (if path = name # up then Some (Node x) else place_at s path)"
proof (induction path)
  case Nil
  then show ?case by (simp add: place_at.simps with_child_mount_place)
next
  case (Cons nm path)
  let ?s = "with_child n name x c s"
  show ?case
  proof (cases "mount_place s (nm # path)")
    case (Some pl)
    then show ?thesis
      using at(2) by (auto simp: place_at.simps with_child_mount_place)
  next
    case None
    have child: "place_child ?s pl nm = (if pl = Node n \<and> nm = name then Some (Node x) else place_child s pl nm)"
      if "\<And>k. pl = Node k \<Longrightarrow> k < length (nodes s)" for pl
      using that with_child_fs_child [OF n] by (cases pl) (auto simp: place_child_def)
    show ?thesis
    proof (cases "path = name # up")
      case True
      have "place_at s (nm # path) = None" using True at(2) None by (simp add: place_at.simps)
      moreover have "place_child ?s (Node x) nm = None"
        using child [of "Node x"] x by (auto simp: place_child_def)
      ultimately show ?thesis using True Cons None by (simp add: place_at.simps with_child_mount_place)
    next
      case False
      then have eq: "place_at ?s path = place_at s path" using Cons by simp
      show ?thesis
      proof (cases "place_at s path")
        case None': None
        then have "nm # path \<noteq> name # up" using at(1) by auto
        then show ?thesis using None' eq None by (simp add: place_at.simps with_child_mount_place)
      next
        case (Some pl)
        have "pl = Node n \<longleftrightarrow> path = up"
          using place_at_inj [OF ok, of path n up] Some at(1) by auto
        moreover have "\<And>k. pl = Node k \<Longrightarrow> k < length (nodes s)"
          using place_at_range [OF ok] Some by blast
        ultimately show ?thesis
          using Some eq None child [of pl] by (auto simp: place_at.simps with_child_mount_place)
      qed
    qed
  qed
qed

section \<open>The drivers' create methods\<close>

definition new_ram_node :: "u64 \<Rightarrow> vfs \<Rightarrow> fs_node_kind \<Rightarrow> private_data \<Rightarrow> fs_node" where
  "new_ram_node i s k d = \<lparr>node_id = node_counter i s, mount_id = i, kind = k,
     metadata = new_metadata, private_data = d\<rparr>"

definition created :: "nref \<Rightarrow> string \<Rightarrow> (string, nref) btree_map \<Rightarrow> fs_node_kind \<Rightarrow> private_data \<Rightarrow> vfs \<Rightarrow> vfs" where
  "created n name c k d s =
     with_child n name (length (nodes s)) c (with_node (new_ram_node (mount_id (nodes s ! n)) s k d) s)"

text \<open>Both \<open>create_file\<close> and \<open>create_directory\<close>, by the kind of node and its initial data.\<close>

fun create_method :: "fs_node_kind \<Rightarrow> directory_operations \<Rightarrow> nref \<Rightarrow> string \<Rightarrow> (driver, io_error, nref) op" where
  "create_method Directory ops = do_create_directory ops"
| "create_method k ops = do_create_file ops"

fun initial_data :: "fs_node_kind \<Rightarrow> private_data" where
  "initial_data Directory = RamDirectoryNode []"
| "initial_data k = RamFileNode []"

lemma ram_create_eq:
  assumes "k = File \<or> k = Directory" "p < length h" "private_data (h ! p) = RamDirectoryNode c"
    "inner (next_node_id fs) \<noteq> - 1"
  shows "create_method k ram_directory_operations p name (fs, h) =
    (Ok (length h), ram_after_create (fs, h) p name c (ram_created (fs, h) k (initial_data k)))"
  using assms ram_create_file_Ok [OF assms(2-4)] ram_create_directory_Ok [OF assms(2-4)]
  by (auto simp: ram_directory_operations_def)

lemma ram_create_max:
  assumes "k = File \<or> k = Directory" "inner (next_node_id fs) = - 1"
  shows "create_method k ram_directory_operations p name (fs, h) = (Panic Overflow, (fs, h))"
  using assms(1) ram_create_exhausted [OF assms(2)] by (auto simp: ram_directory_operations_def)

lemma dev_create: "create_method k (dev_directory_operations cds) p name s = (Err OperationNotSupported, s)"
  by (cases k) (simp_all add: dev_directory_operations_def default_directory_operations_def)

lemma call_create_ram:
  assumes ok: "vfs_ok ls s" and n: "n < length (nodes s)" "private_data (nodes s ! n) = RamDirectoryNode c"
    and m: "get_mount (mount_id (nodes s ! n)) s = Some m" "mount_type m = RamFileSystemType"
    and k: "k = File \<or> k = Directory"
  shows "call_directory_operation n (\<lambda>ops. create_method k ops n name) s =
    (if node_counter (mount_id (nodes s ! n)) s = - 1 then (Panic Overflow, s)
     else (Ok (length (nodes s)), created n name c k (initial_data k) s))"
proof (cases "node_counter (mount_id (nodes s ! n)) s = - 1")
  case True
  then have "inner (next_node_id (m_file_system m)) = - 1" using m by (simp add: node_counter_def)
  then show ?thesis
    using True ram_create_max [OF k] put_file_system_same [OF ok m(1)]
    by (simp add: call_directory_operation_eq [OF m(1)] mount_type_ops m(2))
next
  case False
  then have cnt: "inner (next_node_id (m_file_system m)) \<noteq> - 1" using m by (simp add: node_counter_def)
  have mid: "fs_mount_id (m_file_system m, nodes s) = mount_id (nodes s ! n)"
    using vfs_ok_mount(5) [OF ok m(1)] by (simp add: fs_mount_id_def)
  show ?thesis
    using False ram_create_eq [OF k n cnt, of name] put_file_system_advance [OF m(1)] mid m
    by (simp add: call_directory_operation_eq [OF m(1)] mount_type_ops m(2) ram_after_create_def
        ram_created_def created_def with_child_def with_node_def new_ram_node_def node_counter_def)
qed

lemma call_create_dev:
  assumes ok: "vfs_ok ls s" and m: "get_mount (mount_id (nodes s ! n)) s = Some m" "mount_type m = DevFileSystemType"
  shows "call_directory_operation n (\<lambda>ops. create_method k ops n name) s = (Err OperationNotSupported, s)"
  using put_file_system_same [OF ok m(1)]
  by (simp add: call_directory_operation_eq [OF m(1)] mount_type_ops m(2) dev_create)

lemma created_fields [simp]:
  "files (created n name c k d s) = files s" "directory_cache (created n name c k d s) = directory_cache s"
  "handles (created n name c k d s) = handles s" "mount_next (created n name c k d s) = mount_next s"
  "fd_next (created n name c k d s) = fd_next s" "char_devices (created n name c k d s) = char_devices s"
  "length (nodes (created n name c k d s)) = Suc (length (nodes s))"
  "entry (created n name c k d s) e = entry s e"
  by (simp_all add: created_def entry_def)

lemma created_node:
  assumes "n < length (nodes s)"
  shows "nodes (created n name c k d s) ! length (nodes s) = new_ram_node (mount_id (nodes s ! n)) s k d"
    "j < length (nodes s) \<Longrightarrow> nodes (created n name c k d s) ! j =
       (if j = n then (nodes s ! n)\<lparr>private_data := RamDirectoryNode (bt_insert name (length (nodes s)) c)\<rparr>
        else nodes s ! j)"
  using assms by (simp_all add: created_def with_child_node nth_append)

lemma created_facts:
  assumes ok: "vfs_ok ls s" and n: "n < length (nodes s)" "private_data (nodes s ! n) = RamDirectoryNode c"
    and m: "get_mount (mount_id (nodes s ! n)) s = Some m" "mount_type m = RamFileSystemType"
    and k: "k = File \<or> k = Directory" and free: "bt_get name c = None"
    and cnt: "node_counter (mount_id (nodes s ! n)) s \<noteq> - 1"
  defines "s' \<equiv> created n name c k (initial_data k) s"
  shows "vfs_ok ls s'" "vfs_strong s' = vfs_strong s" "entry_path s' e = entry_path s e"
    "place_at s up = Some (Node n) \<Longrightarrow> place_at s (name # up) = None \<Longrightarrow>
       place_at s' path = (if path = name # up then Some (Node (length (nodes s))) else place_at s path)"
    "fs_child (char_devices s) (nodes s') n name = Some (Node (length (nodes s)))"
    "place_of (nodes s') (length (nodes s)) = Node (length (nodes s))"
proof -
  let ?i = "mount_id (nodes s ! n)"
  let ?nd = "new_ram_node ?i s k (initial_data k)" and ?x = "length (nodes s)"
  let ?s1 = "with_node ?nd s"
  note ext = with_node_ext(1) [OF ok, of ?nd]
  have nd: "mount_id ?nd = ?i" "kind ?nd = k" "node_id ?nd = node_counter ?i s" "link_count (metadata ?nd) = 1"
    "private_data ?nd = initial_data k" by (simp_all add: new_ram_node_def new_metadata_def)
  have ok1: "vfs_ok ls ?s1"
    using with_node_ok [OF ok, of ?nd m] nd m k cnt by (auto simp: node_counter_def)
  have n1: "n < length (nodes ?s1)" "private_data (nodes ?s1 ! n) = RamDirectoryNode c"
    using n by (simp_all add: nth_append)
  have x1: "?x < length (nodes ?s1)" "mount_id (nodes ?s1 ! ?x) = mount_id (nodes ?s1 ! n)"
    using nd(1) n by (simp_all add: nth_append)
  have root: "fs_root (m_file_system m') \<noteq> ?x" if mt: "get_mount i ?s1 = Some m'" for i m'
  proof -
    obtain m0 where "get_mount i s = Some m0" "mount_core m' = mount_core m0"
      using vfs_ext_mount [OF ext, of i] mt by (cases "get_mount i s") auto
    then show ?thesis using vfs_ok_mount(4) [OF ok] by (fastforce simp: mount_core_def)
  qed
  have orphan: "\<not> ram_child (nodes ?s1) a na ?x" if a: "a < length (nodes ?s1)" for a na
  proof
    assume ch: "ram_child (nodes ?s1) a na ?x"
    show False
    proof (cases "a < length (nodes s)")
      case True
      then have "ram_child (nodes s) a na ?x" using ch by (simp add: ram_child_def nth_append)
      then show False
        using fs_child_range [OF ok True, of na ?x] by (simp add: fs_child_ram_child)
    next
      case False
      then have "a = ?x" using a by simp
      then show False using ch nd(5) k by (auto simp: ram_child_def nth_append)
    qed
  qed
  have s': "s' = with_child n name ?x c ?s1" by (simp add: s'_def created_def)
  show "vfs_ok ls s'"
    unfolding s' by (rule with_child_ok [OF ok1 n1 free x1]) (use orphan root in blast)+
  show "vfs_strong s' = vfs_strong s" using s' vfs_ext_strong [OF ext] by simp
  show "entry_path s' e = entry_path s e" by (simp add: s' entry_path_def entry_def)
  show "fs_child (char_devices s) (nodes s') n name = Some (Node ?x)"
    using with_child_fs_child [OF n1 n1(1), of name ?x name] by (simp add: s')
  have px: "private_data (nodes ?s1 ! ?x) = initial_data k" using nd(5) by simp
  show "place_of (nodes s') ?x = Node ?x"
    using with_child_place(1) [OF n1 x1(1), of name ?x] px k by (auto simp: s' place_of_def)
  assume at: "place_at s up = Some (Node n)" "place_at s (name # up) = None"
  have "fs_child (char_devices ?s1) (nodes ?s1) ?x nm = None" for nm
    using px k by (auto simp: fs_child_def)
  then show "place_at s' path = (if path = name # up then Some (Node ?x) else place_at s path)"
    using with_child_place_at [OF ok1 _ _ n1 x1(1), of up name path] at place_at_ext [OF ok ext] n(1)
    by (simp add: s')
qed

section \<open>A new name\<close>

definition ram_directory_at :: "vfs \<Rightarrow> string list \<Rightarrow> bool" where
  "ram_directory_at s up =
     (case place_at s up of
        Some (Node n) \<Rightarrow> (case private_data (nodes s ! n) of RamDirectoryNode c \<Rightarrow> True | _ \<Rightarrow> False)
      | _ \<Rightarrow> False)"

lemma ram_directory_at_entry:
  assumes "vfs_ok ls s" "p \<in> set ls" "is_directory (entry_node s p)"
  shows "place_at s (entry_path s p) = Some (Node (de_node (entry s p)))"
    "ram_directory_at s (entry_path s p) =
      (case private_data (nodes s ! de_node (entry s p)) of RamDirectoryNode c \<Rightarrow> True | _ \<Rightarrow> False)"
proof -
  have n: "de_node (entry s p) < length (nodes s)" using vfs_ok_entry(2) [OF assms(1) vfs_ok_local [OF assms(1,2)]] .
  show at: "place_at s (entry_path s p) = Some (Node (de_node (entry s p)))"
    using place_at_entry [OF assms(1) alive_member [OF assms(2)]] directory_place [OF assms(1) n] assms(3)
    by (simp add: entry_node_def)
  show "ram_directory_at s (entry_path s p) =
      (case private_data (nodes s ! de_node (entry s p)) of RamDirectoryNode c \<Rightarrow> True | _ \<Rightarrow> False)"
    using at by (simp add: ram_directory_at_def)
qed

text \<open>
  \<open>nodes_kept s s'\<close>: the nodes of \<open>s\<close> are still there and have kept their kind and the files their contents.
  \<open>tree_added s s' path k\<close>: the tree of \<open>s'\<close> is the tree of \<open>s\<close> with one new, empty node of kind
  \<open>k\<close> at \<open>path\<close>, and the nodes of \<open>s\<close> are kept. \<open>node_added\<close>: moreover the open files are
  the same.
\<close>

definition nodes_kept :: "vfs \<Rightarrow> vfs \<Rightarrow> bool" where
  "nodes_kept s s' \<longleftrightarrow> length (nodes s) \<le> length (nodes s')
     \<and> (\<forall>n < length (nodes s). kind (nodes s' ! n) = kind (nodes s ! n) \<and> file_bytes s' n = file_bytes s n)"

definition tree_added :: "vfs \<Rightarrow> vfs \<Rightarrow> string list \<Rightarrow> fs_node_kind \<Rightarrow> bool" where
  "tree_added s s' path k \<longleftrightarrow>
     (\<exists>x. length (nodes s) \<le> x \<and> x < length (nodes s') \<and> kind (nodes s' ! x) = k
        \<and> private_data (nodes s' ! x) = initial_data k
        \<and> (\<forall>q. place_at s' q = (if q = path then Some (Node x) else place_at s q)))
     \<and> nodes_kept s s'"

definition node_added :: "vfs \<Rightarrow> vfs \<Rightarrow> string list \<Rightarrow> fs_node_kind \<Rightarrow> bool" where
  "node_added s s' path k \<longleftrightarrow> tree_added s s' path k \<and> files s' = files s \<and> fd_next s' = fd_next s"

lemma nodes_kept_ext:
  assumes "vfs_ext s s'"
  shows "nodes_kept s s'"
  using vfs_ext_node(1) [OF assms] assms by (auto simp: nodes_kept_def file_bytes_def vfs_ext_def)

lemma nodes_kept_trans:
  assumes "nodes_kept s s1" "nodes_kept s1 s'"
  shows "nodes_kept s s'"
  using assms by (simp add: nodes_kept_def)

lemma node_added_ext:
  assumes ok: "vfs_ok ls s" and ext: "vfs_ext s s1" and added: "node_added s1 s' path k"
  shows "node_added s s' path k"
proof -
  have "length (nodes s) \<le> length (nodes s1)" "files s1 = files s" "fd_next s1 = fd_next s"
    using ext by (auto simp: vfs_ext_def)
  then show ?thesis
    using added place_at_ext [OF ok ext] nodes_kept_trans [OF nodes_kept_ext [OF ext]]
    by (fastforce simp: node_added_def tree_added_def)
qed

definition create_part :: "fs_node_kind \<Rightarrow> dref \<Rightarrow> string \<Rightarrow> dref vfs_op" where
  "create_part k p name = (\<lambda>s.
     try_bind (call_directory_operation (de_node (entry s p))
         (\<lambda>ops. create_method k ops (de_node (entry s p)) name)) (\<lambda>node.
     vfs_cache_insert [p] (Some p) node name) s)"

text \<open>The ram file system creates the node, and the entry joins the cache.\<close>

lemma create_part_ram:
  assumes free: "free_name s p name" and k: "k = File \<or> k = Directory"
    and run: "create_part k p name s = (r, s')" and small: "vfs_small s"
    and m: "get_mount (mount_id (nodes s ! de_node (entry s p))) s = Some m" "mount_type m = RamFileSystemType"
    and data: "private_data (nodes s ! de_node (entry s p)) = RamDirectoryNode c"
    and room: "node_counter (mount_id (nodes s ! de_node (entry s p))) s \<noteq> - 1"
  shows "\<exists>e. r = Ok e \<and> vfs_ok [e] s' \<and> entry_path s' e = name # entry_path s p \<and> kind (entry_node s' e) = k
    \<and> node_added s s' (name # entry_path s p) k \<and> handles s' = handles s"
proof -
  let ?n = "de_node (entry s p)"
  have ok: "vfs_ok [p] s" and dir: "is_directory (entry_node s p)"
    and none: "place_at s (name # entry_path s p) = None"
    using free by (simp_all add: free_name_def)
  note fr = free_name_no_child [OF free small]
  have rd: "place_at s (entry_path s p) = Some (Node ?n)" using ram_directory_at_entry [OF ok _ dir] by simp
  note call = call_create_ram [OF ok fr(3) data m k, of name]
  have unused: "bt_get name c = None" using fr(2) data by (simp add: fs_child_def)
  let ?s1 = "created ?n name c k (initial_data k) s" and ?x = "length (nodes s)"
  let ?e = "length (entries (directory_cache s))"
  note cf = created_facts [OF ok fr(3) data m k unused room]
  have no1: "no_live_child [p] ?s1 p name" using fr(1) cf(2) by (simp add: no_live_child_def)
  have small1: "vfs_small ?s1" using small by (simp add: vfs_small_def)
  have al1: "alive ([p] @ vfs_strong ?s1) (entries (directory_cache ?s1)) p" by (rule alive_member) simp
  have dir1: "is_directory (entry_node ?s1 p)"
    using dir created_node(2) [OF fr(3) fr(3), of name c k] by (simp add: entry_node_def is_directory_def)
  have ok2: "vfs_ok [?e, p] (with_entry (Some p) ?x name ?s1)"
    using with_entry_ok [OF cf(1) small1 al1 dir1 no1, of ?x] cf(5,6) by simp
  have s': "r = Ok ?e" "s' = with_entry (Some p) ?x name ?s1"
    using run call room vfs_cache_insert_eq [OF no1, of ?x] by (simp_all add: create_part_def)
  have p: "p < ?e" using vfs_ok_local [OF ok, of p] by simp
  have new: "de_name (entry s' ?e) = name" "de_node (entry s' ?e) = ?x" "de_parent (entry s' ?e) = Some p"
    using with_entry_new [of "Some p" ?s1 ?x name] p s' by simp_all
  have ext2: "vfs_ext ?s1 s'" using with_entry_ext s' by simp
  have path: "entry_path s' ?e = name # entry_path s p"
    using entry_path_parent [OF new(3) p] new(1) entry_path_ext [OF ext2, of p] cf(3) p by simp
  have node: "nodes s' ! ?x = new_ram_node (mount_id (nodes s ! ?n)) s k (initial_data k)"
    using created_node(1) [OF fr(3)] s' by simp
  have "node_added s s' (name # entry_path s p) k"
    unfolding node_added_def tree_added_def
  proof (intro conjI exI [of _ ?x] allI impI)
    fix q show "place_at s' q = (if q = name # entry_path s p then Some (Node ?x) else place_at s q)"
      using place_at_ext [OF cf(1) ext2] cf(4) [OF rd none] by simp
  next
    show "nodes_kept s s'"
      using created_node(2) [OF fr(3), of _ name c k] data s' by (simp add: nodes_kept_def file_bytes_def)
  qed (use node s' in \<open>simp_all add: new_ram_node_def\<close>)
  moreover have "vfs_ok [?e] s'" using vfs_ok_subset [OF ok2, of "[?e]"] s' by simp
  ultimately show ?thesis
    using path s' node new(2) by (simp add: entry_node_def new_ram_node_def)
qed

lemma create_part_spec:
  assumes free: "free_name s p name" and k: "k = File \<or> k = Directory"
    and run: "create_part k p name s = (r, s')" and small: "vfs_small s"
  shows "r = Panic Overflow
    \<or> (\<not> ram_directory_at s (entry_path s p) \<and> r = Err OperationNotSupported \<and> s' = s)
    \<or> (ram_directory_at s (entry_path s p) \<and> (\<exists>e. r = Ok e \<and> vfs_ok [e] s'
          \<and> entry_path s' e = name # entry_path s p \<and> kind (entry_node s' e) = k
          \<and> node_added s s' (name # entry_path s p) k \<and> handles s' = handles s))"
proof -
  let ?n = "de_node (entry s p)"
  have ok: "vfs_ok [p] s" and dir: "is_directory (entry_node s p)"
    using free by (simp_all add: free_name_def)
  note fr = free_name_no_child [OF free small]
  have rd: "place_at s (entry_path s p) = Some (Node ?n)" "ram_directory_at s (entry_path s p) =
      (case private_data (nodes s ! ?n) of RamDirectoryNode c \<Rightarrow> True | _ \<Rightarrow> False)"
    using ram_directory_at_entry [OF ok _ dir] by simp_all
  show ?thesis
  proof (rule directory_data [OF ok fr(3,4)])
    fix m
    assume m: "get_mount (mount_id (nodes s ! ?n)) s = Some m" "mount_type m = DevFileSystemType"
      and data: "private_data (nodes s ! ?n) = NoData"
    then show ?thesis
      using run rd(2) call_create_dev [OF ok m, of k name] by (simp add: create_part_def)
  next
    fix m c
    assume m: "get_mount (mount_id (nodes s ! ?n)) s = Some m" "mount_type m = RamFileSystemType"
      and data: "private_data (nodes s ! ?n) = RamDirectoryNode c"
    note call = call_create_ram [OF ok fr(3) data m k, of name]
    show ?thesis
    proof (cases "node_counter (mount_id (nodes s ! ?n)) s = - 1")
      case True
      then show ?thesis using run call by (simp add: create_part_def)
    next
      case False
      then show ?thesis using create_part_ram [OF free k run small m data] rd(2) data by simp
    qed
  qed
qed

end
