(* ===== verification/Vfs_Ops.thy ===== *)
theory Vfs_Ops
  imports Vfs_Create
begin

text \<open>
  The operations on paths refine their specification on the namespace: \<open>stat\<close>,
  \<open>create_directory\<close> and \<open>open\<close>.
\<close>

section \<open>Counters of the whole operations\<close>

lemma advances_new_ids [counters]: "advances new_mount_id" "advances new_file_descriptor"
  by (simp_all add: advances_def counters_le_def new_mount_id_def new_file_descriptor_def fetch_add_def)

lemma advances_create_part [counters]: "advances (create_part k p name)"
  unfolding advances_def create_part_def
  by (auto intro!: advances_rules)

lemma advances_defer_scope:
  fixes block :: "(vfs, 'e, unit) op" and body :: "defer_handle \<Rightarrow> (vfs, 'e, 'a \<times> defer_handle) op"
  assumes "advances block" "\<And>h. advances (body h)"
  shows "advances (defer_scope block body)"
  unfolding advances_def
proof
  fix s
  obtain r s1 where b: "body defer_new s = (r, s1)" by (cases "body defer_new s")
  have le: "counters_le s s1" using advancesD [OF assms(2) b] .
  have blk: "counters_le s1 (snd (try_bind (run_deferred h block) f s1))"
    if "\<And>x s. counters_le s (snd (f x s))" for h and f :: "unit \<Rightarrow> (vfs, 'e, 'a) op"
    by (rule advances_try_bind_at [OF _ that]) (use assms(1) in \<open>simp add: run_deferred_def advances_def\<close>)
  have "counters_le s (snd (try_bind (run_deferred h block) (\<lambda>_. ret x) s1))"
    "counters_le s (snd (try_bind (run_deferred h block) (\<lambda>_. fail e :: (vfs, 'e, 'a) op) s1))" for h and x :: 'a and e
    using counters_le_trans [OF le blk, of "\<lambda>_. ret x" h] counters_le_trans [OF le blk, of "\<lambda>_. fail e" h]
    by simp_all
  then show "counters_le s (snd (defer_scope block body s))"
    using b le by (cases r) (simp_all add: defer_scope_def split: prod.split del: run_deferred_new)
qed

lemma advances_open_entry [counters]: "advances (open_entry str m)"
  unfolding advances_def open_entry_def
  by (auto intro!: advances_rules counters [THEN advances_at] split: option.split)

lemma counters_le_updates [simp]:
  "counters_le s (s\<lparr>files := fs\<rparr>)" "counters_le s (s\<lparr>mount_table := t\<rparr>)" "counters_le s (s\<lparr>nodes := h\<rparr>)"
  by (simp_all add: counters_le_def)

lemma advances_open [counters]: "advances (vfs_open str m)"
  unfolding advances_def vfs_open_def Let_def
  by (auto intro!: advances_try_bind_at counters [THEN advances_at] advances_defer_scope [THEN advances_at]
      simp: advances_def)

section \<open>Specifications\<close>

text \<open>
  What the operations on paths do, in terms of the namespace alone: the path of the entry they
  use or create, or the error they report.
\<close>

definition create_target :: "vfs \<Rightarrow> string \<Rightarrow> (io_error, string list) outcome" where
  "create_target s str =
     (case walk_path_parent s str of
        Ok (up, name) \<Rightarrow> if ram_directory_at s up then Ok (name # up) else Err OperationNotSupported
      | Err x \<Rightarrow> Err x
      | Panic q \<Rightarrow> Panic q)"

definition create_directory_spec :: "vfs \<Rightarrow> string \<Rightarrow> (io_error, string list) outcome" where
  "create_directory_spec s str =
     (case walk_path s str of
        Ok (Some path) \<Rightarrow> Err AlreadyExists
      | Ok None \<Rightarrow> create_target s str
      | Err x \<Rightarrow> Err x
      | Panic q \<Rightarrow> Panic q)"

text \<open>The flag tells whether the file is a new one.\<close>

definition open_spec :: "vfs \<Rightarrow> string \<Rightarrow> file_mode \<Rightarrow> (io_error, string list \<times> bool) outcome" where
  "open_spec s str m =
     (case walk_path s str of
        Ok (Some path) \<Rightarrow> if is_mutating m \<and> directory_at s path then Err NotAFile else Ok (path, False)
      | Ok None \<Rightarrow>
          if is_mutating m
          then (case create_target s str of Ok path \<Rightarrow> Ok (path, True) | Err x \<Rightarrow> Err x | Panic q \<Rightarrow> Panic q)
          else Err EntryNotFound
      | Err x \<Rightarrow> Err x
      | Panic q \<Rightarrow> Panic q)"

definition stat_spec :: "vfs \<Rightarrow> string \<Rightarrow> (io_error, string list) outcome" where
  "stat_spec s str =
     (case walk_path s str of
        Ok (Some path) \<Rightarrow> Ok path
      | Ok None \<Rightarrow> Err EntryNotFound
      | Err x \<Rightarrow> Err x
      | Panic q \<Rightarrow> Panic q)"

text \<open>
  \<open>refines spec r fine bad\<close>: the outcome \<open>r\<close> is the one specified; \<open>fine\<close> relates the two values,
  \<open>bad\<close> holds of the state after an error. The one way out is the overflow of a counter.
\<close>

definition refines :: "(io_error, 'x) outcome \<Rightarrow> (io_error, 'a) outcome \<Rightarrow> ('x \<Rightarrow> 'a \<Rightarrow> bool) \<Rightarrow> bool \<Rightarrow> bool" where
  "refines spec r fine bad \<longleftrightarrow> r = Panic Overflow \<or>
     (case spec of
        Ok x \<Rightarrow> (\<exists>a. r = Ok a \<and> fine x a)
      | Err e \<Rightarrow> r = Err e \<and> bad
      | Panic q \<Rightarrow> r = Panic q)"

lemma refines_Overflow [simp]: "refines spec (Panic Overflow) fine bad"
  by (simp add: refines_def)

section \<open>Creation\<close>

lemma create_after_resolve:
  assumes ok: "vfs_inv s" and r1: "resolve_path str s = (Ok None, s1)"
    and run: "try_bind (resolve_path_parent_directory str) (\<lambda>(p, name). create_part k p name) s1 = (r, s')"
    and k: "k = File \<or> k = Directory" and small: "vfs_small s'"
  shows "refines (create_target s str) r
    (\<lambda>path e. vfs_ok [e] s' \<and> entry_path s' e = path \<and> kind (entry_node s' e) = k \<and> node_added s s' path k
        \<and> handles s' = handles s)
    (vfs_inv s' \<and> vfs_ext s s')"
proof -
  obtain r2 s2 where r2: "resolve_path_parent_directory str s1 = (r2, s2)"
    by (cases "resolve_path_parent_directory str s1")
  have small2: "vfs_small s2"
  proof (cases r2)
    case (Ok pn)
    then have "create_part k (fst pn) (snd pn) s2 = (r, s')" using run r2 by (simp add: split_def)
    then show ?thesis using advances_small [OF advances_create_part _ small] by blast
  qed (use run r2 small in simp_all)
  have small1: "vfs_small s1" using advances_small [OF advances_resolve_parent r2 small2] .
  note w1 = resolve_path_walk [OF ok r1 small1]
  then have ext1: "vfs_ext s s1" and ok1: "vfs_inv s1"
    by (auto simp: resolves_def split: outcome.splits option.splits)
  note w2 = resolve_path_parent_walk [OF ok1 r2 small2]
  have same: "walk_path_parent s1 str = walk_path_parent s str" using walk_path_ext(2) [OF ok ext1] .
  have ext: "vfs_ext s s2" using vfs_ext_trans [OF ext1] w2 by blast
  show ?thesis
  proof (cases r2)
    case (Ok pn)
    obtain p name where pn: "pn = (p, name)" by (cases pn)
    note fr = resolve_for_create [OF ok r1 r2 [unfolded Ok pn] small2]
    have run': "create_part k p name s2 = (r, s')" using run r2 Ok pn by simp
    have ram: "ram_directory_at s2 up = ram_directory_at s up" for up
      using place_at_ext [OF ok ext, of up] place_at_range [OF ok, of up] vfs_ext_node(1) [OF ext]
      by (simp add: ram_directory_at_def split: option.split place.split)
    have hs: "handles s2 = handles s" using ext by (simp add: vfs_ext_def)
    have inv2: "vfs_inv s2" using fr(2) vfs_ok_subset [of "[p]" s2 "[]"] by (simp add: free_name_def)
    show ?thesis
      using create_part_spec [OF fr(2) k run' small2] fr(3) ram node_added_ext [OF ok ext] ext inv2 hs
      by (auto simp: refines_def create_target_def)
  next
    case (Err x)
    then have "r = Err x" "s' = s2" using run r2 by simp_all
    then show ?thesis
      using w2 same Err ext by (auto simp: refines_def create_target_def resolves_parent_def split: outcome.splits)
  next
    case (Panic q)
    then have "r = Panic q" using run r2 by simp
    then show ?thesis
      using w2 same Panic by (auto simp: refines_def create_target_def resolves_parent_def split: outcome.splits)
  qed
qed

section \<open>stat and create\_directory\<close>

lemma advances_stat [counters]: "advances (vfs_stat str)"
  unfolding advances_def vfs_stat_def by (auto intro!: advances_try_bind_at counters [THEN advances_at])

lemma advances_create_directory [counters]: "advances (vfs_create_directory str)"
  unfolding advances_def vfs_create_directory_def
  by (auto intro!: advances_try_bind_at counters [THEN advances_at] split: option.split)

lemma give_handle_ok: "vfs_ok (e # ls) s \<Longrightarrow> vfs_ok ls (s\<lparr>handles := e # handles s\<rparr>)"
  by (erule handles_ok) auto

lemma handles_entry_path: "entry_path (s\<lparr>handles := hs\<rparr>) d = entry_path s d"
  by (simp add: entry_path_def entry_def)

lemma stat_refines:
  assumes ok: "vfs_inv s" and run: "vfs_stat str s = (r, s')" and small: "vfs_small s'"
  shows "refines (stat_spec s str) r
    (\<lambda>path e. vfs_inv s' \<and> entry_path s' e = path \<and> handles s' = e # handles s
        \<and> vfs_ext s (s'\<lparr>handles := handles s\<rparr>) \<and> (\<forall>q. place_at s' q = place_at s q))
    (vfs_inv s' \<and> vfs_ext s s')"
proof -
  obtain r1 s1 where r1: "resolve_path str s = (r1, s1)" by (cases "resolve_path str s")
  have rest: "(r, s') = (case r1 of Ok (Some e) \<Rightarrow> (Ok e, s1\<lparr>handles := e # handles s1\<rparr>)
      | Ok None \<Rightarrow> (Err EntryNotFound, s1) | Err x \<Rightarrow> (Err x, s1) | Panic q \<Rightarrow> (Panic q, s1))"
    using run r1 by (auto simp: vfs_stat_def try_bind_def ok_or_def give_handle_def split: outcome.split option.split)
  then have small1: "vfs_small s1"
    using small by (auto simp: vfs_small_def split: outcome.splits option.splits)
  note w = resolve_path_walk [OF ok r1 small1]
  then have ext: "vfs_ext s s1" by blast
  then have hs: "handles s1 = handles s" by (simp add: vfs_ext_def)
  have "s1\<lparr>handles := handles s\<rparr> = s1" unfolding hs [symmetric] by simp
  then have ext': "vfs_ext s (s1\<lparr>handles := handles s\<rparr>)" using ext by (simp only:)
  note pl = place_at_ext [OF ok ext]
  from w show ?thesis
  proof (cases "walk_path s str")
    case (Ok p)
    then show ?thesis
    proof (cases p)
      case None
      then show ?thesis using w Ok rest ext by (auto simp: resolves_def refines_def stat_spec_def)
    next
      case (Some path)
      show ?thesis
      proof (cases "r1 = Panic Overflow")
        case True
        then show ?thesis using rest by simp
      next
        case False
        then obtain e where "r1 = Ok (Some e)" "vfs_ok [e] s1" "entry_path s1 e = path"
          using w Ok Some by (auto simp: resolves_def)
        then show ?thesis
          using rest Ok Some give_handle_ok [of e "[]" s1] hs pl ext'
          by (simp add: refines_def stat_spec_def handles_entry_path handles_namespace)
      qed
    qed
  qed (use rest ext in \<open>auto simp: resolves_def refines_def stat_spec_def\<close>)
qed

lemma handles_node_added: "node_added s (s1\<lparr>handles := hs\<rparr>) path k = node_added s s1 path k"
  by (simp add: node_added_def tree_added_def nodes_kept_def handles_namespace file_bytes_def)

lemma create_directory_refines:
  assumes ok: "vfs_inv s" and run: "vfs_create_directory str s = (r, s')" and small: "vfs_small s'"
  shows "refines (create_directory_spec s str) r
    (\<lambda>path e. vfs_inv s' \<and> entry_path s' e = path \<and> handles s' = e # handles s
        \<and> node_added s s' path Directory)
    (vfs_inv s' \<and> vfs_ext s s')"
proof -
  obtain r1 s1 where r1: "resolve_path str s = (r1, s1)" by (cases "resolve_path str s")
  show ?thesis
  proof (cases "r1 = Ok None")
    case True
    obtain r2 s2 where r2: "try_bind (resolve_path_parent_directory str) (\<lambda>(p, name). create_part Directory p name) s1
        = (r2, s2)" by (cases "try_bind (resolve_path_parent_directory str) (\<lambda>(p, name). create_part Directory p name) s1")
    have rest: "(r, s') = (case r2 of Ok e \<Rightarrow> (Ok e, s2\<lparr>handles := e # handles s2\<rparr>)
        | Err x \<Rightarrow> (Err x, s2) | Panic q \<Rightarrow> (Panic q, s2))"
    proof -
      have "vfs_create_directory str s = try_bind (try_bind (resolve_path_parent_directory str)
          (\<lambda>(p, name). create_part Directory p name)) give_handle s1"
        using r1 True by (auto simp: vfs_create_directory_def try_bind_def create_part_def split_def
            split: prod.split outcome.split)
      then show ?thesis
        using run r2 by (auto simp: try_bind_def give_handle_def split: outcome.split)
    qed
    then have small2: "vfs_small s2" using small by (auto simp: vfs_small_def split: outcome.splits)
    have adv: "advances (try_bind (resolve_path_parent_directory str) (\<lambda>(p, name). create_part Directory p name))"
      unfolding advances_def by (auto intro!: advances_try_bind_at counters [THEN advances_at])
    have small1: "vfs_small s1" using advances_small [OF adv r2 small2] .
    have none: "walk_path s str = Ok None"
      using resolve_path_walk [OF ok r1 small1] True
      by (auto simp: resolves_def split: outcome.splits option.splits)
    note cr = create_after_resolve [OF ok r1 [unfolded True] r2 _ small2]
    show ?thesis
    proof (cases r2)
      case (Ok e)
      then obtain path where t: "create_target s str = Ok path" and e: "vfs_ok [e] s2" "entry_path s2 e = path"
        "node_added s s2 path Directory" "handles s2 = handles s"
        using cr by (auto simp: refines_def split: outcome.splits)
      then show ?thesis
        using rest Ok none t e give_handle_ok [of e "[]" s2]
        by (auto simp: refines_def create_directory_spec_def handles_entry_path handles_node_added)
    qed (use rest none cr in \<open>auto simp: refines_def create_directory_spec_def split: outcome.splits\<close>)
  next
    case False
    have rest: "(r, s') = (case r1 of Ok p \<Rightarrow> (Err AlreadyExists, s1) | Err x \<Rightarrow> (Err x, s1) | Panic q \<Rightarrow> (Panic q, s1))"
      using run r1 False by (auto simp: vfs_create_directory_def try_bind_def split: outcome.split)
    then have "s' = s1" by (auto split: outcome.splits)
    then have "vfs_ext s s1 \<and> resolves s1 (walk_path s str) r1" using resolve_path_walk [OF ok r1] small by simp
    then show ?thesis
      using rest False vfs_ok_subset [of _ s1 "[]"]
      by (auto simp: resolves_def refines_def create_directory_spec_def split: outcome.splits option.splits)
  qed
qed

section \<open>open\<close>

lemma open_entry_refines:
  assumes ok: "vfs_inv s" and run: "open_entry str m s = (r, s')" and small: "vfs_small s'"
  shows "refines (open_spec s str m) r
    (\<lambda>(path, new) e. vfs_ok [e] s' \<and> entry_path s' e = path \<and> fd_next s' = fd_next s \<and> files s' = files s
        \<and> (is_mutating m \<longrightarrow> \<not> is_directory (entry_node s' e))
        \<and> (if new then tree_added s s' path File else vfs_ext s s'))
    (vfs_inv s' \<and> vfs_ext s s')"
proof -
  obtain r1 s1 where r1: "resolve_path str s = (r1, s1)" by (cases "resolve_path str s")
  show ?thesis
  proof (cases "r1 = Ok None \<and> is_mutating m")
    case True
    have run': "try_bind (resolve_path_parent_directory str) (\<lambda>(p, name). create_part File p name) s1 = (r, s')"
      using run r1 True by (simp add: open_entry_def create_part_def)
    have adv: "advances (try_bind (resolve_path_parent_directory str) (\<lambda>(p, name). create_part File p name))"
      unfolding advances_def by (auto intro!: advances_try_bind_at counters [THEN advances_at])
    have small1: "vfs_small s1" using advances_small [OF adv run' small] .
    have none: "walk_path s str = Ok None"
      using resolve_path_walk [OF ok r1 small1] True
      by (auto simp: resolves_def split: outcome.splits option.splits)
    note cr = create_after_resolve [OF ok r1 [unfolded conjunct1 [OF True]] run' _ small]
    then show ?thesis
      using none True
      by (auto simp: refines_def open_spec_def node_added_def is_directory_def split: outcome.splits)
  next
    case False
    have rest: "(r, s') = (case r1 of
        Ok (Some e) \<Rightarrow> if is_mutating m \<and> is_directory (entry_node s1 e) then (Err NotAFile, s1) else (Ok e, s1)
      | Ok None \<Rightarrow> (Err EntryNotFound, s1) | Err x \<Rightarrow> (Err x, s1) | Panic q \<Rightarrow> (Panic q, s1))"
      using run r1 False
      by (auto simp: open_entry_def try_bind_def ok_or_def split: outcome.splits option.splits if_splits)
    then have s1: "s' = s1" by (auto split: outcome.splits option.splits if_splits)
    then have w: "vfs_ext s s1" "resolves s1 (walk_path s str) r1" using resolve_path_walk [OF ok r1] small by simp_all
    have same: "fd_next s1 = fd_next s" "files s1 = files s" using w(1) by (simp_all add: vfs_ext_def)
    show ?thesis
    proof (cases "\<exists>e. r1 = Ok (Some e)")
      case True
      then obtain e where e: "r1 = Ok (Some e)" by blast
      then have path: "walk_path s str = Ok (Some (entry_path s1 e))" and oke: "vfs_ok [e] s1"
        using w(2) by (auto simp: resolves_def split: outcome.splits option.splits)
      have dir: "directory_at s (entry_path s1 e) = is_directory (entry_node s1 e)"
        using place_at_local(2) [OF oke, of e] directory_at_ext [OF ok w(1)] by simp
      show ?thesis
        using rest e path oke dir same s1 w(1) vfs_ok_subset [OF oke, of "[]"]
        by (auto simp: refines_def open_spec_def split: if_splits)
    next
      case none: False
      then show ?thesis
        using rest w s1 False
        by (auto simp: refines_def open_spec_def resolves_def split: outcome.splits option.splits)
    qed
  qed
qed

lemma opened_file_bytes: "n < length (nodes s) \<Longrightarrow> file_bytes (opened n m s) k = file_bytes s k"
  by (auto simp: file_bytes_def opened_def set_link_count_def nth_list_update)

text \<open>The second half of \<open>open\<close>, after the entry was found or created.\<close>

lemma open_rest:
  assumes ok: "vfs_inv s" and run: "vfs_open str m s = (r, s')" and small: "vfs_small s'"
    and r1: "open_entry str m s = (Ok e, s1)"
  shows "vfs_small s1" "vfs_ok [e] s1" "de_node (entry s1 e) < length (nodes s1)"
    "(r, s') = (if link_count (metadata (nodes s1 ! de_node (entry s1 e))) + 1 < usize_limit
       then (Ok (atomic_value (fd_next s1)), opened (de_node (entry s1 e)) m s1) else (Panic Overflow, s1))"
proof -
  let ?n = "de_node (entry s1 e)"
  note part = run [unfolded vfs_open_def Let_def try_bind_Ok [of "open_entry str m", OF r1]]
  have adv: "advances (\<lambda>s. try_bind (on_nodes (increment_link_count ?n)) (\<lambda>_.
     defer_scope (on_nodes (decrement_link_count ?n)) (\<lambda>error_cleanup.
       try_bind (node_file_operations ?n) (\<lambda>ops.
       try_bind (on_nodes (fo_open ops ?n m)) (\<lambda>f.
       try_bind new_file_descriptor (\<lambda>fd s.
         (Ok (fd, defer_cancel error_cleanup), s\<lparr>files := bt_insert fd f (files s)\<rparr>)))))) s)"
    by (auto intro!: advances_try_bind_at counters [THEN advances_at] advances_defer_scope [THEN advances_at]
        simp: advances_def)
  show small1: "vfs_small s1" using advances_small [OF adv part small] .
  show ok1: "vfs_ok [e] s1"
    using open_entry_refines [OF ok r1 small1] by (auto simp: refines_def split: outcome.splits)
  show n: "?n < length (nodes s1)" using vfs_ok_entry(2) [OF ok1 vfs_ok_local [OF ok1, of e]] by simp
  show "(r, s') = (if link_count (metadata (nodes s1 ! ?n)) + 1 < usize_limit
      then (Ok (atomic_value (fd_next s1)), opened ?n m s1) else (Panic Overflow, s1))"
    using part open_file_part [OF ok1 n, of m] by simp
qed

text \<open>What the table of open files does not change: the tree of names after the entry was found or made.\<close>

lemma opened_tree:
  assumes ok: "vfs_inv s" "vfs_ok [e] s1" and n: "n < length (nodes s1)"
    and tree: "if new then tree_added s s1 path File else vfs_ext s s1"
  shows "if new then tree_added s (opened n m s1) path File
    else (\<forall>q. place_at (opened n m s1) q = place_at s q) \<and> nodes_kept s (opened n m s1)"
proof -
  let ?s = "opened n m s1"
  note same = opened_same [OF n, of m]
  note pl = vfs_same_place_at [OF ok(2) same]
  have kept: "nodes_kept s1 ?s"
    using opened_file_bytes [OF n] n by (auto simp: nodes_kept_def opened_def nth_set_link_count)
  show ?thesis
  proof (cases new)
    case True
    then obtain x where x: "length (nodes s) \<le> x" "x < length (nodes s1)" "kind (nodes s1 ! x) = File"
      "private_data (nodes s1 ! x) = initial_data File"
      "\<forall>q. place_at s1 q = (if q = path then Some (Node x) else place_at s q)"
      "nodes_kept s s1"
      using tree by (auto simp: tree_added_def)
    have node: "kind (nodes ?s ! x) = kind (nodes s1 ! x)" "private_data (nodes ?s ! x) = private_data (nodes s1 ! x)"
      using x(2) by (simp_all add: opened_def nth_set_link_count)
    show ?thesis
      using True x node pl nodes_kept_trans [OF x(6) kept] vfs_same_node(1) [OF same] by (auto simp: tree_added_def)
  next
    case False
    then have ext: "vfs_ext s s1" using tree by simp
    show ?thesis
      using False pl place_at_ext [OF ok(1) ext] nodes_kept_trans [OF nodes_kept_ext [OF ext] kept] ext
      by (auto simp: vfs_ext_def)
  qed
qed

lemma open_refines:
  assumes ok: "vfs_inv s" and run: "vfs_open str m s = (r, s')" and small: "vfs_small s'"
  shows "refines (open_spec s str m) r
    (\<lambda>(path, new) fd. vfs_inv s'
        \<and> fd \<noteq> FileDescriptor_NULL \<and> bt_get fd (files s) = None
        \<and> (\<exists>n. files s' = bt_insert fd (file_new n m) (files s) \<and> place_at s' path = Some (place_of (nodes s') n))
        \<and> (if new then tree_added s s' path File
           else (\<forall>q. place_at s' q = place_at s q) \<and> nodes_kept s s'))
    (vfs_inv s' \<and> vfs_ext s s')"
proof -
  obtain r1 s1 where r1: "open_entry str m s = (r1, s1)" by (cases "open_entry str m s")
  show ?thesis
  proof (cases "\<exists>e. r1 = Ok e")
    case True
    then obtain e where e: "r1 = Ok e" by blast
    let ?n = "de_node (entry s1 e)"
    note rest = open_rest [OF ok run small r1 [unfolded e]]
    note n = rest(3)
    obtain path new where spec: "open_spec s str m = Ok (path, new)"
      and oke: "vfs_ok [e] s1" "entry_path s1 e = path" "fd_next s1 = fd_next s" "files s1 = files s"
        "is_mutating m \<longrightarrow> \<not> is_directory (entry_node s1 e)"
        "if new then tree_added s s1 path File else vfs_ext s s1"
      using e open_entry_refines [OF ok r1 rest(1)] by (auto simp: refines_def split: outcome.splits)
    show ?thesis
    proof (cases "link_count (metadata (nodes s1 ! ?n)) + 1 < usize_limit")
      case False
      then show ?thesis using rest(4) by auto
    next
      case True
      then have s': "r = Ok (atomic_value (fd_next s))" "s' = opened ?n m s1" using rest(4) oke(3) by auto
      have fd: "fd_next s1 < 2 ^ 64" using small s' by (simp add: vfs_small_def opened_def)
      have mode: "m \<noteq> Read \<Longrightarrow> \<not> is_directory (nodes s1 ! ?n)"
        using oke(5) by (cases m) (simp_all add: entry_node_def)
      have same: "vfs_same s1 s'" using opened_same [OF n] s' by simp
      have inv: "vfs_inv s'"
        using opened_ok [OF oke(1) n fd mode] vfs_ok_subset [of "[e]" s' "[]"] s' by simp
      note fresh = fresh_fd [OF oke(1) fd] and pl = vfs_same_place_at [OF oke(1) same]
      have at: "place_at s' path = Some (place_of (nodes s') ?n)"
        using pl place_at_entry [OF oke(1) alive_member, of e] oke(2) vfs_same_directory(3) [OF same n] by simp
      have files: "files s' = bt_insert (atomic_value (fd_next s)) (file_new ?n m) (files s)"
        using s' oke(3,4) by (simp add: opened_def)
      show ?thesis
        using spec s'(1) inv fresh oke(3,4) files at opened_tree [OF ok oke(1) n oke(6), of m, folded s'(2)]
        by (auto simp: refines_def)
    qed
  next
    case False
    then have "s' = s1" "\<And>x. r1 = Err x \<Longrightarrow> r = Err x" "\<And>q. r1 = Panic q \<Longrightarrow> r = Panic q"
      using run r1 by (cases r1; simp add: vfs_open_def)+
    then show ?thesis
      using open_entry_refines [OF ok r1] small False
      by (auto simp: refines_def split: outcome.splits)
  qed
qed

end
