(* ===== verification/Vfs_Mount.thy ===== *)
theory Vfs_Mount
  imports Vfs_Ops
begin

text \<open>
  \<open>mount\<close>: the state after a mount satisfies the invariant, and the operation refines its
  specification on the namespace.
\<close>

section \<open>Mounting\<close>

fun root_data :: "fs_type \<Rightarrow> private_data" where
  "root_data RamFileSystemType = RamDirectoryNode []"
| "root_data DevFileSystemType = NoData"

definition mount_node :: "fs_type \<Rightarrow> u64 \<Rightarrow> fs_node" where
  "mount_node ty i = \<lparr>node_id = FsNodeId_ZERO, mount_id = i, kind = Directory, metadata = new_metadata,
     private_data = root_data ty\<rparr>"

definition mount_instance :: "fs_type \<Rightarrow> u32 \<Rightarrow> nref \<Rightarrow> file_system" where
  "mount_instance ty flags n =
     \<lparr>fs_metadata = \<lparr>device = None, mount_flags = flags, block_size = 512, max_file_size = usize_max,
        file_system_type = ty\<rparr>, next_node_id = cell_new 1, fs_root = n\<rparr>"

definition mounted :: "fs_type \<Rightarrow> u32 \<Rightarrow> dref option \<Rightarrow> string \<Rightarrow> vfs \<Rightarrow> vfs" where
  "mounted ty flags par name s =
     (let i = atomic_value (mount_next s); n = length (nodes s); d = length (entries (directory_cache s))
      in s\<lparr>mount_next := Suc (mount_next s), nodes := nodes s @ [mount_node ty i],
           directory_cache := cache_inserted par n name (directory_cache s),
           mount_table := bt_insert i \<lparr>m_id = i, m_root = d, m_file_system = mount_instance ty flags n\<rparr>
                            (mount_table s)\<rparr>)"

lemma fs_type_mount_eq:
  "fs_type_mount ty i source flags h =
     (if source = [] then (Ok (mount_instance ty flags (length h)), h @ [mount_node ty i]) else (Panic Assert, h))"
  by (cases ty) (simp_all add: ram_mount_def dev_mount_def try_bind_def asserting_def mount_instance_def mount_node_def)

lemma fresh_mount:
  assumes ok: "vfs_ok ls s" and small: "mount_next s < 2 ^ 64"
  shows "get_mount (atomic_value (mount_next s)) s = None"
proof (rule ccontr)
  assume "get_mount (atomic_value (mount_next s)) s \<noteq> None"
  then obtain j where "j < mount_next s" "atomic_value (mount_next s) = atomic_value j"
    using vfs_okD(4) [OF ok] by (fastforce simp: mounts_inv_def)
  then show False using atomic_value_inj [of "mount_next s" j] small by simp
qed

lemma mounted_fields:
  fixes ty flags par name s
  defines "s' \<equiv> mounted ty flags par name s"
  shows "files s' = files s" "handles s' = handles s" "fd_next s' = fd_next s" "char_devices s' = char_devices s"
    "fs_types s' = fs_types s" "mount_next s' = Suc (mount_next s)"
    "nodes s' = nodes s @ [mount_node ty (atomic_value (mount_next s))]"
    "directory_cache s' = cache_inserted par (length (nodes s)) name (directory_cache s)"
    "get_mount i s' = (if i = atomic_value (mount_next s)
       then Some \<lparr>m_id = i, m_root = length (entries (directory_cache s)),
                  m_file_system = mount_instance ty flags (length (nodes s))\<rparr> else get_mount i s)"
  by (simp_all add: s'_def mounted_def Let_def get_mount_def)

text \<open>A mount point: the name is free in a directory, or it is the root and there is none yet.\<close>

definition mountable :: "dref list \<Rightarrow> vfs \<Rightarrow> dref option \<Rightarrow> string \<Rightarrow> bool" where
  "mountable ls s par name \<longleftrightarrow> vfs_ok ls s \<and> vfs_small s \<and> mount_next s < 2 ^ 64 \<and>
     (case par of
        Some p \<Rightarrow> p \<in> set ls \<and> is_directory (entry_node s p) \<and> no_live_child ls s p name
      | None \<Rightarrow> name = ''/'' \<and> get_root (ls @ vfs_strong s) (directory_cache s) = None)"

lemma mountableD:
  assumes "mountable ls s par name"
  shows "vfs_ok ls s" "vfs_small s" "mount_next s < 2 ^ 64"
    "par = None \<Longrightarrow> name = ''/''"
    "par = None \<Longrightarrow> get_root (ls @ vfs_strong s) (directory_cache s) = None"
    "par = Some p \<Longrightarrow> p < length (entries (directory_cache s))"
    "par = Some p \<Longrightarrow> alive (ls @ vfs_strong s) (entries (directory_cache s)) p"
    "par = Some p \<Longrightarrow> is_directory (entry_node s p)"
    "par = Some p \<Longrightarrow> no_live_child ls s p name"
  using assms vfs_ok_local [of ls s p] alive_member [of p ls] by (auto simp: mountable_def)

lemma mounted_entry:
  assumes m: "mountable ls s par name" and d: "d < length (entries (directory_cache s))"
  shows "entry (mounted ty flags par name s) d = entry (with_entry par (length (nodes s)) name s) d"
    "de_name (entry (mounted ty flags par name s) d) = de_name (entry s d)"
    "de_node (entry (mounted ty flags par name s) d) = de_node (entry s d)"
    "de_parent (entry (mounted ty flags par name s) d) = de_parent (entry s d)"
    "entry_path (mounted ty flags par name s) d = entry_path s d"
proof -
  let ?t = "with_entry par (length (nodes s)) name s" and ?s = "mounted ty flags par name s"
  have en: "entry ?s k = entry ?t k" for k by (simp add: entry_def mounted_fields)
  have "entry_path ?s k = entry_path ?t k" for k by (simp add: entry_path_def en mounted_fields)
  then show "entry ?s d = entry ?t d" "de_name (entry ?s d) = de_name (entry s d)"
    "de_node (entry ?s d) = de_node (entry s d)" "de_parent (entry ?s d) = de_parent (entry s d)"
    "entry_path ?s d = entry_path s d"
    using en vfs_ext_entry [OF with_entry_ext d] entry_path_ext [OF with_entry_ext d] by simp_all
qed

lemma mounted_new_entry:
  assumes m: "mountable ls s par name"
  defines "d \<equiv> length (entries (directory_cache s))"
  shows "de_name (entry (mounted ty flags par name s) d) = name"
    "de_node (entry (mounted ty flags par name s) d) = length (nodes s)"
    "de_parent (entry (mounted ty flags par name s) d) = par"
    "entry_path (mounted ty flags par name s) d = (case par of None \<Rightarrow> [] | Some p \<Rightarrow> name # entry_path s p)"
proof -
  let ?s = "mounted ty flags par name s"
  have ne: "par \<noteq> Some d" using mountableD(6) [OF m, of d] by (auto simp: d_def)
  have en: "entry ?s d = entry (with_entry par (length (nodes s)) name s) d" by (simp add: entry_def mounted_fields)
  show new: "de_name (entry ?s d) = name" "de_node (entry ?s d) = length (nodes s)" "de_parent (entry ?s d) = par"
    using en with_entry_new [OF ne [unfolded d_def]] by (simp_all add: d_def)
  show "entry_path ?s d = (case par of None \<Rightarrow> [] | Some p \<Rightarrow> name # entry_path s p)"
    using new entry_path_root [of ?s d] entry_path_parent [of ?s d] mountableD(6) [OF m]
      mounted_entry(5) [OF m] by (auto simp: d_def split: option.split)
qed

lemma mounted_root_iff:
  assumes m: "mountable ls s par name"
  shows "is_mount_root (mounted ty flags par name s) d \<longleftrightarrow>
    d = length (entries (directory_cache s)) \<or> is_mount_root s d"
proof -
  have "get_mount (atomic_value (mount_next s)) s = None"
    using fresh_mount [OF mountableD(1,3) [OF m]] .
  moreover define m0 where "m0 = \<lparr>m_id = atomic_value (mount_next s), m_root = length (entries (directory_cache s)),
      m_file_system = mount_instance ty flags (length (nodes s))\<rparr>"
  ultimately have get: "get_mount i (mounted ty flags par name s) = Some mt \<longleftrightarrow>
        i = atomic_value (mount_next s) \<and> mt = m0 \<or> get_mount i s = Some mt" for i mt
    by (auto simp: mounted_fields)
  have "m_root m0 = length (entries (directory_cache s))" by (simp add: m0_def)
  then show ?thesis unfolding is_mount_root_def get by blast
qed

lemma mounted_nodes_inv:
  assumes m: "mountable ls s par name"
  shows "nodes_inv (mounted ty flags par name s)"
proof -
  let ?s = "mounted ty flags par name s" and ?i = "atomic_value (mount_next s)"
  note ok = mountableD(1) [OF m]
  have fresh: "get_mount ?i s = None" using fresh_mount [OF ok mountableD(3) [OF m]] .
  have other: "mount_id (nodes s ! n) \<noteq> ?i" if "n < length (nodes s)" for n
    using vfs_ok_node [OF ok that] fresh by force
  have node: "nodes ?s ! n = (if n < length (nodes s) then nodes s ! n else mount_node ty ?i)"
    if "n < length (nodes ?s)" for n
    using that by (auto simp: mounted_fields nth_append less_Suc_eq)
  have "node_mounted ?s (nodes ?s ! n) \<and> children_ok (nodes ?s) (nodes ?s ! n)" if n: "n < length (nodes ?s)" for n
  proof (cases "n < length (nodes s)")
    case True
    then have "node_mounted s (nodes s ! n)" "children_ok (nodes s) (nodes s ! n)"
      using vfs_okD(3) [OF ok] by (simp_all add: nodes_inv_def)
    then show ?thesis
      using node [OF n] True other [OF True] children_ok_append
      by (simp add: node_mounted_def mounted_fields split: option.splits)
  next
    case False
    then show ?thesis
      using node [OF n]
      by (cases ty) (simp_all add: node_mounted_def mounted_fields mount_node_def mount_type_def mount_instance_def
          cell_new_def FsNodeId_ZERO_def children_ok_def)
  qed
  moreover have "a = b" if a: "a < length (nodes ?s)" and b: "b < length (nodes ?s)"
      and eq: "fs_node_eq (nodes ?s ! a) (nodes ?s ! b)" for a b
    using a b eq node [OF a] node [OF b] other [of a] other [of b] vfs_okD(3) [OF ok]
    by (auto simp: nodes_inv_def fs_node_eq_def mount_node_def mounted_fields less_Suc_eq split: if_splits)
  ultimately show ?thesis unfolding nodes_inv_def by blast
qed

lemma mounted_mounts_inv:
  assumes m: "mountable ls s par name"
  shows "mounts_inv (mounted ty flags par name s)"
proof -
  let ?s = "mounted ty flags par name s" and ?i = "atomic_value (mount_next s)"
  note ok = mountableD(1) [OF m]
  have "bt_sorted (mount_table ?s)"
    using vfs_okD(4) [OF ok] by (simp add: mounts_inv_def mounted_def Let_def)
  moreover have "m_id mt = i \<and> (\<exists>j < mount_next ?s. i = atomic_value j)
          \<and> m_root mt < length (entries (directory_cache ?s))
          \<and> de_node (entry ?s (m_root mt)) = fs_root (m_file_system mt)
          \<and> mount_id (nodes ?s ! fs_root (m_file_system mt)) = i" if get: "get_mount i ?s = Some mt" for i mt
  proof (cases "i = ?i")
    case True
    then show ?thesis
      using get mounted_new_entry(2) [OF m, of ty flags]
      by (auto simp: mounted_fields mount_instance_def mount_node_def)
  next
    case False
    then have old: "get_mount i s = Some mt" using get by (simp add: mounted_fields)
    note mt = vfs_ok_mount [OF ok old]
    have "\<exists>j < mount_next s. i = atomic_value j" using vfs_okD(4) [OF ok] old by (simp add: mounts_inv_def)
    then show ?thesis
      using mt mounted_entry(3) [OF m mt(2), of ty flags] by (auto simp: mounted_fields nth_append less_Suc_eq)
  qed
  ultimately show ?thesis by (simp add: mounts_inv_def)
qed

lemma mounted_entries_inv:
  assumes m: "mountable ls s par name"
  shows "entries_inv (mounted ty flags par name s)"
  unfolding entries_inv_def
proof (intro allI impI)
  let ?s = "mounted ty flags par name s" and ?e = "length (entries (directory_cache s))"
  note ok = mountableD(1) [OF m]
  have node: "nodes ?s ! n = nodes s ! n" if "n < length (nodes s)" for n
    using that by (simp add: mounted_fields nth_append)
  have dir: "is_directory (entry_node ?s d) = is_directory (entry_node s d)" if "d < ?e" for d
    using mounted_entry(3) [OF m that] node [OF vfs_ok_entry(2) [OF ok that]] by (simp add: entry_node_def)
  fix d assume d: "d < length (entries (directory_cache ?s))"
  show "entry_coherent ?s d"
  proof (cases "d = ?e")
    case True
    note new = mounted_new_entry [OF m, of ty flags]
    have "is_directory (entry_node ?s ?e)"
      using new(2) by (simp add: entry_node_def mounted_fields mount_node_def is_directory_def)
    moreover have "is_directory (entry_node ?s p)" if "par = Some p" for p
      using dir [OF mountableD(6) [OF m that]] mountableD(8) [OF m that] by simp
    ultimately show ?thesis
      using True new mounted_root_iff [OF m] by (simp add: entry_coherent_def mounted_fields)
  next
    case False
    then have old: "d < ?e" using d by (simp add: mounted_fields)
    note coh = vfs_ok_entry [OF ok old] and en = mounted_entry [OF m old, of ty flags]
    have par: "is_directory (entry_node ?s p)
        \<and> fs_child (char_devices ?s) (nodes ?s) (de_node (entry ?s p)) nm
          = fs_child (char_devices s) (nodes s) (de_node (entry s p)) nm"
      if "de_parent (entry s d) = Some p" for p nm
    proof -
      note p = vfs_ok_parent [OF ok old that]
      show ?thesis
        using p(3) dir [OF p(2)] mounted_entry(3) [OF m p(2)] node [OF vfs_ok_entry(2) [OF ok p(2)]]
        by (simp add: fs_child_def mounted_fields(4))
    qed
    have "place_of (nodes ?s) (de_node (entry s d)) = place_of (nodes s) (de_node (entry s d))"
      using node [OF coh(2)] by (simp add: place_of_def)
    moreover have "length (nodes ?s) = Suc (length (nodes s))" by (simp add: mounted_fields)
    ultimately show ?thesis
      using coh par en dir [OF old] mounted_root_iff [OF m, of ty flags d] False
      by (auto simp: entry_coherent_def split: if_splits)
  qed
qed

lemma mounted_files_inv:
  assumes m: "mountable ls s par name"
  shows "files_inv (mounted ty flags par name s)"
proof -
  let ?s = "mounted ty flags par name s"
  note ok = mountableD(1) [OF m]
  have node: "nodes ?s ! n = nodes s ! n" if "n < length (nodes s)" for n
    using that by (simp add: mounted_fields nth_append)
  have "file_wf ?s fd f" if "bt_get fd (files s) = Some f" for fd f
    using vfs_ok_file [OF ok that] node [OF vfs_ok_file(2) [OF ok that]]
    by (simp add: file_wf_def mounted_fields(3,7))
  moreover have "link_count (metadata (nodes ?s ! n)) = Suc (open_count s n)" if n: "n < length (nodes ?s)" for n
  proof (cases "n < length (nodes s)")
    case True
    then show ?thesis using node [OF True] vfs_ok_files(3) [OF ok True] by simp
  next
    case False
    then have "n = length (nodes s)" using n by (simp add: mounted_fields)
    then show ?thesis
      using open_count_fresh [OF ok, of n] by (simp add: mounted_fields mount_node_def new_metadata_def)
  qed
  moreover have "open_count ?s n = open_count s n" for n by (simp add: open_count_def mounted_fields)
  ultimately show ?thesis using vfs_ok_files [OF ok] by (simp add: files_inv_def mounted_fields(1,3))
qed

lemma mounted_tree_inv:
  assumes m: "mountable ls s par name"
  shows "tree_inv (mounted ty flags par name s)"
proof -
  let ?s = "mounted ty flags par name s"
  note ok = mountableD(1) [OF m]
  have ch: "a < length (nodes s) \<and> ram_child (nodes s) a na y \<and> y < length (nodes s)"
    if a: "a < length (nodes ?s)" and c: "ram_child (nodes ?s) a na y" for a na y
  proof (cases "a < length (nodes s)")
    case True
    then have "ram_child (nodes s) a na y" using c by (simp add: ram_child_def mounted_fields nth_append)
    then show ?thesis using True fs_child_range [OF ok True, of na y] by (simp add: fs_child_ram_child)
  next
    case False
    then have "a = length (nodes s)" using a by (simp add: mounted_fields)
    then show ?thesis using c by (cases ty) (simp_all add: ram_child_def mounted_fields mount_node_def)
  qed
  have "a = b \<and> na = nb" if "a < length (nodes ?s)" "b < length (nodes ?s)"
      "ram_child (nodes ?s) a na y" "ram_child (nodes ?s) b nb y" for a na b nb y
    using tree_child [OF ok] ch [OF that(1,3)] ch [OF that(2,4)] by blast
  moreover have "\<not> ram_child (nodes ?s) a na (fs_root (m_file_system mt))"
    if a: "a < length (nodes ?s)" and mt: "get_mount i ?s = Some mt" for a na i mt
  proof
    assume c: "ram_child (nodes ?s) a na (fs_root (m_file_system mt))"
    note old = ch [OF a c]
    show False
    proof (cases "i = atomic_value (mount_next s)")
      case True
      then have "fs_root (m_file_system mt) = length (nodes s)"
        using mt by (auto simp: mounted_fields(9) mount_instance_def)
      then show False using old by simp
    next
      case False
      then have "get_mount i s = Some mt" using mt by (simp add: mounted_fields(9))
      then show False using tree_root [OF ok] old by blast
    qed
  qed
  ultimately show ?thesis unfolding tree_inv_def by blast
qed

lemma mounted_strong:
  assumes m: "mountable ls s par name"
  shows "set (vfs_strong (mounted ty flags par name s)) = insert (length (entries (directory_cache s))) (set (vfs_strong s))"
proof -
  have mi: "set (vfs_strong t) = {d. is_mount_root t d} \<union> set (handles t)" if srt: "bt_sorted (mount_table t)" for t
  proof -
    have "is_mount_root t d \<longleftrightarrow> (\<exists>m \<in> set (bt_values (mount_table t)). m_root m = d)" for d
      unfolding is_mount_root_def get_mount_def Bex_def by (metis bt_values_iff [OF srt])
    then show ?thesis by (auto simp: vfs_strong_def)
  qed
  have "bt_sorted (mount_table s)" "bt_sorted (mount_table (mounted ty flags par name s))"
    using vfs_okD(4) [OF mountableD(1) [OF m]] mounted_mounts_inv [OF m] by (simp_all add: mounts_inv_def)
  then show ?thesis using mi mounted_root_iff [OF m] by (auto simp: mounted_fields(2))
qed

lemma mounted_ok:
  assumes m: "mountable ls s par name"
  shows "vfs_ok ls (mounted ty flags par name s)"
proof -
  let ?s = "mounted ty flags par name s" and ?c = "directory_cache s"
  note ok = mountableD(1) [OF m]
  have small: "cache_small ?c" using mountableD(2) [OF m] by (simp add: vfs_small_def)
  have "cache_inv (directory_cache ?s)"
    using cache_inserted_inv [OF vfs_okD(1) [OF ok], of par name] mountableD(4,6) [OF m] by (simp add: mounted_fields)
  moreover have "cache_live (length (entries ?c) # ls @ vfs_strong s) (directory_cache ?s)"
    using cache_inserted_live [OF vfs_okD(1) [OF ok] small vfs_okD(2) [OF ok], of par name] mountableD(4-9) [OF m]
    by (simp add: mounted_fields no_live_child_def)
  then have "cache_live (ls @ vfs_strong ?s) (directory_cache ?s)"
    by (rule cache_live_mono) (use mounted_strong [OF m] in auto)
  ultimately show ?thesis
    using mounted_nodes_inv [OF m] mounted_mounts_inv [OF m] mounted_entries_inv [OF m] mounted_files_inv [OF m]
      mounted_tree_inv [OF m] by (simp add: vfs_ok_def)
qed

section \<open>The namespace after a mount\<close>

lemma place_at_above:
  assumes ok: "vfs_ok ls s" and none: "place_at s up = None"
  shows "place_at s (name # up) = None" "mount_place s (name # up) = None"
proof -
  show mp: "mount_place s (name # up) = None"
  proof (rule ccontr)
    assume "mount_place s (name # up) \<noteq> None"
    then obtain d where d: "is_mount_root s d" "entry_path s d = name # up" using mount_place_Some [OF ok] by auto
    note al = mount_root_alive [OF ok d(1)]
    obtain p where p: "de_parent (entry s d) = Some p"
      using d(2) entry_path_root [of s d] by (cases "de_parent (entry s d)") auto
    note p' = vfs_ok_parent [OF ok al(2) p]
    have "entry_path s p = up" using entry_path_parent [OF p p'(1)] d(2) by simp
    moreover have "alive (ls @ vfs_strong s) (entries (directory_cache s)) p"
      using alive_parent [OF al(1)] p p'(1) by (simp add: entry_def)
    ultimately show False using place_at_entry [OF ok] none by force
  qed
  then show "place_at s (name # up) = None" using none by (simp add: place_at.simps)
qed

definition mount_path :: "vfs \<Rightarrow> dref option \<Rightarrow> string \<Rightarrow> string list" where
  "mount_path s par name = (case par of None \<Rightarrow> [] | Some p \<Rightarrow> name # entry_path s p)"

lemma mounted_mount_place:
  assumes m: "mountable ls s par name" and none: "place_at s (mount_path s par name) = None"
  shows "mount_place (mounted ty flags par name s) q =
    (if q = mount_path s par name then Some (Node (length (nodes s))) else mount_place s q)"
proof -
  let ?s = "mounted ty flags par name s" and ?e = "length (entries (directory_cache s))"
  note ok = mountableD(1) [OF m] and ok' = mounted_ok [OF m, of ty flags]
  note new = mounted_new_entry [OF m, of ty flags]
  have path: "entry_path ?s ?e = mount_path s par name" using new(4) by (simp add: mount_path_def)
  have old: "entry_path ?s d = entry_path s d" "de_node (entry ?s d) = de_node (entry s d)" if "is_mount_root s d" for d
    using mounted_entry(3,5) [OF m mount_root_alive(2) [OF ok that]] by simp_all
  have not_old: "mount_place s (mount_path s par name) = None"
    using none place_at_mount [of s "mount_path s par name"] by (cases "mount_place s (mount_path s par name)") auto
  have "mount_place ?s q = Some pl \<longleftrightarrow>
      (if q = mount_path s par name then pl = Node (length (nodes s)) else mount_place s q = Some pl)" for pl
  proof -
    have "mount_place ?s q = Some pl \<longleftrightarrow> (q = mount_path s par name \<and> pl = Node (length (nodes s)))
        \<or> (\<exists>d. is_mount_root s d \<and> entry_path s d = q \<and> pl = Node (de_node (entry s d)))"
      unfolding mount_place_Some [OF ok'] mounted_root_iff [OF m] using path new(2) old by (auto simp: eq_commute)
    then have "mount_place ?s q = Some pl \<longleftrightarrow>
        (q = mount_path s par name \<and> pl = Node (length (nodes s))) \<or> mount_place s q = Some pl"
      by (simp add: mount_place_Some [OF ok])
    then show ?thesis using not_old by auto
  qed
  then show ?thesis by (intro option_eqI) auto
qed

text \<open>
  Mounting adds the root of the new file system at the path, and below it the devices if it is
  a devfs. Every other path names what it named before.
\<close>

lemma mounted_place_at:
  assumes m: "mountable ls s par name" and none: "place_at s (mount_path s par name) = None"
  shows "place_at (mounted ty flags par name s) q =
    (if q = mount_path s par name then Some (Node (length (nodes s)))
     else if q \<noteq> [] \<and> tl q = mount_path s par name
     then (case ty of RamFileSystemType \<Rightarrow> None
           | DevFileSystemType \<Rightarrow> map_option Device (get_char_device (hd q) (char_devices s)))
     else place_at s q)"
proof (induction q)
  case Nil
  then show ?case using mounted_mount_place [OF m none] by (simp add: place_at.simps)
next
  case (Cons nm q)
  let ?s = "mounted ty flags par name s" and ?P = "mount_path s par name" and ?x = "length (nodes s)"
  note ok = mountableD(1) [OF m] and mp = mounted_mount_place [OF m none, of ty flags]
  have child: "place_child ?s (Node n) nm = place_child s (Node n) nm" if "n < ?x" for n
    using that by (simp add: place_child_def fs_child_def mounted_fields nth_append)
  have child_new: "place_child ?s (Node ?x) nm = (case ty of RamFileSystemType \<Rightarrow> None
           | DevFileSystemType \<Rightarrow> map_option Device (get_char_device nm (char_devices s)))"
    by (cases ty) (simp_all add: place_child_def fs_child_def mounted_fields mount_node_def)
  have child_dev: "place_child t (Device d) nm = None" for t d by (simp add: place_child_def)
  consider (here) "nm # q = ?P" | (child) "nm # q \<noteq> ?P" "q = ?P"
    | (deep) "nm # q \<noteq> ?P" "q \<noteq> ?P" "q \<noteq> []" "tl q = ?P"
    | (other) "nm # q \<noteq> ?P" "q \<noteq> ?P" "\<not> (q \<noteq> [] \<and> tl q = ?P)" by blast
  then show ?case
  proof cases
    case here
    then show ?thesis using mp [of ?P] place_at_mount by simp
  next
    case child
    then show ?thesis
      using mp Cons place_at_above(2) [OF ok none, of nm] child_new by (cases ty) (simp_all add: place_at.simps)
  next
    case deep
    then obtain nm' where q: "q = nm' # ?P" by (cases q) auto
    have "place_at s q = None" using place_at_above(1) [OF ok none] q by simp
    then have "mount_place s (nm # q) = None" "place_at s (nm # q) = None" using place_at_above [OF ok] by blast+
    moreover have "Option.bind (place_at ?s q) (\<lambda>pl. place_child ?s pl nm) = None"
      using Cons deep child_dev by (cases ty; cases "get_char_device (hd q) (char_devices s)") simp_all
    ultimately show ?thesis using mp deep by (simp add: place_at.simps)
  next
    case other
    then have eq: "place_at ?s q = place_at s q" using Cons by auto
    have "Option.bind (place_at ?s q) (\<lambda>pl. place_child ?s pl nm) = Option.bind (place_at s q) (\<lambda>pl. place_child s pl nm)"
    proof (cases "place_at s q")
      case (Some pl)
      then show ?thesis
        using eq child place_at_range [OF ok, of q] child_dev by (cases pl) simp_all
    qed (use eq in simp)
    then show ?thesis using mp other by (simp add: place_at.simps split: option.split)
  qed
qed

section \<open>mount\<close>

definition mount_spec :: "vfs \<Rightarrow> string \<Rightarrow> string option \<Rightarrow> (io_error, fs_type \<times> string list) outcome" where
  "mount_spec s target fs_kind =
     (case fs_kind of
        None \<Rightarrow> Panic Todo
      | Some k \<Rightarrow>
          (case find_file_system_type k (fs_types s) of
             None \<Rightarrow> Err FileSystemTypeNotFound
           | Some ty \<Rightarrow>
               if target = ''/'' then (if place_at s [] = None then Ok (ty, []) else Err AlreadyExists)
               else
                 (case walk_path s target of
                    Ok (Some path) \<Rightarrow> Panic Todo
                  | Err x \<Rightarrow> Err x
                  | Panic q \<Rightarrow> Panic q
                  | Ok None \<Rightarrow>
                      (case walk_path_parent s target of
                         Ok (up, name) \<Rightarrow> Ok (ty, name # up)
                       | Err x \<Rightarrow> Err x
                       | Panic q \<Rightarrow> Panic q))))"

text \<open>The new tree: the root of a new instance at the path, and its devices if it is a devfs.\<close>

definition tree_mounted :: "vfs \<Rightarrow> vfs \<Rightarrow> fs_type \<Rightarrow> string list \<Rightarrow> bool" where
  "tree_mounted s s' ty path \<longleftrightarrow>
     (\<exists>x. length (nodes s) \<le> x \<and> x < length (nodes s') \<and> is_directory (nodes s' ! x)
        \<and> (\<forall>q. place_at s' q =
             (if q = path then Some (Node x)
              else if q \<noteq> [] \<and> tl q = path
              then (case ty of RamFileSystemType \<Rightarrow> None
                    | DevFileSystemType \<Rightarrow> map_option Device (get_char_device (hd q) (char_devices s)))
              else place_at s q)))
     \<and> files s' = files s \<and> nodes_kept s s'"

lemma mounted_tree:
  assumes m: "mountable ls s par name" and none: "place_at s (mount_path s par name) = None"
  shows "tree_mounted s (mounted ty flags par name s) ty (mount_path s par name)"
  unfolding tree_mounted_def
  by (intro conjI exI [of _ "length (nodes s)"] allI impI mounted_place_at [OF m none])
    (simp_all add: mounted_fields mount_node_def is_directory_def nodes_kept_def file_bytes_def nth_append)

lemma tree_mounted_ext:
  assumes ok: "vfs_ok ls s" and ext: "vfs_ext s s1" and added: "tree_mounted s1 s' ty path"
  shows "tree_mounted s s' ty path"
proof -
  have same: "length (nodes s) \<le> length (nodes s1)" "files s1 = files s" "char_devices s1 = char_devices s"
    using ext by (auto simp: vfs_ext_def)
  obtain x where x: "length (nodes s1) \<le> x" "x < length (nodes s')" "is_directory (nodes s' ! x)"
    "\<forall>q. place_at s' q = (if q = path then Some (Node x) else if q \<noteq> [] \<and> tl q = path
       then (case ty of RamFileSystemType \<Rightarrow> None
             | DevFileSystemType \<Rightarrow> map_option Device (get_char_device (hd q) (char_devices s)))
       else place_at s1 q)"
    using added unfolding tree_mounted_def same(3) by blast
  have "files s' = files s" "nodes_kept s s'"
    using added same nodes_kept_trans [OF nodes_kept_ext [OF ext]] by (auto simp: tree_mounted_def)
  then show ?thesis
    unfolding tree_mounted_def
    using x same place_at_ext [OF ok ext] by (intro conjI exI [of _ x]) simp_all
qed

text \<open>The end of \<open>mount\<close>, common to the root and to other targets.\<close>

definition mount_part :: "fs_type \<Rightarrow> string \<Rightarrow> u32 \<Rightarrow> dref list \<Rightarrow> dref option \<Rightarrow> string \<Rightarrow> u64 vfs_op" where
  "mount_part ty source flags ls par name =
     try_bind
       (try_bind new_mount_id (\<lambda>i.
        try_bind (on_nodes (fs_type_mount ty i source flags)) (\<lambda>fs.
        try_bind (vfs_cache_insert ls par (fs_root fs) name) (\<lambda>root.
        ret \<lparr>m_id = i, m_root = root, m_file_system = fs\<rparr>))))
       (\<lambda>mount s. (Ok (m_id mount), s\<lparr>mount_table := bt_insert (m_id mount) mount (mount_table s)\<rparr>))"

lemma mount_part_eq:
  assumes "case par of None \<Rightarrow> name = ''/'' | Some p \<Rightarrow> no_live_child ls s p name"
  shows "mount_part ty [] flags ls par name s = (Ok (atomic_value (mount_next s)), mounted ty flags par name s)"
proof -
  let ?s = "s\<lparr>mount_next := Suc (mount_next s), nodes := nodes s @ [mount_node ty (atomic_value (mount_next s))]\<rparr>"
  have strong: "vfs_strong ?s = vfs_strong s" by (simp add: vfs_strong_def)
  have ins: "vfs_cache_insert ls par (length (nodes s)) name ?s =
      (Ok (length (entries (directory_cache s))),
       ?s\<lparr>directory_cache := cache_inserted par (length (nodes s)) name (directory_cache s)\<rparr>)"
    using assms strong by (auto simp: vfs_cache_insert_def cache_insert_eq no_live_child_def split: option.splits)
  have fs: "fs_root (mount_instance ty flags n) = n" for n by (simp add: mount_instance_def)
  show ?thesis
    using ins by (simp add: mount_part_def new_mount_id_def fetch_add_def try_bind_def on_nodes_def
        fs_type_mount_eq fs mounted_def Let_def)
qed

lemma advances_mount_part [counters]: "advances (mount_part ty source flags ls par name)"
  unfolding advances_def mount_part_def by (auto intro!: advances_try_bind_at counters [THEN advances_at])

lemma mount_part_refines:
  assumes ok: "vfs_ok ls s" and small: "vfs_small s'" and run: "mount_part ty [] flags ls par name s = (r, s')"
    and par: "case par of
        Some p \<Rightarrow> p \<in> set ls \<and> is_directory (entry_node s p) \<and> no_live_child ls s p name
      | None \<Rightarrow> name = ''/'' \<and> get_root (ls @ vfs_strong s) (directory_cache s) = None"
    and none: "place_at s (mount_path s par name) = None"
  shows "r = Ok (atomic_value (mount_next s)) \<and> vfs_ok ls s' \<and> tree_mounted s s' ty (mount_path s par name)
    \<and> get_mount (atomic_value (mount_next s)) s = None \<and> get_mount (atomic_value (mount_next s)) s' \<noteq> None"
proof -
  have "mount_part ty [] flags ls par name s = (Ok (atomic_value (mount_next s)), mounted ty flags par name s)"
    using par by (intro mount_part_eq) (auto split: option.splits)
  then have s': "r = Ok (atomic_value (mount_next s))" "s' = mounted ty flags par name s" using run by simp_all
  have "vfs_small s" "mount_next s < 2 ^ 64"
    using small advances_small [OF advances_mount_part run small] by (simp_all add: s' vfs_small_def mounted_fields)
  then have m: "mountable ls s par name" using ok par by (simp add: mountable_def)
  show ?thesis
    using mounted_ok [OF m] mounted_tree [OF m none] fresh_mount [OF ok mountableD(3) [OF m]]
    by (simp add: s' mounted_fields(9))
qed

lemma mount_unfold:
  assumes "find_file_system_type k (fs_types s) = Some ty"
  shows "vfs_mount_at source target (Some k) flags s =
    (if target = ''/'' then
       (if get_root (vfs_strong s) (directory_cache s) \<noteq> None then (Err AlreadyExists, s)
        else mount_part ty source flags [] None ''/'' s)
     else
       try_bind (resolve_path target) (\<lambda>r. case r of
           Some _ \<Rightarrow> panic Todo
         | None \<Rightarrow> try_bind (resolve_path_parent_directory target) (\<lambda>(parent, name).
             mount_part ty source flags [parent] (Some parent) name)) s)"
proof -
  have ty: "fst_name (fs_type_metadata ty) = ''ramfs'' \<or> fst_name (fs_type_metadata ty) = ''devfs''" by (cases ty) simp_all
  have start: "try_bind (case Some k of
         Some k \<Rightarrow> ok_or (find_file_system_type k (fs_types s)) FileSystemTypeNotFound
       | None \<Rightarrow> panic Todo) f s = f ty s" for f :: "fs_type \<Rightarrow> u64 vfs_op"
    using assms by (simp add: ok_or_def)
  show ?thesis
  proof (cases "target = ''/''")
    case True
    then show ?thesis
      unfolding vfs_mount_at_def start using ty by (auto simp: try_bind_def mount_part_def)
  next
    case False
    obtain r1 s1 where r1: "resolve_path target s = (r1, s1)" by (cases "resolve_path target s")
    obtain r2 s2 where r2: "resolve_path_parent_directory target s1 = (r2, s2)"
      by (cases "resolve_path_parent_directory target s1")
    have "r1 = Ok None \<Longrightarrow> ?thesis"
      unfolding vfs_mount_at_def start using ty False r1 r2
      by (cases r2) (auto simp: try_bind_def mount_part_def split: prod.split)
    moreover have "r1 \<noteq> Ok None \<Longrightarrow> ?thesis"
      unfolding vfs_mount_at_def start using ty False r1
      by (cases r1) (auto simp: try_bind_def split: option.split)
    ultimately show ?thesis by blast
  qed
qed

lemma mount_no_type:
  "vfs_mount_at source target None flags s = (Panic Todo, s)"
  "find_file_system_type k (fs_types s) = None \<Longrightarrow>
     vfs_mount_at source target (Some k) flags s = (Err FileSystemTypeNotFound, s)"
  by (simp_all add: vfs_mount_at_def ok_or_def)

lemma mount_type_cases:
  obtains "fs_kind = None" | k where "fs_kind = Some k" "find_file_system_type k (fs_types s) = None"
  | k ty where "fs_kind = Some k" "find_file_system_type k (fs_types s) = Some ty"
  by (cases fs_kind) auto

lemma advances_mount [counters]: "advances (vfs_mount_at source target fs_kind flags)"
  unfolding advances_def
proof
  fix s
  show "counters_le s (snd (vfs_mount_at source target fs_kind flags s))"
    by (rule mount_type_cases [where fs_kind = fs_kind and s = s])
      (auto simp: mount_no_type mount_unfold intro!: advances_try_bind_at counters [THEN advances_at] split: option.split)
qed

text \<open>The properties that hold of a successful mount, for the path it is mounted on.\<close>

definition mount_done :: "vfs \<Rightarrow> vfs \<Rightarrow> fs_type \<times> string list \<Rightarrow> u64 \<Rightarrow> bool" where
  "mount_done s s' = (\<lambda>(ty, path) i. vfs_inv s' \<and> tree_mounted s s' ty path
     \<and> get_mount i s = None \<and> get_mount i s' \<noteq> None)"

lemma mount_root_refines:
  assumes ok: "vfs_inv s" and small: "vfs_small s'" and ty: "find_file_system_type k (fs_types s) = Some ty"
    and run: "vfs_mount_at [] ''/'' (Some k) flags s = (r, s')"
  shows "refines (mount_spec s ''/'' (Some k)) r (mount_done s s') (vfs_inv s' \<and> vfs_ext s s')"
proof -
  note root = root_entry [OF ok advances_small [OF advances_mount run small]]
  show ?thesis
  proof (cases "get_root (vfs_strong s) (directory_cache s)")
    case None
    have "mount_part ty [] flags [] None ''/'' s = (r, s')" using run None by (simp add: mount_unfold [OF ty])
    then show ?thesis
      using mount_part_refines [OF ok small, of ty flags None "''/''" r] root None ty
      by (simp add: refines_def mount_spec_def mount_done_def mount_path_def)
  next
    case (Some d)
    then show ?thesis
      using run root ty ok by (auto simp: mount_unfold [OF ty] refines_def mount_spec_def)
  qed
qed

text \<open>The mount under a free name of a directory.\<close>

lemma mount_below_refines:
  assumes ok: "vfs_inv s" and small: "vfs_small s'" and ty: "find_file_system_type k (fs_types s) = Some ty" and target: "target \<noteq> ''/''"
    and r1: "resolve_path target s = (Ok None, s1)" and r2: "resolve_path_parent_directory target s1 = (Ok (p, name), s2)"
    and none: "walk_path s target = Ok None" and run: "mount_part ty [] flags [p] (Some p) name s2 = (r, s')"
  shows "refines (mount_spec s target (Some k)) r (mount_done s s') (vfs_inv s' \<and> vfs_ext s s')"
proof -
  have small2: "vfs_small s2" using advances_small [OF advances_mount_part run small] .
  note fr = resolve_for_create [OF ok r1 r2 small2]
  note ext = fr(1)
  have okp: "vfs_ok [p] s2" "is_directory (entry_node s2 p)" "place_at s2 (name # entry_path s2 p) = None"
    using fr(2) by (simp_all add: free_name_def)
  have "r = Ok (atomic_value (mount_next s2)) \<and> vfs_ok [p] s' \<and> tree_mounted s2 s' ty (mount_path s2 (Some p) name)
      \<and> get_mount (atomic_value (mount_next s2)) s2 = None \<and> get_mount (atomic_value (mount_next s2)) s' \<noteq> None"
    by (rule mount_part_refines [OF okp(1) small run])
      (use okp free_name_no_child(1) [OF fr(2) small2] in \<open>simp_all add: mount_path_def\<close>)
  moreover have "get_mount i s = None" if "get_mount i s2 = None" for i
    using vfs_ext_mount [OF ext, of i] that by simp
  ultimately show ?thesis
    using fr(3) none ty target tree_mounted_ext [OF ok ext] vfs_ok_subset [of "[p]" s' "[]"]
    by (simp add: refines_def mount_spec_def mount_done_def mount_path_def)
qed

lemma mount_at_refines:
  assumes ok: "vfs_inv s" and small: "vfs_small s'" and ty: "find_file_system_type k (fs_types s) = Some ty"
    and run: "vfs_mount_at [] target (Some k) flags s = (r, s')" and target: "target \<noteq> ''/''"
  shows "refines (mount_spec s target (Some k)) r (mount_done s s') (vfs_inv s' \<and> vfs_ext s s')"
proof -
  obtain r1 s1 where r1: "resolve_path target s = (r1, s1)" by (cases "resolve_path target s")
  let ?rest = "\<lambda>(parent, name). mount_part ty [] flags [parent] (Some parent) name"
  show ?thesis
  proof (cases "r1 = Ok None")
    case True
    obtain r2 s2 where r2: "resolve_path_parent_directory target s1 = (r2, s2)"
      by (cases "resolve_path_parent_directory target s1")
    have run': "try_bind (resolve_path_parent_directory target) ?rest s1 = (r, s')"
      using run r1 True target by (simp add: mount_unfold [OF ty])
    have small2: "vfs_small s2"
    proof (cases r2)
      case (Ok pn)
      then have "mount_part ty [] flags [fst pn] (Some (fst pn)) (snd pn) s2 = (r, s')"
        using run' r2 by (simp add: split_def)
      then show ?thesis using advances_small [OF advances_mount_part _ small] by blast
    qed (use run' r2 small in simp_all)
    have small1: "vfs_small s1" using advances_small [OF advances_resolve_parent r2 small2] .
    note w1 = resolve_path_walk [OF ok r1 small1]
    then have ext1: "vfs_ext s s1" and ok1: "vfs_inv s1" and none: "walk_path s target = Ok None"
      using True by (auto simp: resolves_def split: outcome.splits option.splits)
    note w2 = resolve_path_parent_walk [OF ok1 r2 small2]
    have same: "walk_path_parent s1 target = walk_path_parent s target" using walk_path_ext(2) [OF ok ext1] .
    have ext: "vfs_ext s s2" using vfs_ext_trans [OF ext1] w2 by blast
    show ?thesis
    proof (cases r2)
      case (Ok pn)
      obtain p name where pn: "pn = (p, name)" by (cases pn)
      have "mount_part ty [] flags [p] (Some p) name s2 = (r, s')" using run' r2 Ok pn by simp
      then show ?thesis by (rule mount_below_refines [OF ok small ty target r1 [unfolded True] r2 [unfolded Ok pn] none])
    next
      case (Err x)
      then have "r = Err x" "s' = s2" using run' r2 by simp_all
      then show ?thesis
        using w2 same Err ext none ty target
        by (auto simp: refines_def mount_spec_def resolves_parent_def split: outcome.splits)
    next
      case (Panic q)
      then have "r = Panic q" using run' r2 by simp
      then show ?thesis
        using w2 same Panic none ty target
        by (auto simp: refines_def mount_spec_def resolves_parent_def split: outcome.splits)
    qed
  next
    case False
    have rest: "(r, s') = (case r1 of Ok p \<Rightarrow> (Panic Todo, s1) | Err x \<Rightarrow> (Err x, s1) | Panic q \<Rightarrow> (Panic q, s1))"
      using run r1 False target by (auto simp: mount_unfold [OF ty] try_bind_def split: outcome.splits option.splits)
    then have "s' = s1" by (auto split: outcome.splits)
    then have "vfs_ext s s1 \<and> resolves s1 (walk_path s target) r1" using resolve_path_walk [OF ok r1] small by simp
    then show ?thesis
      using rest False ty target
      by (auto simp: resolves_def refines_def mount_spec_def split: outcome.splits option.splits)
  qed
qed

lemma mount_refines:
  assumes ok: "vfs_inv s" and small: "vfs_small s'"
    and run: "vfs_mount_at [] target fs_kind flags s = (r, s')"
  shows "refines (mount_spec s target fs_kind) r (mount_done s s') (vfs_inv s' \<and> vfs_ext s s')"
proof (rule mount_type_cases [where fs_kind = fs_kind and s = s])
  fix k ty
  assume k: "fs_kind = Some k" "find_file_system_type k (fs_types s) = Some ty"
  then show ?thesis
    using mount_root_refines [OF ok small k(2)] mount_at_refines [OF ok small k(2)] run by (cases "target = ''/''") auto
qed (use run ok in \<open>auto simp: refines_def mount_spec_def mount_no_type\<close>)

end
