(* ===== verification/Vfs_Listing.thy ===== *)
theory Vfs_Listing
  imports Vfs_Ops
begin

text \<open>
  \<open>read_directory\<close>: the listing of a directory has exactly the names that resolve in it.
\<close>

section \<open>Listing a directory\<close>

lemma bt_insert_context:
  "bt_get n (context_insert name i k ctx) = (if n = name then Some \<lparr>di_name = name, di_id = i, di_kind = k\<rparr> else bt_get n ctx)"
  by (simp add: context_insert_def)

text \<open>An entry for the name with this kind; the id is not specified.\<close>

definition listed :: "directory_iteration_context \<Rightarrow> string \<Rightarrow> fs_node_kind option \<Rightarrow> bool" where
  "listed ctx name k =
     (case k of
        None \<Rightarrow> bt_get name ctx = None
      | Some k \<Rightarrow> \<exists>i. bt_get name ctx = Some \<lparr>di_name = name, di_id = i, di_kind = k\<rparr>)"

lemma insert_children_listed:
  assumes "bt_sorted cs"
  shows "bt_get name (insert_children h cs ctx) =
    (case bt_get name cs of
       None \<Rightarrow> bt_get name ctx
     | Some x \<Rightarrow> Some \<lparr>di_name = name, di_id = node_id (h ! x), di_kind = kind (h ! x)\<rparr>)"
  using assms
proof (induction cs arbitrary: ctx)
  case (Cons e cs)
  obtain n x where e: "e = (n, x)" by (cases e)
  have "bt_get n cs = None" using Cons.prems e by (auto simp: bt_get_None_iff)
  then show ?case using Cons e by (auto simp: bt_insert_context split: option.split)
qed simp

lemma ram_listing:
  assumes "bt_sorted c"
  shows "listed (insert_children h c context_new) name (map_option (\<lambda>x. kind (h ! x)) (bt_get name c))"
  using insert_children_listed [OF assms, of name h context_new]
  by (auto simp: listed_def context_new_def split: option.split)

lemma insert_devices_listed:
  assumes "insert_devices ds ctx (fs, h) = (Ok ctx', s')"
  shows "(if name \<in> (\<lambda>d. cd_name (char_device_metadata d)) ` set ds
       then listed ctx' name (Some CharDevice) else bt_get name ctx' = bt_get name ctx)
    \<and> (\<exists>c. s' = (fs\<lparr>next_node_id := \<lparr>inner = c\<rparr>\<rparr>, h) \<and> inner (next_node_id fs) \<le> c)"
  using assms
proof (induction ds arbitrary: ctx fs)
  case Nil
  then show ?case by (auto intro!: exI [of _ "inner (next_node_id fs)"])
next
  case (Cons d ds)
  let ?c = "inner (next_node_id fs)" and ?n = "cd_name (char_device_metadata d)"
  have c: "?c \<noteq> - 1"
  proof
    assume "?c = - 1"
    then show False using Cons.prems by (simp add: on_fs_simp take_node_id_max)
  qed
  let ?ctx = "context_insert ?n ?c CharDevice ctx"
  have "insert_devices ds ?ctx (fs\<lparr>next_node_id := \<lparr>inner = ?c + 1\<rparr>\<rparr>, h) = (Ok ctx', s')"
    using Cons.prems c by (simp add: on_fs_simp take_node_id_Ok try_bind_def)
  from Cons.IH [OF this] have IH: "if name \<in> (\<lambda>d. cd_name (char_device_metadata d)) ` set ds
       then listed ctx' name (Some CharDevice) else bt_get name ctx' = bt_get name ?ctx"
    "\<exists>k. s' = (fs\<lparr>next_node_id := \<lparr>inner = k\<rparr>\<rparr>, h) \<and> ?c + 1 \<le> k" by simp_all
  have "?c \<le> k" if "?c + 1 \<le> k" for k
    using order_trans [OF less_imp_le [OF word_self_inc [OF c]] that] .
  then show ?case using IH by (auto simp: bt_insert_context listed_def split: if_splits)
qed

lemma insert_mounts_listed:
  "(\<exists>m \<in> set ms. mounted_at s d name m \<and> bt_get name (insert_mounts s d ms ctx) =
       Some \<lparr>di_name = name, di_id = node_id (entry_node s (m_root m)), di_kind = kind (entry_node s (m_root m))\<rparr>)
   \<or> ((\<forall>m \<in> set ms. \<not> mounted_at s d name m) \<and> bt_get name (insert_mounts s d ms ctx) = bt_get name ctx)"
proof (induction ms arbitrary: ctx)
  case (Cons m ms)
  let ?ctx = "case de_parent (entry s (m_root m)) of
          None \<Rightarrow> ctx
        | Some p \<Rightarrow>
            if directory_entry_eq (entry s p) (entry s d)
            then context_insert (de_name (entry s (m_root m)))
                   (node_id (entry_node s (m_root m))) (kind (entry_node s (m_root m))) ctx
            else ctx"
  have ctx: "bt_get name ?ctx = (if mounted_at s d name m
      then Some \<lparr>di_name = name, di_id = node_id (entry_node s (m_root m)), di_kind = kind (entry_node s (m_root m))\<rparr>
      else bt_get name ctx)"
    by (auto simp: mounted_at_def bt_insert_context split: option.split)
  from Cons [of ?ctx] show ?case
    by (elim disjE) (auto simp: ctx)
qed simp

section \<open>Advancing a node counter\<close>

lemma put_counter_ok:
  assumes ok: "vfs_ok ls s" and m: "get_mount i s = Some m" and c: "inner (next_node_id (m_file_system m)) \<le> c"
  defines "s' \<equiv> put_file_system i ((m_file_system m)\<lparr>next_node_id := \<lparr>inner = c\<rparr>\<rparr>) s"
  shows "vfs_ok ls s'" "vfs_ext s s'" "nodes s' = nodes s" "directory_cache s' = directory_cache s"
proof -
  have s': "s' = s\<lparr>mount_table := bt_insert i (m\<lparr>m_file_system :=
      (m_file_system m)\<lparr>next_node_id := \<lparr>inner = c\<rparr>\<rparr>\<rparr>) (mount_table s)\<rparr>"
    using m by (simp add: s'_def put_file_system_def)
  have srt: "bt_sorted (mount_table s)" using vfs_okD(4) [OF ok] by (simp add: mounts_inv_def)
  show same: "nodes s' = nodes s" "directory_cache s' = directory_cache s" by (simp_all add: s')
  show ext: "vfs_ext s s'"
    unfolding vfs_ext_def s' using m
    by (simp add: bt_insert_map_same [OF srt] get_mount_def mount_core_def)
  have "node_mounted s' nd" if "node_mounted s nd" for nd
    using that m c by (auto simp: node_mounted_def get_mount_def s' mount_type_def split: option.splits)
  then have "nodes_inv s'" using vfs_okD(3) [OF ok] same by (simp add: nodes_inv_def)
  moreover have "entries_inv s'" using vfs_ext_coherent [OF ok ext] same by (simp add: entries_inv_def)
  moreover have "files_inv s'" by (rule vfs_ext_files_inv [OF ok ext]) (use same in simp)
  moreover have "tree_inv s'" by (rule vfs_ext_tree_inv [OF ok ext]) (use same in simp)
  ultimately show "vfs_ok ls s'"
    using ok vfs_ext_mounts_inv [OF ok ext] vfs_ext_strong [OF ext] same by (simp add: vfs_ok_def)
qed

section \<open>The listing of a driver\<close>

text \<open>Devices are registered under the name they have.\<close>

definition registry_named :: "char_device_registry \<Rightarrow> bool" where
  "registry_named cds \<longleftrightarrow> bt_sorted cds
     \<and> (\<forall>name d. get_char_device name cds = Some d \<longrightarrow> cd_name (char_device_metadata d) = name)"

fun place_kind :: "vfs \<Rightarrow> place \<Rightarrow> fs_node_kind" where
  "place_kind s (Node n) = kind (nodes s ! n)"
| "place_kind s (Device d) = CharDevice"

lemma registry_names:
  assumes "registry_named cds"
  shows "name \<in> (\<lambda>d. cd_name (char_device_metadata d)) ` set (list_char_devices cds) \<longleftrightarrow> get_char_device name cds \<noteq> None"
proof -
  have "bt_sorted cds" using assms by (simp add: registry_named_def)
  then show ?thesis
    using assms bt_values_iff [of cds]
    by (fastforce simp: registry_named_def list_char_devices_def get_char_device_def image_iff)
qed

lemma insert_devices_outcome:
  "fst (insert_devices ds ctx st) = Panic Overflow \<or> (\<exists>x. fst (insert_devices ds ctx st) = Ok x)"
proof (induction ds arbitrary: ctx st)
  case (Cons d ds)
  show ?case
    by (cases st; cases "inner (next_node_id (fst st)) = - 1")
      (use Cons in \<open>simp_all add: on_fs_simp take_node_id_max take_node_id_Ok try_bind_def\<close>)
qed simp

lemma driver_listing:
  assumes ok: "vfs_ok ls s" and n: "n < length (nodes s)" "is_directory (nodes s ! n)"
    and run: "call_directory_operation n (\<lambda>ops. do_read_directory ops context_new n) s = (r, s')"
  shows "r = Panic Overflow \<or> (\<exists>ctx. r = Ok ctx \<and> vfs_ok ls s' \<and> vfs_ext s s'
      \<and> nodes s' = nodes s \<and> directory_cache s' = directory_cache s
      \<and> (registry_named (char_devices s) \<longrightarrow>
           (\<forall>name. listed ctx name (map_option (place_kind s) (fs_child (char_devices s) (nodes s) n name)))))"
proof (rule directory_data [OF ok n])
  fix m c
  assume m: "get_mount (mount_id (nodes s ! n)) s = Some m" "mount_type m = RamFileSystemType"
    and c: "private_data (nodes s ! n) = RamDirectoryNode c"
  have "call_directory_operation n (\<lambda>ops. do_read_directory ops context_new n) s =
      (Ok (insert_children (nodes s) c context_new), s)"
    using m c put_file_system_same [OF ok m(1)]
    by (simp add: call_directory_operation_eq mount_type_ops ram_directory_operations_def
        default_directory_operations_def ram_read_directory_def on_heap_simp data_as_ram_directory_def)
  then have r: "r = Ok (insert_children (nodes s) c context_new)" "s' = s" using run by simp_all
  have "map_option (place_kind s) (fs_child (char_devices s) (nodes s) n name)
      = map_option (\<lambda>x. kind (nodes s ! x)) (bt_get name c)" for name
    using c by (simp add: fs_child_def option.map_comp o_def)
  then show ?thesis using r ok ram_listing [OF vfs_ok_children(1) [OF ok n(1) c]] by simp
next
  fix m
  assume m: "get_mount (mount_id (nodes s ! n)) s = Some m" "mount_type m = DevFileSystemType"
    and c: "private_data (nodes s ! n) = NoData"
  let ?i = "mount_id (nodes s ! n)" and ?fs = "m_file_system m"
  obtain r1 fs' h' where call: "insert_devices (list_char_devices (char_devices s)) context_new (?fs, nodes s) = (r1, (fs', h'))"
    by (metis surj_pair)
  have run': "r = r1" "s' = put_file_system ?i fs' (s\<lparr>nodes := h'\<rparr>)"
    using run call m by (simp_all add: call_directory_operation_eq mount_type_ops dev_directory_operations_def
        default_directory_operations_def dev_read_directory_def)
  have not_err: "r1 = Panic Overflow \<or> (\<exists>ctx. r1 = Ok ctx)"
    using insert_devices_outcome [of "list_char_devices (char_devices s)" context_new "(?fs, nodes s)"] call by simp
  show ?thesis
  proof (cases "r1 = Panic Overflow")
    case False
    then obtain ctx where ctx: "r1 = Ok ctx" using not_err by blast
    note l = insert_devices_listed [OF call [unfolded ctx]]
    then obtain c' where c': "fs' = ?fs\<lparr>next_node_id := \<lparr>inner = c'\<rparr>\<rparr>" "h' = nodes s" "inner (next_node_id ?fs) \<le> c'"
      by auto
    have "map_option (place_kind s) (fs_child (char_devices s) (nodes s) n name)
        = (if get_char_device name (char_devices s) = None then None else Some CharDevice)" for name
      using c by (auto simp: fs_child_def)
    then have "listed ctx name (map_option (place_kind s) (fs_child (char_devices s) (nodes s) n name))"
      if "registry_named (char_devices s)" for name
      using l [of name] registry_names [OF that, of name]
      by (auto simp: listed_def context_new_def split: if_splits)
    then show ?thesis
      using ctx run' c' put_counter_ok [OF ok m(1) c'(3)] by simp
  qed (use run' in simp)
qed

section \<open>read_directory\<close>

definition read_directory_spec :: "vfs \<Rightarrow> string \<Rightarrow> (io_error, string list) outcome" where
  "read_directory_spec s str =
     (case walk_path s str of
        Ok (Some path) \<Rightarrow> if directory_at s path then Ok path else Err NotADirectory
      | Ok None \<Rightarrow> Err EntryNotFound
      | Err x \<Rightarrow> Err x
      | Panic q \<Rightarrow> Panic q)"

lemma advances_read_directory [counters]: "advances (vfs_read_directory str)"
  unfolding advances_def vfs_read_directory_def
  by (auto intro!: advances_try_bind_at counters [THEN advances_at])

text \<open>The listing of a directory together with its mounts is the listing of the paths below it.\<close>

lemma mounts_listing:
  assumes ok: "vfs_ok ls s" and small: "vfs_small s" and d: "d \<in> set ls" "is_directory (entry_node s d)"
    and drv: "listed ctx name (map_option (place_kind s) (fs_child (char_devices s) (nodes s) (de_node (entry s d)) name))"
  shows "listed (insert_mounts s d (bt_values (mount_table s)) ctx) name
    (map_option (place_kind s) (place_at s (name # entry_path s d)))"
proof -
  have al: "alive (ls @ vfs_strong s) (entries (directory_cache s)) d" using alive_member [OF d(1)] .
  have bound: "d < length (entries (directory_cache s))" using vfs_ok_local [OF ok d(1)] .
  have at: "place_at s (entry_path s d) = Some (Node (de_node (entry s d)))"
    using ram_directory_at_entry(1) [OF ok d] .
  let ?ms = "bt_values (mount_table s)"
  from insert_mounts_listed [of ?ms s d name ctx] show ?thesis
  proof (elim disjE bexE conjE)
    fix m
    assume m: "m \<in> set ?ms" "mounted_at s d name m"
      and get: "bt_get name (insert_mounts s d ?ms ctx) =
        Some \<lparr>di_name = name, di_id = node_id (entry_node s (m_root m)), di_kind = kind (entry_node s (m_root m))\<rparr>"
    have root: "is_mount_root s (m_root m)" using mount_root_iff [OF ok] m(1) by blast
    note al_m = mount_root_alive [OF ok root]
    have "de_parent (entry s (m_root m)) = Some d" "de_name (entry s (m_root m)) = name"
      using m(2) cache_id_inj [OF vfs_okD(1) [OF ok] _ _ bound] small vfs_ok_parent(2) [OF ok al_m(2)]
      by (auto simp: mounted_at_def directory_entry_eq_def entry_def vfs_small_def split: option.splits)
    then have "entry_path s (m_root m) = name # entry_path s d"
      using ancestors_chain(2) [OF ok al_m(2)] by simp
    then have "place_at s (name # entry_path s d) = Some (place_of (nodes s) (de_node (entry s (m_root m))))"
      using place_at_entry [OF ok al_m(1)] by simp
    moreover have "place_of (nodes s) (de_node (entry s (m_root m))) = Node (de_node (entry s (m_root m)))"
      using directory_place [OF ok vfs_ok_entry(2) [OF ok al_m(2)]] al_m(3) by (simp add: entry_node_def)
    ultimately show ?thesis using get by (simp add: listed_def entry_node_def)
  next
    assume none: "\<forall>m \<in> set ?ms. \<not> mounted_at s d name m"
      and get: "bt_get name (insert_mounts s d ?ms ctx) = bt_get name ctx"
    have "find_mounted s d name = None" using none by (simp add: find_mounted_def find_None_iff)
    then have "place_at s (name # entry_path s d) = fs_child (char_devices s) (nodes s) (de_node (entry s d)) name"
      using find_mounted_place [OF ok small al] at by (simp add: place_at.simps place_child_def)
    then show ?thesis using drv get by (simp add: listed_def split: option.splits)
  qed
qed

text \<open>The listing of a directory whose entry is \<open>d\<close>: what the driver has, and the mounts.\<close>

lemma directory_contents:
  assumes ok: "vfs_ok [d] s" and dir: "is_directory (entry_node s d)"
    and call: "call_directory_operation (de_node (entry s d)) (\<lambda>ops. do_read_directory ops context_new (de_node (entry s d))) s
      = (r, s')" and small: "vfs_small s'"
  shows "r = Panic Overflow \<or> (\<exists>ctx. r = Ok ctx \<and> vfs_inv s' \<and> vfs_ext s s' \<and> (registry_named (char_devices s) \<longrightarrow>
      (\<forall>name. listed (insert_mounts s' d (bt_values (mount_table s')) ctx) name
         (map_option (place_kind s') (place_at s' (name # entry_path s d))))))"
proof -
  let ?n = "de_node (entry s d)"
  have n: "?n < length (nodes s)" using vfs_ok_entry(2) [OF ok vfs_ok_local [OF ok, of d]] by simp
  have dir_n: "is_directory (nodes s ! ?n)" using dir by (simp add: entry_node_def)
  from driver_listing [OF ok n dir_n call] show ?thesis
  proof (elim disjE exE conjE)
    fix ctx
    assume ctx: "r = Ok ctx" "vfs_ok [d] s'" "vfs_ext s s'" "nodes s' = nodes s" "directory_cache s' = directory_cache s"
      and l: "registry_named (char_devices s) \<longrightarrow>
        (\<forall>name. listed ctx name (map_option (place_kind s) (fs_child (char_devices s) (nodes s) ?n name)))"
    have "place_kind s' pl = place_kind s pl" for pl using ctx(4) by (cases pl) simp_all
    then have e: "entry s' d = entry s d" "char_devices s' = char_devices s" "place_kind s' = place_kind s"
      "entry_path s' d = entry_path s d"
      using ctx(3,4,5) by (auto simp: entry_def vfs_ext_def entry_path_def)
    have "listed (insert_mounts s' d (bt_values (mount_table s')) ctx) name
        (map_option (place_kind s') (place_at s' (name # entry_path s' d)))"
      if "registry_named (char_devices s)" for name
      by (rule mounts_listing [OF ctx(2)])
        (use small dir ctx(4) e l that in \<open>simp_all add: entry_node_def\<close>)
    then show ?thesis using ctx(1,3) e(4) vfs_ok_subset [OF ctx(2), of "[]"] by simp
  qed simp
qed

lemma place_kind_ext:
  assumes ok: "vfs_inv s" and ext: "vfs_ext s s'"
  shows "map_option (place_kind s') (place_at s' q) = map_option (place_kind s) (place_at s q)"
proof -
  have "place_kind s' pl = place_kind s pl" if "place_at s q = Some pl" for pl
    using that place_at_range [OF ok, of q] vfs_ext_node(1) [OF ext] by (cases pl) simp_all
  then show ?thesis using place_at_ext [OF ok ext, of q] by (cases "place_at s q") simp_all
qed

lemma read_directory_refines:
  assumes ok: "vfs_inv s" and run: "vfs_read_directory str s = (r, s')" and small: "vfs_small s'"
  shows "refines (read_directory_spec s str) r
    (\<lambda>path ctx. vfs_inv s' \<and> vfs_ext s s'
        \<and> (registry_named (char_devices s) \<longrightarrow>
             (\<forall>name. listed ctx name (map_option (place_kind s) (place_at s (name # path))))))
    (vfs_inv s' \<and> vfs_ext s s')"
proof -
  obtain r1 s1 where r1: "resolve_path str s = (r1, s1)" by (cases "resolve_path str s")
  let ?call = "\<lambda>d. call_directory_operation (de_node (entry s1 d))
      (\<lambda>ops. do_read_directory ops context_new (de_node (entry s1 d)))"
  have rest: "(r, s') = (case r1 of
      Ok (Some d) \<Rightarrow> if \<not> is_directory (entry_node s1 d) then (Err NotADirectory, s1)
        else try_bind (?call d) (\<lambda>ctx s. (Ok (insert_mounts s d (bt_values (mount_table s)) ctx), s)) s1
    | Ok None \<Rightarrow> (Err EntryNotFound, s1) | Err x \<Rightarrow> (Err x, s1) | Panic q \<Rightarrow> (Panic q, s1))"
    using run r1 by (auto simp: vfs_read_directory_def try_bind_def ok_or_def split: outcome.split option.split)
  have small1: "vfs_small s1"
  proof (cases "\<exists>d. r1 = Ok (Some d) \<and> is_directory (entry_node s1 d)")
    case True
    then obtain d where d: "r1 = Ok (Some d)" "is_directory (entry_node s1 d)" by blast
    have adv: "advances (try_bind (?call d) (\<lambda>ctx s. (Ok (insert_mounts s d (bt_values (mount_table s)) ctx), s)))"
      unfolding advances_def by (auto intro!: advances_try_bind_at counters [THEN advances_at])
    have "try_bind (?call d) (\<lambda>ctx s. (Ok (insert_mounts s d (bt_values (mount_table s)) ctx), s)) s1 = (r, s')"
      using rest d by simp
    then show ?thesis by (rule advances_small [OF adv _ small])
  qed (use rest small in \<open>auto split: outcome.splits option.splits if_splits\<close>)
  note w = resolve_path_walk [OF ok r1 small1]
  then have ext: "vfs_ext s s1" by blast
  show ?thesis
  proof (cases "\<exists>d. r1 = Ok (Some d)")
    case False
    then show ?thesis
      using rest w by (auto simp: refines_def read_directory_spec_def resolves_def split: outcome.splits option.splits)
  next
    case True
    then obtain d where d: "r1 = Ok (Some d)" by blast
    then have path: "walk_path s str = Ok (Some (entry_path s1 d))" and okd: "vfs_ok [d] s1"
      using w by (auto simp: resolves_def split: outcome.splits option.splits)
    have dir: "directory_at s (entry_path s1 d) = is_directory (entry_node s1 d)"
      using place_at_local(2) [OF okd, of d] directory_at_ext [OF ok ext] by simp
    show ?thesis
    proof (cases "is_directory (entry_node s1 d)")
      case False
      then show ?thesis
        using rest d path dir ext vfs_ok_subset [OF okd, of "[]"] by (simp add: refines_def read_directory_spec_def)
    next
      case True
      obtain r2 s2 where r2: "?call d s1 = (r2, s2)" by (cases "?call d s1")
      have reg: "char_devices s1 = char_devices s" using ext by (simp add: vfs_ext_def)
      have s': "s' = s2" using rest d True r2 by (auto simp: try_bind_def split: outcome.splits)
      from directory_contents [OF okd True r2 small [unfolded s']] show ?thesis
      proof (elim disjE exE conjE)
        assume "r2 = Panic Overflow"
        then show ?thesis using rest d True r2 by simp
      next
        fix ctx
        assume ctx: "r2 = Ok ctx" "vfs_inv s2" "vfs_ext s1 s2"
          and l: "registry_named (char_devices s1) \<longrightarrow> (\<forall>name. listed (insert_mounts s2 d (bt_values (mount_table s2)) ctx) name
            (map_option (place_kind s2) (place_at s2 (name # entry_path s1 d))))"
        have "r = Ok (insert_mounts s2 d (bt_values (mount_table s2)) ctx)" using rest d True r2 ctx(1) by simp
        then show ?thesis
          using s' l path dir True ctx(2) vfs_ext_trans [OF ext ctx(3)] place_kind_ext [OF ok vfs_ext_trans [OF ext ctx(3)]] reg
          by (simp add: refines_def read_directory_spec_def)
      qed
    qed
  qed
qed

end
