(* ===== verification/Vfs_Machine.thy ===== *)
theory Vfs_Machine
  imports Vfs_Mount Vfs_Listing
begin

text \<open>
  The VFS as a state machine: a step is a system call that returns. Every step keeps the
  invariant, so it holds in every reachable state in which no id counter has wrapped around.
\<close>

section \<open>System calls\<close>

text \<open>The public operations of \<open>VirtualFileSystem\<close>, and a caller dropping an entry it got.\<close>

datatype vfs_call =
    SysMount string string "string option" u32
  | SysOpen string file_mode
  | SysClose u64
  | SysRead u64 "u8 list"
  | SysWrite u64 "u8 list"
  | SysReadDirectory string
  | SysCreateDirectory string
  | SysStat string
  | SysPruneDirectoryCache
  | DropEntry dref

definition discard :: "('s, 'e, 'a) op \<Rightarrow> ('s, 'e, unit) op" where
  "discard m = try_bind m (\<lambda>_. ret ())"

fun perform :: "vfs_call \<Rightarrow> unit vfs_op" where
  "perform (SysMount source target fs_kind flags) = discard (vfs_mount_at source target fs_kind flags)"
| "perform (SysOpen str m) = discard (vfs_open str m)"
| "perform (SysClose fd) = vfs_close fd"
| "perform (SysRead fd buf) = discard (vfs_read fd buf)"
| "perform (SysWrite fd buf) = discard (vfs_write fd buf)"
| "perform (SysReadDirectory str) = discard (vfs_read_directory str)"
| "perform (SysCreateDirectory str) = discard (vfs_create_directory str)"
| "perform (SysStat str) = discard (vfs_stat str)"
| "perform SysPruneDirectoryCache = (\<lambda>s. (Ok (), prune_directory_cache s))"
| "perform (DropEntry d) = (\<lambda>s. (Ok (), drop_handle d s))"

text \<open>A step is a call that returns; after a panic there is no further step.\<close>

inductive vfs_step :: "vfs \<Rightarrow> vfs \<Rightarrow> bool" where
  "perform c s = (r, s') \<Longrightarrow> \<not> is_panic r \<Longrightarrow> vfs_step s s'"

inductive_simps vfs_step_simps: "vfs_step s s'"

abbreviation vfs_reaches :: "vfs \<Rightarrow> vfs \<Rightarrow> bool" where
  "vfs_reaches \<equiv> vfs_step\<^sup>*\<^sup>*"

section \<open>Every call keeps the invariant\<close>

lemma discard_run:
  assumes "discard m s = (r, s')"
  obtains r' where "m s = (r', s')" "is_panic r' = is_panic r" "\<And>e. r = Err e \<longleftrightarrow> r' = Err e"
  using assms by (cases "m s"; cases "fst (m s)") (auto simp: discard_def try_bind_def)

lemma refines_inv:
  assumes "refines spec r fine bad" "\<not> is_panic r" "\<And>x a. fine x a \<Longrightarrow> vfs_inv s'" "bad \<Longrightarrow> vfs_inv s'"
  shows "vfs_inv s'"
  using assms by (auto simp: refines_def split: outcome.splits)

lemma mount_part_source:
  "source \<noteq> [] \<Longrightarrow> fst (mount_part ty source flags ls par name s) = Panic Assert"
  by (simp add: mount_part_def new_mount_id_def fetch_add_def try_bind_def on_nodes_def fs_type_mount_eq)

lemma mount_source:
  assumes run: "vfs_mount_at source target fs_kind flags s = (r, s')" "r \<noteq> Panic Assert"
  shows "vfs_mount_at [] target fs_kind flags s = (r, s')"
proof (cases "source = []")
  case False
  have part: "r \<noteq> Panic Assert \<Longrightarrow> mount_part ty source flags ls par name t \<noteq> (r, s')" for ty ls par name t
    using mount_part_source [OF False, of ty flags ls par name t] by auto
  show ?thesis
  proof (rule mount_type_cases [where fs_kind = fs_kind and s = s])
    fix k ty
    assume k: "fs_kind = Some k" "find_file_system_type k (fs_types s) = Some ty"
    obtain r1 s1 where r1: "resolve_path target s = (r1, s1)" by (cases "resolve_path target s")
    obtain r2 s2 where r2: "resolve_path_parent_directory target s1 = (r2, s2)"
      by (cases "resolve_path_parent_directory target s1")
    show ?thesis
      using run part r1 r2 k mount_unfold [OF k(2), of source target flags] mount_unfold [OF k(2), of "[]" target flags]
      by (cases r1; cases r2) (auto simp: try_bind_def split: option.splits if_splits prod.splits)
  qed (use run in \<open>auto simp: mount_no_type\<close>)
qed (use run in simp)

lemma mount_inv:
  assumes "vfs_inv s" "vfs_mount_at source target fs_kind flags s = (r, s')" "\<not> is_panic r" "vfs_small s'"
  shows "vfs_inv s'"
proof -
  have "r \<noteq> Panic Assert" using assms(3) by auto
  then show ?thesis
    using refines_inv [OF mount_refines [OF assms(1,4) mount_source [OF assms(2)]] assms(3)]
    by (auto simp: mount_done_def)
qed

lemma open_inv:
  assumes "vfs_inv s" "vfs_open str m s = (r, s')" "\<not> is_panic r" "vfs_small s'"
  shows "vfs_inv s'"
  using refines_inv [OF open_refines [OF assms(1,2,4)] assms(3)] by auto

lemma close_inv: "vfs_inv s \<Longrightarrow> vfs_close fd s = (r, s') \<Longrightarrow> vfs_inv s'"
  using closed_ok [of "[]" s fd] by (auto simp: vfs_close_eq split: option.splits)

text \<open>What \<open>read\<close> and \<open>write\<close> can have done: nothing, or moved the position (and changed bytes).\<close>

lemma file_access_cases:
  assumes ok: "vfs_inv s"
  obtains (closed) "bt_get fd (files s) = None"
  | (directory) f where "bt_get fd (files s) = Some f" "is_directory (nodes s ! file_node f)"
  | (ram) f data where "bt_get fd (files s) = Some f" "\<not> is_directory (nodes s ! file_node f)"
      "private_data (nodes s ! file_node f) = RamFileNode data"
  | (device) f d where "bt_get fd (files s) = Some f" "\<not> is_directory (nodes s ! file_node f)"
      "private_data (nodes s ! file_node f) = CharDeviceData d"
proof (cases "bt_get fd (files s)")
  case (Some f)
  show ?thesis
  proof (cases "is_directory (nodes s ! file_node f)")
    case False
    show ?thesis
      by (rule file_node_cases [OF ok vfs_ok_file(2) [OF ok Some] False]) (use ram device Some False in blast)+
  qed (use directory Some in blast)
qed (use closed in blast)

lemma set_private_data_same:
  assumes "n < length h" "private_data (h ! n) = RamFileNode a"
  shows "list_all2 same_node h (set_private_data n (RamFileNode b) h)"
  using assms by (auto simp: list_all2_conv_all_nth nth_set_private_data same_node_def)

lemma read_inv:
  assumes ok: "vfs_inv s" and run: "vfs_read fd buf s = (r, s')"
  shows "vfs_inv s' \<and> vfs_same s s'"
proof -
  have moved: "vfs_inv (moved fd f p (nodes s) s) \<and> vfs_same s (moved fd f p (nodes s) s)"
    if "bt_get fd (files s) = Some f" for f p
    using moved_ok [OF ok that list_all2_refl, of p] by (simp add: vfs_same_def moved_def list_all2_refl)
  from ok show ?thesis
  proof (cases rule: file_access_cases [of s fd])
    case (ram f data)
    then show ?thesis
      using run ok moved [of f] vfs_read_file [OF ok ram(1) _ ram(3), of buf] vfs_read_wrong_mode [OF ram(1,2), of buf]
      by (cases "mode f = Read") (auto split: if_splits)
  next
    case (device f d)
    then show ?thesis
      using run ok moved [of f] vfs_read_device [OF ok device(1) _ device(3), of buf]
        vfs_read_wrong_mode [OF device(1,2), of buf]
      by (cases "mode f = Read"; cases d) (auto split: if_splits)
  qed (use run ok in \<open>simp_all add: vfs_read_no_file vfs_read_directory_file\<close>)
qed

lemma write_inv:
  assumes ok: "vfs_inv s" and run: "vfs_write fd buf s = (r, s')"
  shows "vfs_inv s' \<and> vfs_same s s'"
proof -
  have moved: "vfs_inv (moved fd f p h s) \<and> vfs_same s (moved fd f p h s)"
    if "bt_get fd (files s) = Some f" "list_all2 same_node (nodes s) h"
      "\<And>k. k < length h \<Longrightarrow> metadata (h ! k) = metadata (nodes s ! k)" for f p h
    using moved_ok [OF ok that(1,2), of p] that by (simp add: vfs_same_def moved_def)
  from ok show ?thesis
  proof (cases rule: file_access_cases [of s fd])
    case (ram f data)
    let ?h = "set_private_data (file_node f) (RamFileNode (write_at (position f) buf data)) (nodes s)"
    have "vfs_inv (moved fd f p ?h s) \<and> vfs_same s (moved fd f p ?h s)" for p
      using moved [OF ram(1) set_private_data_same [OF vfs_ok_file(2) [OF ok ram(1)] ram(3)], of _ p]
      by (simp add: nth_set_private_data)
    then show ?thesis
      using run ok vfs_write_file [OF ok ram(1) _ ram(3), of buf] vfs_write_wrong_mode [OF ram(1,2), of buf]
      by (cases "mode f = Write") (auto split: if_splits)
  next
    case (device f d)
    then show ?thesis
      using run ok moved [of f "nodes s"] vfs_write_device [OF ok device(1) _ device(3), of buf]
        vfs_write_wrong_mode [OF device(1,2), of buf]
      by (cases "mode f = Write"; cases d) (auto simp: list_all2_refl split: if_splits)
  qed (use run ok in \<open>simp_all add: vfs_write_no_file vfs_write_directory_file\<close>)
qed

lemma advances_files [counters]:
  "advances (vfs_close fd)" "advances (vfs_read fd buf)" "advances (vfs_write fd buf)"
  unfolding advances_def vfs_close_def vfs_read_def vfs_write_def
  by (auto intro!: advances_try_bind_at counters [THEN advances_at] split: prod.split)

lemma advances_discard [counters]: "advances m \<Longrightarrow> advances (discard m)"
  unfolding advances_def discard_def by (auto intro!: advances_try_bind_at)

lemma advances_perform [counters]: "advances (perform c)"
proof (cases c)
  case SysPruneDirectoryCache
  then show ?thesis
    by (simp add: advances_def counters_le_def prune_directory_cache_def prune_def Let_def)
next
  case (DropEntry d)
  then show ?thesis by (simp add: advances_def counters_le_def drop_handle_def)
qed (simp_all add: counters)

lemma call_inv:
  assumes ok: "vfs_inv s" and run: "perform c s = (r, s')" "\<not> is_panic r" and small: "vfs_small s'"
  shows "vfs_inv s'"
proof (cases c)
  case (SysReadDirectory str)
  then obtain r' where "vfs_read_directory str s = (r', s')" "\<not> is_panic r'" using run by (auto elim: discard_run)
  then show ?thesis using refines_inv [OF read_directory_refines [OF ok _ small]] by blast
next
  case (SysCreateDirectory str)
  then obtain r' where "vfs_create_directory str s = (r', s')" "\<not> is_panic r'" using run by (auto elim: discard_run)
  then show ?thesis using refines_inv [OF create_directory_refines [OF ok _ small]] by blast
next
  case (SysStat str)
  then obtain r' where "vfs_stat str s = (r', s')" "\<not> is_panic r'" using run by (auto elim: discard_run)
  then show ?thesis using refines_inv [OF stat_refines [OF ok _ small]] by blast
next
  case (SysMount source target fs_kind flags)
  then show ?thesis using run mount_inv [OF ok _ _ small] by (auto elim: discard_run)
next
  case (SysOpen str m)
  then show ?thesis using run open_inv [OF ok _ _ small] by (auto elim: discard_run)
next
  case (SysRead fd buf)
  then show ?thesis using run read_inv [OF ok] by (auto elim: discard_run)
next
  case (SysWrite fd buf)
  then show ?thesis using run write_inv [OF ok] by (auto elim: discard_run)
qed (use run ok in \<open>auto simp: prune_ok drop_handle_ok close_inv\<close>)

interpretation vfs_system: counted_system vfs_step vfs_inv vfs_small
proof
  fix s s' assume "vfs_inv s" "vfs_step s s'" "vfs_small s'"
  then show "vfs_inv s'" by (auto simp: vfs_step_simps intro: call_inv)
next
  fix s s' assume "vfs_step s s'" "vfs_small s'"
  then show "vfs_small s" using advances_small [OF advances_perform] by (auto simp: vfs_step_simps)
qed

lemma vfs_new_inv: "vfs_inv (vfs_new cds fts)"
  by (simp add: vfs_ok_def vfs_new_def cache_inv_def cache_live_def cache_default_def alive_iff vfs_strong_def
      bt_values_def nodes_inv_def mounts_inv_def entries_inv_def files_inv_def tree_inv_def get_mount_def)

end
