(* ===== verification/Vfs_Room.thy ===== *)
theory Vfs_Room
  imports Vfs_Machine
begin

text \<open>
  When the operations on paths stop with an arithmetic overflow: only when a counter of the state
  they leave is used up. The node counter of a mounted file system is a checked 64-bit integer, and
  so is the link count of a node; both stay where they are when their increment fails, so that
  the final state shows the reason. In a state with room the operations therefore have exactly the
  outcome of their specification.
\<close>

section \<open>Exhausted counters\<close>

definition exhausted :: "vfs \<Rightarrow> bool" where
  "exhausted s \<longleftrightarrow> (\<exists>(i, m) \<in> set (mount_table s). inner (next_node_id (m_file_system m)) = - 1)
     \<or> (\<exists>nd \<in> set (nodes s). usize_limit \<le> link_count (metadata nd) + 1)"

text \<open>An outcome that is not an overflow, or is one with an exhausted counter.\<close>

definition full_stop :: "('e, 'a) outcome \<times> vfs \<Rightarrow> bool" where
  "full_stop r \<longleftrightarrow> (fst r = Panic Overflow \<longrightarrow> exhausted (snd r))"

text \<open>The same of a driver method, which overflows at the node counter of its own instance.\<close>

definition driver_overflow :: "(driver, 'e, 'a) op \<Rightarrow> bool" where
  "driver_overflow m \<longleftrightarrow> (\<forall>d d'. m d = (Panic Overflow, d') \<longrightarrow> inner (next_node_id (fst d')) = - 1)"

lemma full_stop_simps [simp]:
  "full_stop (Ok x, s)" "full_stop (Err e, s)" "full_stop (Panic p, s) \<longleftrightarrow> (p = Overflow \<longrightarrow> exhausted s)"
  by (simp_all add: full_stop_def)

lemma overflow_try_bind:
  assumes "full_stop (m s)" "\<And>x s'. full_stop (f x s')"
  shows "full_stop (try_bind m f s)"
  using assms by (auto simp: full_stop_def try_bind_def split: prod.splits outcome.splits)

lemma driver_overflow_bind:
  assumes "driver_overflow m" "\<And>x. driver_overflow (f x)"
  shows "driver_overflow (try_bind m f)"
  using assms unfolding driver_overflow_def by (auto simp: try_bind_def split: prod.splits outcome.splits) 

lemma driver_overflow_basic:
  "driver_overflow (ret x)" "driver_overflow (fail e)" "driver_overflow (on_fs take_node_id)"
  "driver_overflow (on_heap (alloc_node nd))" "driver_overflow (on_heap (ram_add_child p name n))"
  "driver_overflow (ram_lookup p name)" "driver_overflow (ram_read_directory ctx p)"
  by (auto simp: driver_overflow_def on_fs_def on_heap_def take_node_id_def cell_replace_def increment_node_id_def
      ram_add_child_def ram_lookup_def ram_read_directory_def data_as_ram_directory_def try_bind_def split: if_splits private_data.splits)


lemma driver_overflow_local:
  assumes "\<And>x. driver_overflow (f x)"
  shows "driver_overflow (\<lambda>d. f (g d) d)"
  using assms by (simp add: driver_overflow_def)

lemma driver_overflow_ram:
  "driver_overflow (ram_create_file p name)" "driver_overflow (ram_create_directory p name)"
  unfolding ram_create_file_def ram_create_directory_def
  by (rule driver_overflow_local, intro driver_overflow_bind driver_overflow_basic)+

lemma driver_overflow_devices: "driver_overflow (insert_devices ds ctx)"
  by (induction ds arbitrary: ctx) (auto intro!: driver_overflow_bind driver_overflow_basic)

lemma driver_overflow_dev: "driver_overflow (dev_lookup reg p name)"
proof -
  have "driver_overflow (\<lambda>s. try_bind (on_fs take_node_id) (\<lambda>i.
         try_bind (on_heap (alloc_node \<lparr>node_id = i, mount_id = fs_mount_id s, kind = CharDevice,
                     metadata = new_metadata, private_data = CharDeviceData d\<rparr>)) (\<lambda>node.
         (ret (Some node) :: (driver, io_error, nref option) op))) s)" for d
    by (rule driver_overflow_local) (intro driver_overflow_bind driver_overflow_basic)
  then show ?thesis
    by (cases "get_char_device name reg") (simp_all add: dev_lookup_def driver_overflow_def)
qed

lemma driver_overflow_lookup:
  "driver_overflow (do_lookup (file_system_directory_operations reg fs) p name)"
  "driver_overflow (do_read_directory (file_system_directory_operations reg fs) ctx p)"
  "driver_overflow (do_create_file (file_system_directory_operations reg fs) p name)"
  "driver_overflow (do_create_directory (file_system_directory_operations reg fs) p name)"
  by (simp_all add: file_system_directory_operations_def ram_directory_operations_def dev_directory_operations_def
      default_directory_operations_def dev_read_directory_def
      driver_overflow_basic driver_overflow_ram driver_overflow_devices driver_overflow_dev split: fs_type.split)

lemma overflow_call:
  assumes "\<And>reg fs. driver_overflow (f (file_system_directory_operations reg fs))"
  shows "full_stop (call_directory_operation n f s)"
proof (cases "get_mount (mount_id (nodes s ! n)) s")
  case (Some m)
  let ?i = "mount_id (nodes s ! n)"
  obtain r fs h where run: "f (file_system_directory_operations (char_devices s) (m_file_system m)) (m_file_system m, nodes s) = (r, (fs, h))"
    by (metis surj_pair)
  let ?s = "put_file_system ?i fs (s\<lparr>nodes := h\<rparr>)"
  have "bt_get ?i (mount_table ?s) = Some (m\<lparr>m_file_system := fs\<rparr>)"
    using Some by (simp add: put_file_system_def get_mount_def)
  from bt_get_mem [OF this] have "(?i, m\<lparr>m_file_system := fs\<rparr>) \<in> set (mount_table ?s)" .
  moreover have "r = Panic Overflow \<Longrightarrow> inner (next_node_id fs) = - 1"
    using assms run unfolding driver_overflow_def by fastforce
  ultimately have "r = Panic Overflow \<Longrightarrow> exhausted ?s"
    unfolding exhausted_def by force
  then show ?thesis
    using run Some unfolding full_stop_def
    by (auto simp: call_directory_operation_def node_file_system_def unwrap_def)
qed (simp add: full_stop_def call_directory_operation_def node_file_system_def unwrap_def)

named_theorems overflows \<open>operations that overflow only when a counter is exhausted\<close>

lemma overflow_basic [overflows]:
  "full_stop (asserting b s)" "full_stop (ok_or v e s)" "full_stop (give_handle d s)"
  "full_stop (unwrap v s)" "full_stop (new_mount_id s)" "full_stop (new_file_descriptor s)"
  "full_stop (vfs_cache_insert ls par n name s)" "full_stop (require_root s)" "full_stop (require_absolute pth s)"
  by (auto simp: full_stop_def op_simps give_handle_def new_mount_id_def new_file_descriptor_def fetch_add_def
      vfs_cache_insert_def cache_insert_def require_root_def require_absolute_def is_absolute_def Let_def
      split: option.splits if_splits prod.splits list.splits)

lemma overflow_parse [overflows]: "full_stop (parse_path str s)"
  by (auto simp: full_stop_def parse_path_def path_from_str_def Let_def split: list.splits if_splits)

lemma overflow_driver_calls [overflows]:
  "full_stop (call_directory_operation n (\<lambda>ops. do_lookup ops p name) s)"
  "full_stop (call_directory_operation n (\<lambda>ops. do_read_directory ops ctx p) s)"
  "full_stop (call_directory_operation n (\<lambda>ops. do_create_file ops p name) s)"
  "full_stop (call_directory_operation n (\<lambda>ops. do_create_directory ops p name) s)"
  by (rule overflow_call, rule driver_overflow_lookup)+

lemma overflow_get_cached [overflows]: "full_stop (get_cached_or_lookup ls p name s)"
  unfolding get_cached_or_lookup_def
  by (auto split: option.split intro!: overflow_try_bind overflows)

lemma overflow_resolve_segments [overflows]: "full_stop (resolve_segments segs stack s)"
  by (induction segs stack arbitrary: s rule: resolve_segments.induct)
    (auto split: option.split list.split intro!: overflow_try_bind overflows)

lemma overflow_resolve_parent_segments [overflows]: "full_stop (resolve_parent_segments segs stack s)"
  by (induction segs stack arbitrary: s rule: resolve_parent_segments.induct)
    (auto split: option.split list.split intro!: overflow_try_bind overflows)

lemma overflow_resolve [overflows]:
  "full_stop (resolve_path str s)" "full_stop (resolve_path_parent_directory str s)"
  unfolding resolve_path_def resolve_path_parent_directory_def Let_def
  by (auto intro!: overflow_try_bind overflows)

lemma overflow_stat: "full_stop (vfs_stat str s)"
  unfolding vfs_stat_def by (auto intro!: overflow_try_bind overflows)

lemma overflow_create_directory: "full_stop (vfs_create_directory str s)"
  unfolding vfs_create_directory_def
  by (auto split: option.split intro!: overflow_try_bind overflows)

lemma overflow_read_directory: "full_stop (vfs_read_directory str s)"
  unfolding vfs_read_directory_def
  by (auto split: option.split intro!: overflow_try_bind overflows)

lemma overflow_mount_part [overflows]: "full_stop (mount_part ty source flags ls par name s)"
proof -
  have "full_stop (on_nodes (fs_type_mount ty i source flags) t)" for i t
    by (cases "source = []") (simp_all add: on_nodes_def fs_type_mount_eq)
  then show ?thesis
    unfolding mount_part_def by (auto intro!: overflow_try_bind overflows)
qed

lemma overflow_mount: "full_stop (vfs_mount_at source target fs_kind flags s)"
  by (rule mount_type_cases [where fs_kind = fs_kind and s = s])
    (auto simp: mount_no_type mount_unfold intro!: overflow_try_bind overflows split: option.split)

lemma overflow_open_entry [overflows]: "full_stop (open_entry str m s)"
  unfolding open_entry_def
  by (auto split: option.split intro!: overflow_try_bind overflows)

lemma overflow_open:
  assumes ok: "vfs_inv s" and run: "vfs_open str m s = (r, s')" and small: "vfs_small s'"
  shows "full_stop (r, s')"
proof -
  obtain r1 s1 where r1: "open_entry str m s = (r1, s1)" by (cases "open_entry str m s")
  show ?thesis
  proof (cases "\<exists>e. r1 = Ok e")
    case True
    then obtain e where e: "r1 = Ok e" by blast
    note rest = open_rest [OF ok run small r1 [unfolded e]]
    show ?thesis
    proof (cases "r = Panic Overflow")
      case True
      then have "usize_limit \<le> link_count (metadata (nodes s' ! de_node (entry s1 e))) + 1" "s' = s1"
        using rest(4) by (auto split: if_splits)
      then show ?thesis using nth_mem [OF rest(3)] unfolding full_stop_def exhausted_def by auto
    qed (simp add: full_stop_def)
  next
    case False
    then show ?thesis
      using run r1 overflow_open_entry [of str m s] by (cases r1) (auto simp: vfs_open_def)
  qed
qed

section \<open>Exact outcomes\<close>

text \<open>No counter has wrapped around, none is exhausted.\<close>

definition roomy :: "vfs \<Rightarrow> bool" where
  "roomy s \<longleftrightarrow> vfs_small s \<and> \<not> exhausted s"

text \<open>
  \<open>meets spec r fine bad\<close>: the outcome \<open>r\<close> is exactly the one specified; \<open>fine\<close> relates the two
  values, \<open>bad\<close> holds of the state after an error.
\<close>

definition meets :: "(io_error, 'x) outcome \<Rightarrow> (io_error, 'a) outcome \<Rightarrow> ('x \<Rightarrow> 'a \<Rightarrow> bool) \<Rightarrow> bool \<Rightarrow> bool" where
  "meets spec r fine bad \<longleftrightarrow>
     (case spec of
        Ok x \<Rightarrow> (\<exists>a. r = Ok a \<and> fine x a)
      | Err e \<Rightarrow> r = Err e \<and> bad
      | Panic q \<Rightarrow> r = Panic q)"

lemma refines_meets:
  "refines spec r fine bad \<Longrightarrow> full_stop (r, s') \<Longrightarrow> roomy s' \<Longrightarrow> meets spec r fine bad"
  by (auto simp: refines_def meets_def roomy_def)

lemma roomy_small: "roomy s \<Longrightarrow> vfs_small s"
  by (simp add: roomy_def)

lemma full_stop_run: "x = (r, s') \<Longrightarrow> full_stop x \<Longrightarrow> full_stop (r, s')"
  by simp

end
