(* ===== verification/Vfs_Boot.thy ===== *)
theory Vfs_Boot
  imports Vfs_Room
begin

text \<open>
  The state of the file subsystem after \<open>drivers::char::init\<close> and \<open>fs::init\<close>, and that it is
  reachable.
\<close>

definition boot_metadata :: "fs_type \<Rightarrow> file_system_metadata" where
  "boot_metadata ty = \<lparr>device = None, mount_flags = READ OR WRITE, block_size = 512,
     max_file_size = usize_max, file_system_type = ty\<rparr>"

definition booted :: vfs where
  "booted = \<lparr>
     files = [],
     mount_table =
       [(0, \<lparr>m_id = 0, m_root = 0, m_file_system = \<lparr>fs_metadata = boot_metadata RamFileSystemType,
              next_node_id = \<lparr>inner = 2\<rparr>, fs_root = 0\<rparr>\<rparr>),
        (1, \<lparr>m_id = 1, m_root = 1, m_file_system = \<lparr>fs_metadata = boot_metadata DevFileSystemType,
              next_node_id = \<lparr>inner = 1\<rparr>, fs_root = 1\<rparr>\<rparr>)],
     directory_cache =
       \<lparr>entries =
          [\<lparr>de_id = 1, de_name = ''/'', de_node = 0, de_parent = None,
             de_children = [(''dev'', 1), (''test.txt'', 2)]\<rparr>,
           \<lparr>de_id = 2, de_name = ''dev'', de_node = 1, de_parent = Some 0, de_children = []\<rparr>,
           \<lparr>de_id = 3, de_name = ''test.txt'', de_node = 2, de_parent = Some 0, de_children = []\<rparr>],
        table = [((0, ''/''), 0), ((1, ''dev''), 1), ((1, ''test.txt''), 2)],
        entry_next = 4\<rparr>,
     nodes =
       [\<lparr>node_id = 0, mount_id = 0, kind = Directory, metadata = new_metadata,
          private_data = RamDirectoryNode [(''test.txt'', 2)]\<rparr>,
        \<lparr>node_id = 0, mount_id = 1, kind = Directory, metadata = new_metadata, private_data = NoData\<rparr>,
        \<lparr>node_id = 1, mount_id = 0, kind = File, metadata = new_metadata, private_data = RamFileNode hello_world\<rparr>],
     handles = [], mount_next = 2, fd_next = 2,
     char_devices = [(''null'', NullDevice), (''zero'', ZeroDevice)],
     fs_types = [(''devfs'', DevFileSystemType), (''ramfs'', RamFileSystemType)]\<rparr>"

lemma boot: "fs_init (snd (char_init bt_empty)) = (Ok (), booted)"
  by code_simp

section \<open>The boot state is reachable\<close>

lemma expect_Ok: "expect m s = (Ok x, s') \<longleftrightarrow> m s = (Ok x, s')"
  by (auto simp: expect_def split: prod.splits outcome.splits)

lemma step_of_call: "m s = (Ok x, s') \<Longrightarrow> perform c = discard m \<Longrightarrow> vfs_step s s'"
  by (rule vfs_step.intros [of c s "Ok ()"]) (simp_all add: discard_def)

lemma create_root_step:
  assumes "create_root s = (Ok d, s')"
  shows "vfs_step s s'"
proof -
  obtain i s1 where "vfs_mount_at [] ''/'' (Some ''ramfs'') (READ OR WRITE) s = (Ok i, s1)" "s1 = s'"
    using assms unfolding create_root_def
    by (auto simp: unwrap_def asserting_def split: if_splits option.splits elim!: try_bind_OkE)
  then show ?thesis using step_of_call [of _ s i s' "SysMount [] ''/'' (Some ''ramfs'') (READ OR WRITE)"] by simp
qed

lemma vfs_init_reaches:
  assumes "vfs_init s = (Ok (), s')"
  shows "vfs_reaches s s'"
proof -
  obtain d s1 i s2 fd s3 n s4 where
    "create_root s = (Ok d, s1)" "vfs_mount_at [] ''/dev'' (Some ''devfs'') (READ OR WRITE) s1 = (Ok i, s2)"
    "vfs_open ''/test.txt'' Write s2 = (Ok fd, s3)" "vfs_write fd hello_world s3 = (Ok n, s4)"
    "vfs_close fd s4 = (Ok (), s')"
    using assms unfolding vfs_init_def by (elim try_bind_OkE) (simp add: expect_Ok)
  then have "vfs_step s s1" "vfs_step s1 s2" "vfs_step s2 s3" "vfs_step s3 s4" "vfs_step s4 s'"
    using create_root_step
      step_of_call [of _ s1 i s2 "SysMount [] ''/dev'' (Some ''devfs'') (READ OR WRITE)"]
      step_of_call [of _ s2 fd s3 "SysOpen ''/test.txt'' Write"] step_of_call [of _ s3 n s4 "SysWrite fd hello_world"]
      vfs_step.intros [of "SysClose fd" s4 "Ok ()" s']
    by simp_all
  then show ?thesis by (meson converse_rtranclp_into_rtranclp rtranclp.rtrancl_refl)
qed

lemma booted_reachable:
  "vfs_reaches (vfs_new (snd (char_init bt_empty)) [(''devfs'', DevFileSystemType), (''ramfs'', RamFileSystemType)]) booted"
proof (rule vfs_init_reaches)
  show "vfs_init (vfs_new (snd (char_init bt_empty)) [(''devfs'', DevFileSystemType), (''ramfs'', RamFileSystemType)])
      = (Ok (), booted)"
    using boot by (simp add: fs_init_def expect_def fs_drivers_init_registry)
qed

lemma booted_small: "vfs_small booted"
  by code_simp

lemma booted_inv: "vfs_inv booted"
  using vfs_system.reach_inv [OF booted_reachable vfs_new_inv booted_small] .

end
