(* ===== verification/Vfs_Laws.thy ===== *)
theory Vfs_Laws
  imports Vfs_Boot
begin

text \<open>
  Laws of the namespace that join two operations: a path resolves after it was created and keeps
  resolving while other files are written, and the only panics the specifications contain are
  the \<open>todo!\<close>s of the source.
\<close>

section \<open>Resolution after a creation\<close>

text \<open>A tree that has more paths, the old ones being what they were.\<close>

definition tree_extends :: "vfs \<Rightarrow> vfs \<Rightarrow> bool" where
  "tree_extends s s' \<longleftrightarrow> (\<forall>q. place_at s q \<noteq> None \<longrightarrow>
     place_at s' q \<noteq> None \<and> directory_at s' q = directory_at s q)"

lemma walk_created:
  assumes ext: "tree_extends s s'" and new: "place_at s' (name # up') \<noteq> None"
    and par: "walk_parent s segs up = Ok (up', name)" and dir: "directory_at s up"
  shows "walk s' segs up = Ok (Some (name # up'))"
  using par dir
proof (induction segs arbitrary: up)
  case (Cons seg rest)
  have seg: "seg \<noteq> ''.''" "seg \<noteq> ''..''" using Cons.prems(1) by (auto split: if_splits)
  have "place_at s up \<noteq> None" using Cons.prems(2) by (auto simp: directory_at_def split: option.splits)
  then have dir': "directory_at s' up" using ext Cons.prems(2) by (simp add: tree_extends_def)
  show ?case
  proof (cases "rest = []")
    case True
    then show ?thesis using Cons.prems(1) seg dir' new by auto
  next
    case False
    then have down: "place_at s (seg # up) \<noteq> None" "directory_at s (seg # up)" "walk_parent s rest (seg # up) = Ok (up', name)"
      using Cons.prems(1) seg by (auto split: if_splits)
    then have "place_at s' (seg # up) \<noteq> None" using ext by (simp add: tree_extends_def)
    then show ?thesis using Cons.IH [OF down(3,2)] seg dir' by simp
  qed
qed simp

lemma directory_at_same:
  assumes "place_at s' q = place_at s q" "\<And>n. place_at s q = Some (Node n) \<Longrightarrow> kind (nodes s' ! n) = kind (nodes s ! n)"
  shows "directory_at s' q = directory_at s q"
  using assms by (simp add: directory_at_def place_is_directory_def is_directory_def split: option.split place.split)

lemma walk_path_created:
  assumes ok: "vfs_inv s" and ext: "tree_extends s s'" and par: "walk_path_parent s str = Ok (up, name)"
    and new: "place_at s' (name # up) \<noteq> None"
  shows "walk_path s' str = Ok (Some (name # up))"
proof -
  obtain p where p: "path_from_str str = Ok p" "hd str = slash" "place_at s [] \<noteq> None"
    "walk_parent s (tl (segments p)) [] = Ok (up, name)"
    using par by (auto simp: walk_path_parent_def split: outcome.splits if_splits)
  have "directory_at s []" using root_is_directory [OF ok p(3)] .
  then have "walk s' (tl (segments p)) [] = Ok (Some (name # up))" using walk_created [OF ext new p(4)] by blast
  moreover have "place_at s' [] \<noteq> None" using ext p(3) by (simp add: tree_extends_def)
  ultimately show ?thesis using p by (auto simp: walk_path_def)
qed

lemma tree_added_extends:
  assumes ok: "vfs_inv s" and added: "tree_added s s' path k" and free: "place_at s path = None"
  shows "tree_extends s s'"
  unfolding tree_extends_def
proof (intro allI impI conjI)
  fix q assume q: "place_at s q \<noteq> None"
  then have "q \<noteq> path" using free by auto
  then have same: "place_at s' q = place_at s q" using added by (auto simp: tree_added_def)
  show "place_at s' q \<noteq> None" using same q by simp
  show "directory_at s' q = directory_at s q"
    using same added place_at_range [OF ok, of q]
    by (intro directory_at_same) (auto simp: tree_added_def nodes_kept_def)
qed

text \<open>The path that was created resolves from then on.\<close>

lemma walk_path_target:
  assumes ok: "vfs_inv s" and none: "walk_path s str = Ok None" and target: "create_target s str = Ok path"
    and added: "tree_added s s' path k"
  shows "walk_path s' str = Ok (Some path)" "place_at s path = None"
proof -
  obtain up name where par: "walk_path_parent s str = Ok (up, name)" "path = name # up"
    using target by (auto simp: create_target_def split: outcome.splits if_splits)
  have "place_at s [] \<noteq> None" using par(1) by (auto simp: walk_path_parent_def split: outcome.splits if_splits)
  then show free: "place_at s path = None"
    using walk_path_none_parent(1) [OF none par(1) root_is_directory [OF ok]] par(2) by simp
  show "walk_path s' str = Ok (Some path)"
    unfolding par(2)
    by (rule walk_path_created [OF ok tree_added_extends [OF ok added free] par(1)])
      (use added par(2) in \<open>auto simp: tree_added_def\<close>)
qed

lemma walk_same:
  assumes ok: "vfs_inv s" and pl: "\<forall>q. place_at s' q = place_at s q" and kept: "nodes_kept s s'"
  shows "walk_path s' str = walk_path s str"
proof (rule walk_cong(3))
  show "place_at s' q = place_at s q" for q using pl by simp
  show "directory_at s' q = directory_at s q" for q
    using pl kept place_at_range [OF ok, of q] by (intro directory_at_same) (auto simp: nodes_kept_def)
qed

section \<open>Held entries\<close>

lemma held_entry:
  assumes "vfs_inv s" "d \<in> set (handles s)"
  shows "alive ([] @ vfs_strong s) (entries (directory_cache s)) d" "d < length (entries (directory_cache s))"
proof -
  show al: "alive ([] @ vfs_strong s) (entries (directory_cache s)) d"
    by (rule alive_strong) (use assms(2) in \<open>simp add: vfs_strong_def\<close>)
  show "d < length (entries (directory_cache s))" using vfs_ok_alive_bound [OF assms(1) al] .
qed

lemma stat_held:
  assumes ok: "vfs_inv s" and d: "d \<in> set (handles s)" and walk: "walk_path s str = Ok (Some (entry_path s d))"
    and run: "vfs_stat str s = (r, s')" and room: "roomy s'"
  shows "r = Ok d"
proof -
  obtain d' where d': "r = Ok d'" "vfs_inv s'" "entry_path s' d' = entry_path s d" "handles s' = d' # handles s"
      "vfs_ext s (s'\<lparr>handles := handles s\<rparr>)"
    using refines_meets [OF stat_refines [OF ok run roomy_small [OF room]] full_stop_run [OF run overflow_stat] room] walk
    by (auto simp: meets_def stat_spec_def)
  have "entry_path s' d = entry_path s d"
    using entry_path_ext [OF d'(5) held_entry(2) [OF ok d]] by (simp add: handles_entry_path)
  moreover have "d \<in> set (handles s')" "d' \<in> set (handles s')" using d d'(4) by auto
  ultimately have "d' = d"
    using entry_path_inj [OF d'(2) held_entry(1) [OF d'(2)] held_entry(1) [OF d'(2)], of d' d] d'(3) by simp
  then show ?thesis using d'(1) by simp
qed

lemma created_directory:
  assumes ok: "vfs_inv s" and run: "vfs_create_directory str s = (Ok d, s')" and small: "vfs_small s'"
  shows "vfs_inv s'" "d \<in> set (handles s')" "walk_path s' str = Ok (Some (entry_path s' d))"
    "directory_at s' (entry_path s' d)" "place_at s (entry_path s' d) = None"
proof -
  obtain path where spec: "create_directory_spec s str = Ok path" and d: "vfs_inv s'" "entry_path s' d = path"
      "handles s' = d # handles s" "node_added s s' path Directory"
    using create_directory_refines [OF ok run small] by (auto simp: refines_def split: outcome.splits)
  then have none: "walk_path s str = Ok None" "create_target s str = Ok path"
    by (auto simp: create_directory_spec_def split: outcome.splits option.splits)
  show "vfs_inv s'" "d \<in> set (handles s')" using d by simp_all
  show "walk_path s' str = Ok (Some (entry_path s' d))" "place_at s (entry_path s' d) = None"
    using walk_path_target [OF ok none] d by (auto simp: node_added_def)
  show "directory_at s' (entry_path s' d)"
    using d by (auto simp: node_added_def tree_added_def directory_at_def place_is_directory_def is_directory_def)
qed

section \<open>Reading back a file\<close>

lemma read_after_open:
  assumes ok: "vfs_inv s" and walk: "walk_path s str = Ok (Some path)" and at: "place_at s path = Some (Node n)"
    and data: "file_bytes s n = Some data" and run: "vfs_open str Read s = (r, s')" and room: "roomy s'"
    and len: "length data < usize_limit"
  shows "\<exists>fd. r = Ok fd \<and> fst (vfs_read fd buf s') =
    Ok (min (length buf) (length data), take (length buf) data @ drop (length data) buf)"
proof -
  have nlen: "n < length (nodes s)" using place_at_range [OF ok at] .
  obtain fd k where fd: "r = Ok fd" "vfs_inv s'" "files s' = bt_insert fd (file_new k Read) (files s)"
      "place_at s' path = Some (place_of (nodes s') k)" "\<forall>q. place_at s' q = place_at s q" "nodes_kept s s'"
    using refines_meets [OF open_refines [OF ok run roomy_small [OF room]] overflow_open [OF ok run roomy_small [OF room]] room]
      walk by (auto simp: meets_def open_spec_def)
  have "place_of (nodes s') k = Node n" using fd(4,5) at by simp
  then have k: "k = n" by (auto simp: place_of_def split: private_data.splits)
  have f: "bt_get fd (files s') = Some (file_new n Read)" using fd(3) k by simp
  have "file_bytes s' n = Some data" using fd(6) nlen data by (simp add: nodes_kept_def)
  then have pd: "private_data (nodes s' ! file_node (file_new n Read)) = RamFileNode data"
    by (auto simp: file_bytes_def file_new_def split: private_data.splits)
  have "vfs_read fd buf s' = (Ok (min (length buf) (length data), take (length buf) data @ drop (length data) buf),
      moved fd (file_new n Read) (min (length buf) (length data)) (nodes s') s')"
    using vfs_read_file [OF fd(2) f _ pd, of buf] len
    by (auto simp: file_new_def min_def)
  then show ?thesis using fd(1) by simp
qed

lemma opened_walk:
  assumes ok: "vfs_inv s" and run: "vfs_open str m s = (Ok fd, s')" and small: "vfs_small s'"
    and f: "bt_get fd (files s') = Some f"
  shows "vfs_inv s'" "mode f = m" "position f = 0"
    "\<exists>path. walk_path s' str = Ok (Some path) \<and> place_at s' path = Some (place_of (nodes s') (file_node f))"
proof -
  obtain path new n where spec: "open_spec s str m = Ok (path, new)" and fd: "vfs_inv s'"
      "files s' = bt_insert fd (file_new n m) (files s)" "place_at s' path = Some (place_of (nodes s') n)"
      "if new then tree_added s s' path File else (\<forall>q. place_at s' q = place_at s q) \<and> nodes_kept s s'"
    using open_refines [OF ok run small] by (auto simp: refines_def split: outcome.splits)
  have "f = file_new n m" using f fd(2) by simp
  then show "vfs_inv s'" "mode f = m" "position f = 0" and "\<exists>path. walk_path s' str = Ok (Some path)
      \<and> place_at s' path = Some (place_of (nodes s') (file_node f))"
  proof -
    have "walk_path s' str = Ok (Some path)"
    proof (cases new)
      case True
      then show ?thesis
        using spec fd(4) walk_path_target(1) [OF ok, of str path s' File]
        by (auto simp: open_spec_def split: outcome.splits option.splits if_splits)
    next
      case False
      then show ?thesis
        using spec fd(4) walk_same [OF ok, of s' str]
        by (auto simp: open_spec_def split: outcome.splits option.splits if_splits)
    qed
    then show "\<exists>path. walk_path s' str = Ok (Some path) \<and> place_at s' path = Some (place_of (nodes s') (file_node f))"
      using fd(3) \<open>f = file_new n m\<close> by (auto simp: file_new_def)
  qed (use fd(1) \<open>f = file_new n m\<close> in \<open>simp_all add: file_new_def\<close>)
qed

lemma vfs_same_walk:
  assumes ok: "vfs_inv s" and same: "vfs_same s s'"
  shows "walk_path s' str = walk_path s str"
proof (rule walk_cong(3))
  show pl: "place_at s' q = place_at s q" for q using vfs_same_place_at [OF ok same] .
  show "directory_at s' q = directory_at s q" for q
    using pl place_at_range [OF ok, of q] vfs_same_node(2) [OF same]
    by (intro directory_at_same) (auto simp: same_node_def)
qed

lemma write_then_close:
  assumes ok: "vfs_inv s" and f: "bt_get fd (files s) = Some f" "mode f = Write" "position f = 0"
    and old: "file_bytes s (file_node f) = Some old" and len: "length buf < usize_limit"
    and wr: "vfs_write fd buf s = (r1, s1)" and cl: "vfs_close fd s1 = (r2, s2)"
  shows "r1 = Ok (length buf)" "r2 = Ok ()" "vfs_inv s2" "vfs_same s s2"
    "file_bytes s2 (file_node f) = Some (buf @ drop (length buf) old)"
proof -
  let ?data = "buf @ drop (length buf) old" and ?f = "f\<lparr>position := length buf\<rparr>"
  have pd: "private_data (nodes s ! file_node f) = RamFileNode old"
    using old by (auto simp: file_bytes_def split: private_data.splits)
  have n: "file_node f < length (nodes s)" using vfs_ok_file(2) [OF ok f(1)] .
  have wa: "write_at (position f) buf old = ?data" using f(3) by (simp add: write_at_def)
  have r1: "r1 = Ok (length buf)"
    and s1: "s1 = moved fd f (length buf) (set_private_data (file_node f) (RamFileNode ?data) (nodes s)) s"
    using vfs_write_file [OF ok f(1,2) pd, of buf] wr wa len f(3) by auto
  note i1 = write_inv [OF ok wr]
  have f1: "bt_get fd (files s1) = Some ?f" by (simp add: s1 moved_def)
  have r2: "r2 = Ok ()" and s2: "s2 = closed fd ?f s1" using vfs_close_eq [of s1 fd] i1 f1 cl by auto
  have n1: "file_node ?f < length (nodes s1)" using n by (simp add: s1 moved_def)
  show "r1 = Ok (length buf)" "r2 = Ok ()" using r1 r2 .
  show "vfs_inv s2" "vfs_same s s2"
    using closed_ok [OF _ f1] i1 s2 vfs_same_trans [OF _ closed_same [OF n1, of fd]] by auto
  show "file_bytes s2 (file_node f) = Some ?data"
    using n n1 by (simp add: s2 s1 closed_def moved_def file_bytes_def nth_set_link_count nth_set_private_data)
qed

section \<open>Specified panics\<close>

lemma path_panic: "path_from_str str = Panic q \<Longrightarrow> q = Todo"
  by (auto simp: path_from_str_def Let_def split: list.splits if_splits)

lemma walk_no_panic: "walk s segs up \<noteq> Panic q"
  by (induction segs arbitrary: up) auto

lemma walk_path_panic: "walk_path s str = Panic q \<Longrightarrow> q = Todo"
  using walk_no_panic by (auto simp: walk_path_def path_panic split: outcome.splits if_splits)

lemma walk_parent_panic: "walk_parent s segs up = Panic q \<Longrightarrow> segs \<noteq> [] \<Longrightarrow> q = Todo"
  by (induction segs arbitrary: up) (auto split: if_splits)

lemma walk_path_parent_panic: "walk_path_parent s str = Panic q \<Longrightarrow> q = Todo"
  by (auto simp: walk_path_parent_def path_panic dest: walk_parent_panic split: outcome.splits if_splits)

lemma create_target_panic: "create_target s str = Panic q \<Longrightarrow> q = Todo"
  using walk_path_parent_panic by (auto simp: create_target_def split: outcome.splits if_splits)

lemma spec_panics:
  "stat_spec s str = Panic q \<Longrightarrow> q = Todo"
  "read_directory_spec s str = Panic q \<Longrightarrow> q = Todo"
  "create_directory_spec s str = Panic q \<Longrightarrow> q = Todo"
  "open_spec s str m = Panic q \<Longrightarrow> q = Todo"
  "mount_spec s str fs_kind = Panic q \<Longrightarrow> q = Todo"
  using walk_path_panic walk_path_parent_panic create_target_panic
  by (auto simp: stat_spec_def read_directory_spec_def create_directory_spec_def open_spec_def mount_spec_def
      split: outcome.splits option.splits if_splits)

lemma meets_panic: "meets spec (Panic q) fine bad \<Longrightarrow> spec = Panic q"
  by (auto simp: meets_def split: outcome.splits)

section \<open>The panics of the calls\<close>

lemma discard_panic: "discard m s = (Panic q, s') \<longleftrightarrow> m s = (Panic q, s')"
  by (auto simp: discard_def try_bind_def split: prod.splits outcome.splits)

lemma mount_panics:
  assumes ok: "vfs_inv s" and run: "vfs_mount_at source target fs_kind flags s = (Panic q, s')" and room: "roomy s'"
  shows "q = Todo \<or> (q = Assert \<and> source \<noteq> [])"
proof (cases "q = Assert \<and> source \<noteq> []")
  case False
  then have run: "vfs_mount_at [] target fs_kind flags s = (Panic q, s')" using run mount_source [OF run] by auto
  have "meets (mount_spec s target fs_kind) (Panic q) (mount_done s s') (vfs_inv s' \<and> vfs_ext s s')"
    using refines_meets [OF mount_refines [OF ok roomy_small [OF room] run] full_stop_run [OF run overflow_mount] room] .
  then show ?thesis using meets_panic spec_panics(5) by metis
qed simp

text \<open>The panics a descriptor can cause.\<close>

definition panics_on_directory :: "vfs \<Rightarrow> u64 \<Rightarrow> bool" where
  "panics_on_directory s fd \<longleftrightarrow> (\<exists>f. bt_get fd (files s) = Some f \<and> is_directory (nodes s ! file_node f))"

definition position_full :: "vfs \<Rightarrow> u64 \<Rightarrow> usize \<Rightarrow> bool" where
  "position_full s fd n \<longleftrightarrow> (\<exists>f. bt_get fd (files s) = Some f \<and> usize_limit \<le> position f + n)"

lemma access_panics:
  assumes ok: "vfs_inv s" and run: "vfs_read fd buf s = (Panic q, s') \<or> vfs_write fd buf s = (Panic q, s')"
  shows "(q = Assert \<and> panics_on_directory s fd) \<or> (q = Overflow \<and> position_full s fd (length buf))"
  using ok
proof (cases rule: file_access_cases [of s fd])
  case closed
  then show ?thesis using run by (simp add: vfs_read_no_file vfs_write_no_file)
next
  case (directory f)
  then show ?thesis using run by (auto simp: vfs_read_directory_file vfs_write_directory_file panics_on_directory_def)
next
  case (ram f data)
  have "position f + min (length buf) (length data - position f) \<le> position f + length buf" by simp
  then show ?thesis
    using run vfs_read_wrong_mode [OF ram(1,2), of buf] vfs_write_wrong_mode [OF ram(1,2), of buf]
      vfs_read_file [OF ok ram(1) _ ram(3), of buf] vfs_write_file [OF ok ram(1) _ ram(3), of buf] ram(1)
    by (cases "mode f") (auto simp: position_full_def split: if_splits)
next
  case (device f d)
  then show ?thesis
    using run vfs_read_wrong_mode [OF device(1,2), of buf] vfs_write_wrong_mode [OF device(1,2), of buf]
      vfs_read_device [OF ok device(1) _ device(3), of buf] vfs_write_device [OF ok device(1) _ device(3), of buf]
    by (cases "mode f"; cases d) (auto simp: position_full_def split: if_splits)
qed

text \<open>
  The panics each call can end in. A \<open>todo!\<close> of the source stands for a feature the kernel does
  not have yet: relative paths, non-ASCII paths, dots in a path to be created, mounting on an
  existing directory and detecting the type of a file system.
\<close>

fun may_panic :: "vfs_call \<Rightarrow> vfs \<Rightarrow> panic \<Rightarrow> bool" where
  "may_panic (SysMount source target fs_kind flags) s q \<longleftrightarrow> q = Todo \<or> q = Assert \<and> source \<noteq> []"
| "may_panic (SysRead fd buf) s q \<longleftrightarrow> q = Assert \<and> panics_on_directory s fd \<or> q = Overflow \<and> position_full s fd (length buf)"
| "may_panic (SysWrite fd buf) s q \<longleftrightarrow> q = Assert \<and> panics_on_directory s fd \<or> q = Overflow \<and> position_full s fd (length buf)"
| "may_panic (SysClose fd) s q \<longleftrightarrow> False"
| "may_panic SysPruneDirectoryCache s q \<longleftrightarrow> False"
| "may_panic (DropEntry d) s q \<longleftrightarrow> False"
| "may_panic c s q \<longleftrightarrow> q = Todo"

end
