(* ===== verification/Vfs_Session.thy ===== *)
theory Vfs_Session
  imports Vfs_Laws
begin

text \<open>
  The tree of names that the kernel has after booting, and a few runs from there: writing the file
  \<open>/test.txt\<close> and reading it back, creating a directory, opening a device.
\<close>

section \<open>The tree after booting\<close>

lemma booted_mounts:
  "mount_place booted path = (if path = [] then Some (Node 0) else if path = [''dev''] then Some (Node 1) else None)"
proof -
  have "entry_path booted 0 = []" "entry_path booted 1 = [''dev'']" by code_simp+
  then show ?thesis by (simp add: mount_place_def booted_def bt_values_def)
qed

lemma booted_children:
  "fs_child (char_devices booted) (nodes booted) 0 name = (if name = ''test.txt'' then Some (Node 2) else None)"
  "fs_child (char_devices booted) (nodes booted) 1 name = (if name = ''null'' then Some (Device NullDevice)
     else if name = ''zero'' then Some (Device ZeroDevice) else None)"
  "fs_child (char_devices booted) (nodes booted) 2 name = None"
  by (simp_all add: fs_child_def booted_def get_char_device_def)

lemma booted_tree:
  "place_at booted path =
     (if path = [] then Some (Node 0) else if path = [''dev''] then Some (Node 1)
      else if path = [''test.txt''] then Some (Node 2)
      else if path = [''null'', ''dev''] then Some (Device NullDevice)
      else if path = [''zero'', ''dev''] then Some (Device ZeroDevice) else None)"
proof (induction path)
  case (Cons name up)
  consider "up = []" | "up = [''dev'']" | "up = [''test.txt'']" | "up = [''null'', ''dev'']" | "up = [''zero'', ''dev'']"
    | "up \<notin> {[], [''dev''], [''test.txt''], [''null'', ''dev''], [''zero'', ''dev'']}" by blast
  then show ?case
    unfolding place_at.simps(2) [of booted name up] Cons.IH
    by cases (simp_all add: booted_mounts place_child_def booted_children booted_children(2) [simplified])
qed (simp add: place_at.simps booted_mounts)

section \<open>Runs\<close>

lemma file_session:
  obtains s1 s2 s3 s4 where
    "vfs_open ''/test.txt'' Write booted = (Ok 2, s1)" "vfs_write 2 [1, 2] s1 = (Ok 2, s2)"
    "vfs_close 2 s2 = (Ok (), s3)" "vfs_open ''/test.txt'' Read s3 = (Ok 3, s4)" "roomy s1" "roomy s4"
    "bt_get 2 (files s1) = Some (file_new 2 Write)" "file_bytes s1 2 = Some hello_world" "length (nodes s1) = 3"
    "bt_get 3 (files s4) = Some (file_new 2 Read)" "file_bytes s4 2 = Some ([1, 2] @ drop 2 hello_world)"
proof -
  have "case vfs_open ''/test.txt'' Write booted of (r1, s1) \<Rightarrow>
     case vfs_write 2 [1, 2] s1 of (r2, s2) \<Rightarrow>
     case vfs_close 2 s2 of (r3, s3) \<Rightarrow>
     case vfs_open ''/test.txt'' Read s3 of (r4, s4) \<Rightarrow>
       r1 = Ok 2 \<and> r2 = Ok 2 \<and> r3 = Ok () \<and> r4 = Ok 3 \<and> roomy s1 \<and> roomy s4
       \<and> bt_get 2 (files s1) = Some (file_new 2 Write) \<and> file_bytes s1 2 = Some hello_world \<and> length (nodes s1) = 3
       \<and> bt_get 3 (files s4) = Some (file_new 2 Read) \<and> file_bytes s4 2 = Some ([1, 2] @ drop 2 hello_world)"
    by code_simp
  then show thesis using that by (auto split: prod.splits)
qed

lemma directory_session:
  obtains s1 s2 s3 where
    "vfs_create_directory ''/a'' booted = (Ok 3, s1)" "vfs_stat ''/a'' s1 = (Ok 3, s2)"
    "vfs_create_directory ''/a'' s1 = (Err AlreadyExists, s3)" "roomy s1" "roomy s2" "roomy s3"
    "handles s1 = [3]" "walk_path s1 ''/a'' = Ok (Some [''a''])" "entry_path s1 3 = [''a'']"
proof -
  have "case vfs_create_directory ''/a'' booted of (r1, s1) \<Rightarrow>
     case vfs_stat ''/a'' s1 of (r2, s2) \<Rightarrow>
     case vfs_create_directory ''/a'' s1 of (r3, s3) \<Rightarrow>
       r1 = Ok 3 \<and> r2 = Ok 3 \<and> r3 = Err AlreadyExists \<and> roomy s1 \<and> roomy s2 \<and> roomy s3
       \<and> handles s1 = [3] \<and> walk_path s1 ''/a'' = Ok (Some [''a'']) \<and> entry_path s1 3 = [''a'']"
    by code_simp
  then show thesis using that by (auto split: prod.splits)
qed

lemma device_session:
  obtains s1 where "vfs_open ''/dev/zero'' Read booted = (Ok 2, s1)" "roomy s1"
    "bt_get 2 (files s1) = Some (file_new 3 Read)" "private_data (nodes s1 ! 3) = CharDeviceData ZeroDevice"
proof -
  have "case vfs_open ''/dev/zero'' Read booted of (r1, s1) \<Rightarrow>
       r1 = Ok 2 \<and> roomy s1 \<and> bt_get 2 (files s1) = Some (file_new 3 Read)
       \<and> private_data (nodes s1 ! 3) = CharDeviceData ZeroDevice"
    by code_simp
  then show thesis using that by (auto split: prod.splits)
qed

lemma lookup_session:
  obtains s1 where "resolve_path ''/test.txt'' booted = (Ok (Some 3), s1)" "roomy s1"
proof -
  have "case resolve_path ''/test.txt'' booted of (r1, s1) \<Rightarrow> r1 = Ok (Some 3) \<and> roomy s1" by code_simp
  then show thesis using that by (auto split: prod.splits)
qed

lemma mount_session:
  obtains s1 where "vfs_mount_at [] ''/mnt'' (Some ''ramfs'') READ booted = (Ok 2, s1)" "roomy s1"
proof -
  have "case vfs_mount_at [] ''/mnt'' (Some ''ramfs'') READ booted of (r1, s1) \<Rightarrow> r1 = Ok 2 \<and> roomy s1" by code_simp
  then show thesis using that by (auto split: prod.splits)
qed

lemma listing_session:
  obtains ctx s1 where "vfs_read_directory ''/'' booted = (Ok ctx, s1)" "roomy s1"
    "map di_name (context_into_iter ctx) = [''dev'', ''test.txt'']"
proof -
  have "case vfs_read_directory ''/'' booted of (r1, s1) \<Rightarrow> roomy s1 \<and>
      (case r1 of Ok ctx \<Rightarrow> map di_name (context_into_iter ctx) = [''dev'', ''test.txt''] | _ \<Rightarrow> False)" by code_simp
  then show thesis using that by (auto split: prod.splits outcome.splits)
qed

lemma root_session:
  obtains s1 where "vfs_open ''/'' Read booted = (Ok 2, s1)" "roomy s1"
proof -
  have "case vfs_open ''/'' Read booted of (r1, s1) \<Rightarrow> r1 = Ok 2 \<and> roomy s1" by code_simp
  then show thesis using that by (auto split: prod.splits)
qed

lemma booted_specs:
  "walk_path booted ''/test.txt'' = Ok (Some [''test.txt''])" "walk_path booted ''/'' = Ok (Some [])"
  "create_directory_spec booted ''/a'' = Ok [''a'']" "open_spec booted ''/test.txt'' Write = Ok ([''test.txt''], False)"
  "mount_spec booted ''/mnt'' (Some ''ramfs'') = Ok (RamFileSystemType, [''mnt''])"
  "read_directory_spec booted ''/'' = Ok []" "directory_at booted []" "roomy booted"
  by code_simp+

lemma booted_registry: "registry_named (char_devices booted)"
  by (auto simp: registry_named_def booted_def get_char_device_def bt_sorted_def split: if_splits)

end
