(* ===== verification/Vfs_Correct.thy ===== *)
theory Vfs_Correct
  imports Vfs_Session
begin

text \<open>
  The virtual file system is correct: the invariant holds in every reachable state, the operations
  on paths do what they do on the tree of names, files give back what was written to them, and
  every panic is accounted for. The properties speak of final states that are \<open>roomy\<close>: no 64-bit
  counter has wrapped around and none is used up.
\<close>

section \<open>The invariant\<close>

text \<open>
  C1: the invariant of the VFS holds in every state that the system calls can reach from an empty
  VFS, whatever devices and file system drivers are registered, as long as no identifier counter
  has wrapped around.
\<close>

theorem vfs_reachable_inv:
  assumes "vfs_reaches (vfs_new cds fts) s" and "vfs_small s"
  shows "vfs_inv s"
  using vfs_system.reach_inv [OF assms(1) vfs_new_inv assms(2)] .

theorem vfs_reachable_inv_witness: "vfs_reaches (vfs_new (snd (char_init bt_empty))
    [(''devfs'', DevFileSystemType), (''ramfs'', RamFileSystemType)]) booted \<and> vfs_small booted \<and> vfs_inv booted"
  using booted_reachable booted_small vfs_reachable_inv [OF booted_reachable booted_small] by blast

text \<open>
  C28: booting the file subsystem succeeds and leaves a root directory with the file \<open>test.txt\<close>, which
  holds the greeting, and the directory \<open>dev\<close> with the two devices; nothing else has a name and no
  file is open.
\<close>

theorem boot_correct:
  "\<exists>s. fs_init (snd (char_init bt_empty)) = (Ok (), s) \<and> vfs_inv s \<and> files s = bt_empty
     \<and> (\<forall>path. place_at s path \<noteq> None \<longleftrightarrow>
          path \<in> {[], [''dev''], [''null'', ''dev''], [''zero'', ''dev''], [''test.txt'']})
     \<and> directory_at s [] \<and> directory_at s [''dev'']
     \<and> place_at s [''null'', ''dev''] = Some (Device NullDevice)
     \<and> place_at s [''zero'', ''dev''] = Some (Device ZeroDevice)
     \<and> (\<exists>n. place_at s [''test.txt''] = Some (Node n) \<and> file_bytes s n = Some (map of_char ''Hello, world!''))"
proof (intro exI [of _ booted] conjI)
  show "\<forall>path. place_at booted path \<noteq> None \<longleftrightarrow>
      path \<in> {[], [''dev''], [''null'', ''dev''], [''zero'', ''dev''], [''test.txt'']}"
    by (simp add: booted_tree)
  show "\<exists>n. place_at booted [''test.txt''] = Some (Node n) \<and> file_bytes booted n = Some (map of_char ''Hello, world!'')"
    by (simp add: booted_tree) (simp add: booted_def file_bytes_def hello_world_def)
  show "files booted = bt_empty" by (simp add: booted_def)
  show "directory_at booted []" "directory_at booted [''dev'']"
    by (simp_all add: directory_at_def booted_tree) (simp_all add: booted_def place_is_directory_def is_directory_def)
qed (simp_all add: boot booted_inv booted_tree)





section \<open>Operations on paths\<close>

text \<open>
  C2: resolving a path refines walking the tree of names: it finds an entry exactly when the walk
  ends somewhere, the entry stands for the place the path names, and the errors and panics are those
  of the walk. Resolution changes only the directory cache and adds device nodes, so the tree
  stays as it is.
\<close>

theorem resolve_path_correct:
  assumes ok: "vfs_inv s" and run: "resolve_path str s = (r, s')" and room: "roomy s'"
  shows "vfs_ext s s' \<and> (\<forall>q. place_at s' q = place_at s q) \<and>
    (case walk_path s str of
       Ok None \<Rightarrow> r = Ok None
     | Ok (Some path) \<Rightarrow> (\<exists>d. r = Ok (Some d) \<and> entry_path s' d = path
          \<and> place_at s path = Some (place_of (nodes s') (de_node (entry s' d))))
     | Err e \<Rightarrow> r = Err e
     | Panic q \<Rightarrow> r = Panic q)"
proof -
  have no: "r \<noteq> Panic Overflow"
    using full_stop_run [OF run overflow_resolve(1)] room by (auto simp: roomy_def)
  have w: "vfs_ext s s'" "resolves s' (walk_path s str) r"
    using resolve_path_walk [OF ok run roomy_small [OF room]] by auto
  have entry: "place_at s' (entry_path s' d) = Some (place_of (nodes s') (de_node (entry s' d)))" if "vfs_ok [d] s'" for d
    using place_at_entry [OF that alive_member] by simp
  show ?thesis
    using w no place_at_ext [OF ok w(1)] entry
    by (auto simp: resolves_def split: outcome.splits option.splits)
qed

theorem resolve_path_correct_witness:
  "\<exists>s. resolve_path ''/test.txt'' booted = (Ok (Some 3), s) \<and> roomy s \<and> entry_path s 3 = [''test.txt'']
     \<and> place_at booted [''test.txt''] = Some (place_of (nodes s) (de_node (entry s 3)))"
proof (rule lookup_session)
  fix s1 assume s1: "resolve_path ''/test.txt'' booted = (Ok (Some 3), s1)" "roomy s1"
  show ?thesis using resolve_path_correct [OF booted_inv s1] s1 booted_specs(1) by auto
qed

text \<open>
  C10: creating a directory has the outcome that its specification on the tree of names gives for
  every path. On success exactly one path is new, it names an empty directory, the caller gets the
  entry of that path, and the nodes, contents and open files are kept; after an error the tree is
  unchanged.
\<close>

theorem create_directory_correct:
  assumes "vfs_inv s" "vfs_create_directory str s = (r, s')" "roomy s'"
  shows "meets (create_directory_spec s str) r
    (\<lambda>path d. vfs_inv s' \<and> entry_path s' d = path \<and> handles s' = d # handles s
        \<and> node_added s s' path Directory)
    (vfs_inv s' \<and> vfs_ext s s')"
  using refines_meets [OF create_directory_refines [OF assms(1,2) roomy_small [OF assms(3)]]
      full_stop_run [OF assms(2) overflow_create_directory] assms(3)] .

theorem create_directory_correct_witness:
  "\<exists>s. vfs_create_directory ''/a'' booted = (Ok 3, s) \<and> roomy s \<and> vfs_inv s \<and> entry_path s 3 = [''a'']
     \<and> node_added booted s [''a''] Directory"
proof (rule directory_session)
  fix s1 assume s1: "vfs_create_directory ''/a'' booted = (Ok 3, s1)" "roomy s1"
  show ?thesis using create_directory_correct [OF booted_inv s1] s1 by (auto simp: meets_def booted_specs)
qed

text \<open>
  C9: opening a path has the outcome that its specification on the tree of names gives: a fresh
  descriptor, positioned at the start, on the node the path names. A path that does not exist is
  created as an empty file exactly when the mode is a writing one, and nothing else of the tree
  changes; after an error the tree is unchanged.
\<close>

theorem open_correct:
  assumes "vfs_inv s" "vfs_open str m s = (r, s')" "roomy s'"
  shows "meets (open_spec s str m) r
    (\<lambda>(path, new) fd. vfs_inv s'
        \<and> fd \<noteq> FileDescriptor_NULL \<and> bt_get fd (files s) = None
        \<and> (\<exists>n. files s' = bt_insert fd (file_new n m) (files s) \<and> place_at s' path = Some (place_of (nodes s') n))
        \<and> (if new then tree_added s s' path File
           else (\<forall>q. place_at s' q = place_at s q) \<and> nodes_kept s s'))
    (vfs_inv s' \<and> vfs_ext s s')"
  using refines_meets [OF open_refines [OF assms(1,2) roomy_small [OF assms(3)]]
      overflow_open [OF assms(1,2) roomy_small [OF assms(3)]] assms(3)] .

theorem open_correct_witness:
  "\<exists>s. vfs_open ''/test.txt'' Write booted = (Ok 2, s) \<and> roomy s \<and> vfs_inv s
     \<and> (\<forall>q. place_at s q = place_at booted q) \<and> nodes_kept booted s"
proof (rule file_session)
  fix s1 assume s1: "vfs_open ''/test.txt'' Write booted = (Ok 2, s1)" "roomy s1"
  show ?thesis using open_correct [OF booted_inv s1] s1 by (auto simp: meets_def booted_specs)
qed

text \<open>
  C11: mounting a file system has the outcome that its specification on the tree of names gives: a
  fresh mount whose root directory appears at the target, with the devices below it when it is a
  device file system, while every other path keeps what it names; after an error the tree is
  unchanged.
\<close>

theorem mount_correct:
  assumes "vfs_inv s" "vfs_mount_at [] target fs_kind flags s = (r, s')" "roomy s'"
  shows "meets (mount_spec s target fs_kind) r
    (\<lambda>(ty, path) i. vfs_inv s' \<and> tree_mounted s s' ty path \<and> get_mount i s = None \<and> get_mount i s' \<noteq> None)
    (vfs_inv s' \<and> vfs_ext s s')"
  using refines_meets [OF mount_refines [OF assms(1) roomy_small [OF assms(3)] assms(2)]
      full_stop_run [OF assms(2) overflow_mount] assms(3)] by (simp add: mount_done_def)

theorem mount_correct_witness:
  "\<exists>s. vfs_mount_at [] ''/mnt'' (Some ''ramfs'') READ booted = (Ok 2, s) \<and> roomy s \<and> vfs_inv s
     \<and> tree_mounted booted s RamFileSystemType [''mnt'']"
proof (rule mount_session)
  fix s1 assume s1: "vfs_mount_at [] ''/mnt'' (Some ''ramfs'') READ booted = (Ok 2, s1)" "roomy s1"
  show ?thesis using mount_correct [OF booted_inv s1] s1 by (auto simp: meets_def booted_specs)
qed

text \<open>
  C12: listing a directory gives exactly the names that resolve in it, mounts included, each with the
  kind of the node it names; the devices being registered under their own names. It does not
  change the tree.
\<close>

theorem read_directory_correct:
  assumes "vfs_inv s" "vfs_read_directory str s = (r, s')" "roomy s'" "registry_named (char_devices s)"
  shows "meets (read_directory_spec s str) r
    (\<lambda>path ctx. vfs_inv s' \<and> vfs_ext s s'
        \<and> (\<forall>name. listed ctx name (map_option (place_kind s) (place_at s (name # path)))))
    (vfs_inv s' \<and> vfs_ext s s')"
  using refines_meets [OF read_directory_refines [OF assms(1,2) roomy_small [OF assms(3)]]
      full_stop_run [OF assms(2) overflow_read_directory] assms(3)] assms(4) by simp

theorem read_directory_correct_witness:
  "\<exists>ctx s. vfs_read_directory ''/'' booted = (Ok ctx, s) \<and> roomy s \<and> registry_named (char_devices booted)
     \<and> map di_name (context_into_iter ctx) = [''dev'', ''test.txt'']
     \<and> (\<forall>name. listed ctx name (map_option (place_kind booted) (place_at booted [name])))"
proof (rule listing_session)
  fix ctx s1
  assume s1: "vfs_read_directory ''/'' booted = (Ok ctx, s1)" "roomy s1"
    "map di_name (context_into_iter ctx) = [''dev'', ''test.txt'']"
  show ?thesis
    using read_directory_correct [OF booted_inv s1(1,2) booted_registry] s1 booted_registry
    by (auto simp: meets_def booted_specs)
qed

text \<open>
  A directory that was created is found: asking for its path gives the very entry that
  creating it returned.
\<close>

lemma create_then_stat:
  assumes "vfs_inv s" "vfs_create_directory str s = (Ok d, s1)" "vfs_stat str s1 = (r, s2)" "roomy s2"
  shows "r = Ok d"
proof -
  have "vfs_small s1" using advances_small [OF advances_stat assms(3)] roomy_small [OF assms(4)] .
  note c = created_directory [OF assms(1,2) this]
  show ?thesis using stat_held [OF c(1-3) assms(3,4)] .
qed

text \<open>
  A directory is created once: doing it again reports that it exists and leaves the tree and
  the open files as they are.
\<close>

lemma create_twice:
  assumes "vfs_inv s" "vfs_create_directory str s = (Ok d, s1)" "vfs_create_directory str s1 = (r, s2)" "roomy s2"
  shows "r = Err AlreadyExists \<and> vfs_ext s1 s2"
proof -
  have small: "vfs_small s1" using advances_small [OF advances_create_directory assms(3)] roomy_small [OF assms(4)] .
  note c = created_directory [OF assms(1,2) this]
  show ?thesis
    using refines_meets [OF create_directory_refines [OF c(1) assms(3) roomy_small [OF assms(4)]]
      full_stop_run [OF assms(3) overflow_create_directory] assms(4)] c(3)
    by (simp add: create_directory_spec_def meets_def)
qed

text \<open>
  C25: pruning the directory cache is not observable: every path names what it named, the open files
  and the entries that callers hold are kept, and of the cached entries exactly those stay that
  somebody still holds.
\<close>

theorem prune_transparent:
  assumes ok: "vfs_inv s"
  shows "vfs_inv (prune_directory_cache s)
    \<and> (\<forall>q. place_at (prune_directory_cache s) q = place_at s q)
    \<and> (\<forall>str. walk_path (prune_directory_cache s) str = walk_path s str)
    \<and> files (prune_directory_cache s) = files s \<and> handles (prune_directory_cache s) = handles s
    \<and> (\<forall>d \<in> set (handles s). entry_path (prune_directory_cache s) d = entry_path s d)
    \<and> (\<forall>k d. bt_get k (table (directory_cache (prune_directory_cache s))) = Some d \<longleftrightarrow>
         bt_get k (table (directory_cache s)) = Some d \<and> alive (vfs_strong s) (entries (directory_cache s)) d)"
proof -
  note ext = prune_ext [OF ok]
  have "bt_sorted (table (directory_cache s))" using vfs_okD(1) [OF ok] by (simp add: cache_inv_def)
  then have "bt_get k (table (directory_cache (prune_directory_cache s))) = Some d \<longleftrightarrow>
      bt_get k (table (directory_cache s)) = Some d \<and> alive (vfs_strong s) (entries (directory_cache s)) d" for k d
    by (auto simp: prune_directory_cache_def prune_def Let_def bt_get_retain split: option.splits)
  then show ?thesis
    using prune_ok [OF ok] place_at_ext [OF ok ext] walk_path_ext(1) [OF ok ext] entry_path_ext [OF ext held_entry(2) [OF ok]]
    by (auto simp: prune_directory_cache_def)
qed

theorem prune_transparent_witness:
  "vfs_inv (prune_directory_cache booted) \<and> place_at (prune_directory_cache booted) [''test.txt''] = Some (Node 2)
   \<and> bt_get (1, ''test.txt'') (table (directory_cache booted)) = Some 2
   \<and> bt_get (1, ''test.txt'') (table (directory_cache (prune_directory_cache booted))) = None"
proof -
  have "\<not> alive (vfs_strong booted) (entries (directory_cache booted)) 2"
    "bt_get (1, ''test.txt'') (table (directory_cache booted)) = Some 2" by code_simp+
  then show ?thesis
    using prune_transparent [OF booted_inv] by (auto simp: booted_tree intro: option_eqI)
qed

section \<open>Files\<close>

lemma moved_fields:
  "files (moved fd f p h s) = bt_insert fd (f\<lparr>position := p\<rparr>) (files s)" "nodes (moved fd f p h s) = h"
  by (simp_all add: moved_def)

text \<open>
  C5: what is written to a file and closed is read back: after opening a path for writing, writing
  a buffer, and closing, opening the path again for reading gives the buffer followed by what was
  beyond it in the old contents, cut to the reader's buffer. All calls succeed.
\<close>

theorem file_round_trip:
  assumes ok: "vfs_inv s" and opn: "vfs_open str Write s = (Ok fd, s1)"
    and f: "bt_get fd (files s1) = Some f" and old: "file_bytes s1 (file_node f) = Some old"
    and wr: "vfs_write fd buf s1 = (r2, s2)" and cl: "vfs_close fd s2 = (r3, s3)"
    and re: "vfs_open str Read s3 = (r4, s4)" and room: "roomy s4"
    and len: "length buf < usize_limit" "length old < usize_limit"
  shows "r2 = Ok (length buf) \<and> r3 = Ok () \<and> (\<exists>fd'. r4 = Ok fd'
    \<and> (let data = buf @ drop (length buf) old in
        fst (vfs_read fd' rbuf s4) = Ok (min (length rbuf) (length data), take (length rbuf) data @ drop (length data) rbuf)))"
proof -
  have small3: "vfs_small s3" using advances_small [OF advances_open re] roomy_small [OF room] .
  have small1: "vfs_small s1"
    using advances_small [OF advances_files(3) wr advances_small [OF advances_files(1) cl small3]] .
  note o1 = opened_walk [OF ok opn small1 f]
  note wc = write_then_close [OF o1(1) f o1(2,3) old len(1) wr cl]
  obtain path where path: "walk_path s1 str = Ok (Some path)" "place_at s1 path = Some (place_of (nodes s1) (file_node f))"
    using o1(4) by blast
  have "place_at s1 path = Some (Node (file_node f))"
    using path(2) old by (auto simp: place_of_def file_bytes_def split: private_data.splits)
  then have at: "place_at s3 path = Some (Node (file_node f))" using vfs_same_place_at [OF o1(1) wc(4)] by simp
  have walk: "walk_path s3 str = Ok (Some path)" using vfs_same_walk [OF o1(1) wc(4)] path(1) by simp
  show ?thesis using read_after_open [OF wc(3) walk at wc(5) re room, of rbuf] wc(1,2) len by (auto simp: Let_def)
qed

theorem file_round_trip_witness:
  "\<exists>s4. roomy s4 \<and> fst (vfs_read 3 (replicate 4 0) s4) = Ok (4, [1, 2] @ map of_char ''ll'')"
proof (rule file_session)
  fix s1 s2 s3 s4
  assume s: "vfs_open ''/test.txt'' Write booted = (Ok 2, s1)" "vfs_write 2 [1, 2] s1 = (Ok 2, s2)"
    "vfs_close 2 s2 = (Ok (), s3)" "vfs_open ''/test.txt'' Read s3 = (Ok 3, s4)" "roomy s4"
    "bt_get 2 (files s1) = Some (file_new 2 Write)" "file_bytes s1 2 = Some hello_world"
  have "length [1 :: u8, 2] < usize_limit" "length hello_world < usize_limit" by code_simp+
  then show ?thesis
    using file_round_trip [OF booted_inv s(1,6) _ s(2-5), of hello_world "replicate 4 0"] s(5,7)
    by (auto simp: file_new_def hello_world_def numeral_eq_Suc)
qed

text \<open>
  C21: a write to a file stores the buffer at the position of the descriptor, extends the file with
  zeroes if the position is past its end, advances the position by the length of the buffer, and
  leaves every other file, descriptor and path alone.
\<close>

theorem write_correct:
  assumes ok: "vfs_inv s" and f: "bt_get fd (files s) = Some f" "mode f = Write"
    and data: "file_bytes s (file_node f) = Some data" and room: "position f + length buf < usize_limit"
  shows "\<exists>s'. vfs_write fd buf s = (Ok (length buf), s') \<and> vfs_inv s'
    \<and> file_bytes s' (file_node f) = Some (write_at (position f) buf data)
    \<and> (\<forall>n. n \<noteq> file_node f \<longrightarrow> file_bytes s' n = file_bytes s n)
    \<and> (\<forall>q. place_at s' q = place_at s q)
    \<and> bt_get fd (files s') = Some (f\<lparr>position := position f + length buf\<rparr>)
    \<and> (\<forall>fd'. fd' \<noteq> fd \<longrightarrow> bt_get fd' (files s') = bt_get fd' (files s))"
proof -
  have pd: "private_data (nodes s ! file_node f) = RamFileNode data"
    using data by (auto simp: file_bytes_def split: private_data.splits)
  let ?h = "set_private_data (file_node f) (RamFileNode (write_at (position f) buf data)) (nodes s)"
  let ?s = "moved fd f (position f + length buf) ?h s"
  have run: "vfs_write fd buf s = (Ok (length buf), ?s)" using vfs_write_file [OF ok f pd] room by simp
  note inv = write_inv [OF ok run]
  have n: "file_node f < length (nodes s)" using vfs_ok_file(2) [OF ok f(1)] .
  show ?thesis
    using run inv n vfs_same_place_at [OF ok conjunct2 [OF inv]]
    by (intro exI [of _ ?s]) (auto simp: moved_fields file_bytes_def set_private_data_def nth_list_update)
qed

theorem write_correct_witness:
  "\<exists>s1 s2. vfs_open ''/test.txt'' Write booted = (Ok 2, s1) \<and> vfs_write 2 [1, 2] s1 = (Ok 2, s2)
     \<and> file_bytes s2 2 = Some (write_at 0 [1, 2] hello_world)"
proof (rule file_session)
  fix s1
  assume s: "vfs_open ''/test.txt'' Write booted = (Ok 2, s1)" "roomy s1"
    "bt_get 2 (files s1) = Some (file_new 2 Write)" "file_bytes s1 2 = Some hello_world"
  have ok: "vfs_inv s1" using open_inv [OF booted_inv s(1) _ roomy_small [OF s(2)]] by simp
  have "length [1 :: u8, 2] < usize_limit" by code_simp
  then show ?thesis
    using write_correct [OF ok s(3), of hello_world "[1, 2]"] s by (auto simp: file_new_def)
qed

text \<open>
  C22: a read of a file fills the buffer with the bytes at the position of the descriptor, as many as
  the buffer takes and the file has left, keeps the rest of the buffer, advances the position by
  the number of bytes, and changes no node and no other descriptor.
\<close>

theorem read_correct:
  assumes ok: "vfs_inv s" and f: "bt_get fd (files s) = Some f" "mode f = Read"
    and data: "file_bytes s (file_node f) = Some data"
    and room: "position f + min (length buf) (length data - position f) < usize_limit"
  shows "\<exists>s' n. n = min (length buf) (length data - position f)
    \<and> vfs_read fd buf s = (Ok (n, take n (drop (position f) data) @ drop n buf), s') \<and> vfs_inv s'
    \<and> nodes s' = nodes s \<and> (\<forall>q. place_at s' q = place_at s q)
    \<and> bt_get fd (files s') = Some (f\<lparr>position := position f + n\<rparr>)
    \<and> (\<forall>fd'. fd' \<noteq> fd \<longrightarrow> bt_get fd' (files s') = bt_get fd' (files s))"
proof -
  have pd: "private_data (nodes s ! file_node f) = RamFileNode data"
    using data by (auto simp: file_bytes_def split: private_data.splits)
  let ?n = "min (length buf) (length data - position f)"
  let ?s = "moved fd f (position f + ?n) (nodes s) s"
  have run: "vfs_read fd buf s = (Ok (?n, take ?n (drop (position f) data) @ drop ?n buf), ?s)"
    using vfs_read_file [OF ok f pd, of buf] room by simp
  note inv = read_inv [OF ok run]
  show ?thesis
    using run inv vfs_same_place_at [OF ok conjunct2 [OF inv]]
    by (intro exI [of _ ?s] exI [of _ ?n]) (auto simp: moved_fields)
qed

theorem read_correct_witness:
  "\<exists>s4 s5. bt_get 3 (files s4) = Some (file_new 2 Read)
     \<and> vfs_read 3 [0] s4 = (Ok (1, [1]), s5) \<and> bt_get 3 (files s5) = Some ((file_new 2 Read)\<lparr>position := 1\<rparr>)"
proof (rule file_session)
  fix s1 s2 s3 s4
  assume s: "vfs_open ''/test.txt'' Write booted = (Ok 2, s1)" "vfs_write 2 [1, 2] s1 = (Ok 2, s2)"
    "vfs_close 2 s2 = (Ok (), s3)" "vfs_open ''/test.txt'' Read s3 = (Ok 3, s4)" "roomy s1" "roomy s4"
    "bt_get 3 (files s4) = Some (file_new 2 Read)" "file_bytes s4 2 = Some ([1, 2] @ drop 2 hello_world)"
  have ok1: "vfs_inv s1" using open_inv [OF booted_inv s(1) _ roomy_small [OF s(5)]] by simp
  have ok4: "vfs_inv s4"
    using open_inv [OF close_inv [OF conjunct1 [OF write_inv [OF ok1 s(2)]] s(3)] s(4) _ roomy_small [OF s(6)]] by simp
  have "1 < usize_limit" by code_simp
  then show ?thesis
    using read_correct [OF ok4 s(7), of "[1, 2] @ drop 2 hello_world" "[0]"] s(7,8) by (auto simp: file_new_def)
qed

text \<open>
  C38: a descriptor that is not open is refused by every operation, and a descriptor of another mode
  is refused by reading and writing; the state stays as it is.
\<close>

theorem file_access_errors:
  assumes "vfs_inv s"
  shows "(bt_get fd (files s) = None \<longrightarrow>
      vfs_read fd buf s = (Err InvalidFile, s) \<and> vfs_write fd buf s = (Err InvalidFile, s)
      \<and> vfs_close fd s = (Err InvalidFile, s))
    \<and> (\<forall>f. bt_get fd (files s) = Some f \<and> \<not> is_directory (nodes s ! file_node f) \<longrightarrow>
      (mode f \<noteq> Read \<longrightarrow> vfs_read fd buf s = (Err InvalidMode, s))
      \<and> (mode f \<noteq> Write \<longrightarrow> vfs_write fd buf s = (Err InvalidMode, s)))"
  using vfs_close_eq [OF assms, of fd]
  by (auto simp: vfs_read_no_file vfs_write_no_file vfs_read_wrong_mode vfs_write_wrong_mode)

theorem file_access_errors_witness: "vfs_read 7 [0] booted = (Err InvalidFile, booted)"
  using file_access_errors [OF booted_inv, of 7 "[0]"] by (simp add: booted_def)

text \<open>
  C23: closing a descriptor that is open succeeds; it removes this descriptor and no other, takes one
  from the link count of the node, and keeps the tree, the contents and every other node.
\<close>

theorem close_correct:
  assumes ok: "vfs_inv s" and f: "bt_get fd (files s) = Some f"
  shows "\<exists>s'. vfs_close fd s = (Ok (), s') \<and> vfs_inv s'
    \<and> bt_get fd (files s') = None \<and> (\<forall>fd'. fd' \<noteq> fd \<longrightarrow> bt_get fd' (files s') = bt_get fd' (files s))
    \<and> (\<forall>q. place_at s' q = place_at s q) \<and> nodes_kept s s'
    \<and> link_count (metadata (nodes s' ! file_node f)) = link_count (metadata (nodes s ! file_node f)) - 1
    \<and> (\<forall>n < length (nodes s). n \<noteq> file_node f \<longrightarrow> nodes s' ! n = nodes s ! n)"
proof -
  have n: "file_node f < length (nodes s)" using vfs_ok_file(2) [OF ok f(1)] .
  note same = closed_same [OF n, of fd]
  show ?thesis
    using vfs_close_eq [OF ok, of fd] f closed_ok [OF ok f] vfs_same_place_at [OF ok same] n vfs_ok_files(1) [OF ok]
    by (auto simp: closed_def nodes_kept_def file_bytes_def nth_set_link_count)
qed

theorem close_correct_witness:
  "\<exists>s1 s2. vfs_open ''/test.txt'' Write booted = (Ok 2, s1) \<and> vfs_close 2 s1 = (Ok (), s2) \<and> bt_get 2 (files s2) = None"
proof (rule file_session)
  fix s1
  assume s: "vfs_open ''/test.txt'' Write booted = (Ok 2, s1)" "roomy s1" "bt_get 2 (files s1) = Some (file_new 2 Write)"
  have ok: "vfs_inv s1" using open_inv [OF booted_inv s(1) _ roomy_small [OF s(2)]] by simp
  show ?thesis using close_correct [OF ok s(3)] s(1) by blast
qed

text \<open>
  C29: the character devices behind an open descriptor: the zero device fills the buffer with
  zeroes and refuses writes, the null device swallows what is written and refuses reads, and no
  write changes a node.
\<close>

theorem device_access:
  assumes ok: "vfs_inv s" and f: "bt_get fd (files s) = Some f"
    and dev: "private_data (nodes s ! file_node f) = CharDeviceData d"
    and room: "position f + length buf < usize_limit"
  shows "fst (vfs_read fd buf s) = (if mode f \<noteq> Read then Err InvalidMode else
      (case d of ZeroDevice \<Rightarrow> Ok (length buf, replicate (length buf) 0) | NullDevice \<Rightarrow> Err OperationNotSupported))
    \<and> fst (vfs_write fd buf s) = (if mode f \<noteq> Write then Err InvalidMode else
      (case d of NullDevice \<Rightarrow> Ok (length buf) | ZeroDevice \<Rightarrow> Err OperationNotSupported))
    \<and> nodes (snd (vfs_write fd buf s)) = nodes s"
proof -
  have nd: "\<not> is_directory (nodes s ! file_node f)"
    using dev directory_place [OF ok vfs_ok_file(2) [OF ok f]] by (auto simp: place_of_def)
  show ?thesis
    using vfs_read_device [OF ok f _ dev, of buf] vfs_write_device [OF ok f _ dev, of buf]
      vfs_read_wrong_mode [OF f nd, of buf] vfs_write_wrong_mode [OF f nd, of buf] room
    by (cases d) (auto simp: moved_def)
qed

theorem device_access_witness:
  "\<exists>s1. vfs_open ''/dev/zero'' Read booted = (Ok 2, s1) \<and> fst (vfs_read 2 [7, 8] s1) = Ok (2, [0, 0])"
proof (rule device_session)
  fix s1
  assume s: "vfs_open ''/dev/zero'' Read booted = (Ok 2, s1)" "roomy s1"
    "bt_get 2 (files s1) = Some (file_new 3 Read)" "private_data (nodes s1 ! 3) = CharDeviceData ZeroDevice"
  have ok: "vfs_inv s1" using open_inv [OF booted_inv s(1) _ roomy_small [OF s(2)]] by simp
  have "length [7 :: u8, 8] < usize_limit" by code_simp
  then show ?thesis
    using device_access [OF ok s(3), of ZeroDevice "[7, 8]"] s by (auto simp: file_new_def numeral_2_eq_2)
qed

section \<open>Panics\<close>

text \<open>
  C4: every panic of a system call is accounted for: the calls on paths only reach the \<open>todo!\<close>s of
  the source, in particular the directory cache is never asked to insert an entry it has; mounting
  also asserts that the source is empty; reading and writing assert that the node is not a directory
  and can overflow the position; closing and pruning never panic.
\<close>

theorem only_panics:
  assumes ok: "vfs_inv s" and run: "perform c s = (Panic q, s')" and room: "roomy s'"
  shows "may_panic c s q"
proof (cases c)
  case (SysMount source target fs_kind flags)
  then show ?thesis using run mount_panics [OF ok _ room] by (auto simp: discard_panic)
next
  case (SysOpen str m)
  then have r: "vfs_open str m s = (Panic q, s')" using run by (simp add: discard_panic)
  show ?thesis
    using meets_panic [OF refines_meets [OF open_refines [OF ok r roomy_small [OF room]]
        overflow_open [OF ok r roomy_small [OF room]] room]] spec_panics(4) SysOpen by auto
next
  case (SysReadDirectory str)
  then have r: "vfs_read_directory str s = (Panic q, s')" using run by (simp add: discard_panic)
  show ?thesis
    using meets_panic [OF refines_meets [OF read_directory_refines [OF ok r roomy_small [OF room]]
        full_stop_run [OF r overflow_read_directory] room]] spec_panics(2) SysReadDirectory by auto
next
  case (SysCreateDirectory str)
  then have r: "vfs_create_directory str s = (Panic q, s')" using run by (simp add: discard_panic)
  show ?thesis
    using meets_panic [OF refines_meets [OF create_directory_refines [OF ok r roomy_small [OF room]]
        full_stop_run [OF r overflow_create_directory] room]] spec_panics(3) SysCreateDirectory by auto
next
  case (SysStat str)
  then have r: "vfs_stat str s = (Panic q, s')" using run by (simp add: discard_panic)
  show ?thesis
    using meets_panic [OF refines_meets [OF stat_refines [OF ok r roomy_small [OF room]]
        full_stop_run [OF r overflow_stat] room]] spec_panics(1) SysStat by auto
next
  case (SysClose fd)
  then show ?thesis using run vfs_close_eq [OF ok, of fd] by (auto split: option.splits)
qed (use run access_panics [OF ok] in \<open>auto simp: discard_panic\<close>)

theorem only_panics_witness: "perform (SysStat ''a'') booted = (Panic Todo, booted) \<and> may_panic (SysStat ''a'') booted Todo"
proof -
  have run: "perform (SysStat ''a'') booted = (Panic Todo, booted)"
    by (simp add: discard_panic vfs_stat_def resolve_path_def parse_path_def path_from_str_def is_ascii_def is_ascii_char_def
        MAX_PATH_LENGTH_def require_absolute_def is_absolute_def slash_def Let_def)
  show ?thesis using run only_panics [OF booted_inv run booted_specs(8)] by blast
qed

text \<open>
  A file opened for appending can never be written: every write is refused as being of the
  wrong mode.
\<close>

lemma append_never_writes:
  assumes "vfs_inv s" "bt_get fd (files s) = Some f" "mode f = Append"
  shows "vfs_write fd buf s = (Err InvalidMode, s)"
proof -
  have "\<not> is_directory (nodes s ! file_node f)" using vfs_ok_file(1) [OF assms(1,2)] assms(3) by (simp add: file_wf_def)
  then show ?thesis using vfs_write_wrong_mode [OF assms(2)] assms(3) by simp
qed

text \<open>
  C39: a directory can be opened for reading, and reading from the descriptor then panics.
\<close>

theorem directory_read_panics:
  assumes ok: "vfs_inv s" and walk: "walk_path s str = Ok (Some path)" "directory_at s path"
    and run: "vfs_open str Read s = (r, s')" and room: "roomy s'"
  shows "\<exists>fd. r = Ok fd \<and> vfs_read fd buf s' = (Panic Assert, s')"
proof -
  obtain fd k where fd: "r = Ok fd" "vfs_inv s'" "files s' = bt_insert fd (file_new k Read) (files s)"
      "place_at s' path = Some (place_of (nodes s') k)" "\<forall>q. place_at s' q = place_at s q" "nodes_kept s s'"
    using refines_meets [OF open_refines [OF ok run roomy_small [OF room]] overflow_open [OF ok run roomy_small [OF room]] room]
      walk by (auto simp: meets_def open_spec_def)
  obtain n where n: "place_at s path = Some (Node n)" "is_directory (nodes s ! n)"
    using walk(2) by (auto simp: directory_at_def place_is_directory_def split: option.splits place.splits)
  then have k: "k = n" using fd(4,5) by (auto simp: place_of_def split: private_data.splits)
  have "is_directory (nodes s' ! n)" using n place_at_range [OF ok n(1)] fd(6) by (simp add: nodes_kept_def is_directory_def)
  then show ?thesis
    using fd(1,3) k vfs_read_directory_file [of fd s' "file_new n Read" buf] by (simp add: file_new_def)
qed

theorem directory_read_panics_witness:
  "\<exists>s1. vfs_open ''/'' Read booted = (Ok 2, s1) \<and> vfs_read 2 [0] s1 = (Panic Assert, s1)"
proof (rule root_session)
  fix s1 assume s: "vfs_open ''/'' Read booted = (Ok 2, s1)" "roomy s1"
  show ?thesis using directory_read_panics [OF booted_inv booted_specs(2,7) s, of "[0]"] s(1) by auto
qed

end
