(* ===== verification/Vfs_Types.thy ===== *)
theory Vfs_Types
  imports Vfs_Session
begin

text \<open>
  The types of nodes. A node carries its kind and, for its driver, private data behind \<open>dyn Any\<close>,
  which the drivers downcast to the type they expect. Rust checks these downcasts when the code runs;
  the lemmas here show that they cannot fail.
\<close>

definition types_kept :: "vfs \<Rightarrow> vfs \<Rightarrow> bool" where
  "types_kept s s' \<longleftrightarrow> length (nodes s) \<le> length (nodes s')
     \<and> (\<forall>n < length (nodes s). kind (nodes s' ! n) = kind (nodes s ! n))"

lemma types_kept_refl [simp]: "types_kept s s"
  by (simp add: types_kept_def)

lemma types_kept_trans: "types_kept a b \<Longrightarrow> types_kept b c \<Longrightarrow> types_kept a c"
  by (simp add: types_kept_def)

lemma types_kept_nodes: "nodes_kept s s' \<Longrightarrow> types_kept s s'"
  by (simp add: types_kept_def nodes_kept_def)

lemma types_kept_ext: "vfs_ext s s' \<Longrightarrow> types_kept s s'"
  by (rule types_kept_nodes [OF nodes_kept_ext])

lemma types_kept_same: "vfs_same s s' \<Longrightarrow> types_kept s s'"
  by (auto simp: types_kept_def vfs_same_def list_all2_conv_all_nth same_node_def)

lemma refines_elim:
  assumes "refines spec r fine bad" "\<not> is_panic r"
  obtains x a where "fine x a" | bad
  using assms by (auto simp: refines_def split: outcome.splits)

lemma call_types:
  assumes ok: "vfs_inv s" and run: "perform c s = (r, s')" "\<not> is_panic r" and small: "vfs_small s'"
  shows "types_kept s s'"
proof (cases c)
  case (SysReadDirectory str)
  then obtain r' where r: "vfs_read_directory str s = (r', s')" "\<not> is_panic r'" using run by (auto elim: discard_run)
  show ?thesis by (rule refines_elim [OF read_directory_refines [OF ok r(1) small] r(2)]) (auto intro: types_kept_ext)
next
  case (SysCreateDirectory str)
  then obtain r' where r: "vfs_create_directory str s = (r', s')" "\<not> is_panic r'" using run by (auto elim: discard_run)
  show ?thesis
    by (rule refines_elim [OF create_directory_refines [OF ok r(1) small] r(2)])
      (auto intro: types_kept_ext types_kept_nodes simp: node_added_def tree_added_def)
next
  case (SysStat str)
  then obtain r' where r: "vfs_stat str s = (r', s')" "\<not> is_panic r'" using run by (auto elim: discard_run)
  have "vfs_ext s (s'\<lparr>handles := h\<rparr>) \<Longrightarrow> types_kept s s'" for h
    using types_kept_ext [of s "s'\<lparr>handles := h\<rparr>"] by (simp add: types_kept_def)
  then show ?thesis by (auto intro: types_kept_ext refines_elim [OF stat_refines [OF ok r(1) small] r(2)])
next
  case (SysMount source target fs_kind flags)
  then obtain r' where r: "vfs_mount_at source target fs_kind flags s = (r', s')" "\<not> is_panic r'"
    using run by (auto elim: discard_run)
  then have "r' \<noteq> Panic Assert" by auto
  show ?thesis
    by (rule refines_elim [OF mount_refines [OF ok small mount_source [OF r(1) \<open>r' \<noteq> Panic Assert\<close>]] r(2)])
      (auto intro: types_kept_ext types_kept_nodes simp: mount_done_def tree_mounted_def)
next
  case (SysOpen str m)
  then obtain r' where r: "vfs_open str m s = (r', s')" "\<not> is_panic r'" using run by (auto elim: discard_run)
  show ?thesis
    by (rule refines_elim [OF open_refines [OF ok r(1) small] r(2)])
      (auto intro: types_kept_ext types_kept_nodes simp: tree_added_def split: if_splits)
next
  case (SysClose fd)
  then show ?thesis
    using run vfs_ok_file(2) [OF ok] vfs_close_eq [OF ok] by (auto intro: types_kept_same closed_same split: option.splits)
next
  case (SysRead fd buf)
  then show ?thesis using run read_inv [OF ok] by (auto elim!: discard_run intro: types_kept_same)
next
  case (SysWrite fd buf)
  then show ?thesis using run write_inv [OF ok] by (auto elim!: discard_run intro: types_kept_same)
next
  case SysPruneDirectoryCache
  then show ?thesis using run types_kept_ext [OF prune_ext [OF ok]] by auto
next
  case (DropEntry d)
  then show ?thesis using run by (auto simp: types_kept_def drop_handle_def)
qed

lemma reaches_types:
  assumes "vfs_reaches s s'" "vfs_inv s" "vfs_small s'"
  shows "types_kept s s'"
  using assms(1,3)
proof (induction rule: rtranclp_induct)
  case (step s1 s2)
  then have small1: "vfs_small s1" using vfs_system.step_bounded by blast
  have "types_kept s1 s2"
    using step.hyps(2) call_types [OF vfs_system.reach_inv [OF step.hyps(1) assms(2) small1]] step.prems by (auto simp: vfs_step_simps)
  then show ?case using step.IH [OF small1] types_kept_trans by blast
qed simp

text \<open>
  C27: nodes are well typed, and stay so. Whatever calls are made after a state that satisfies the
  invariant, a node is still there and has the kind it was created with; it belongs to a mounted file
  system, and its private data is what the driver of that file system stores for this kind. So the
  downcasts succeed: a regular file's data is the bytes of a ram file, a character device's is a
  device, a directory's is the children of a ram directory, or nothing on the device file system.
\<close>

theorem nodes_well_typed:
  assumes "vfs_inv s" "vfs_reaches s s'" "vfs_small s'" "n < length (nodes s)"
  shows "n < length (nodes s') \<and> kind (nodes s' ! n) = kind (nodes s ! n)
    \<and> (\<exists>m. get_mount (mount_id (nodes s' ! n)) s' = Some m
         \<and> (case kind (nodes s ! n) of
              File \<Rightarrow> mount_type m = RamFileSystemType
                \<and> (\<exists>bytes. data_as_ram_file (nodes s' ! n) h = ((Ok bytes, h) :: (io_error, u8 list) outcome \<times> node_heap))
            | Directory \<Rightarrow> (case mount_type m of
                  RamFileSystemType \<Rightarrow> (\<exists>c. data_as_ram_directory (nodes s' ! n) h = ((Ok c, h) :: (io_error, _) outcome \<times> node_heap))
                | DevFileSystemType \<Rightarrow> private_data (nodes s' ! n) = NoData)
            | CharDevice \<Rightarrow> mount_type m = DevFileSystemType
                \<and> (\<exists>d. data_as_char_device (nodes s' ! n) h = ((Ok d, h) :: (io_error, char_device) outcome \<times> node_heap))
            | BlockDevice \<Rightarrow> False))"
proof -
  have kept: "n < length (nodes s')" "kind (nodes s' ! n) = kind (nodes s ! n)"
    using reaches_types [OF assms(2,1,3)] assms(4) by (auto simp: types_kept_def)
  have "vfs_inv s'" by (rule vfs_system.reach_inv [OF assms(2,1,3)])
  then obtain m where m: "get_mount (mount_id (nodes s' ! n)) s' = Some m"
    "node_typed (mount_type m) (kind (nodes s ! n)) (private_data (nodes s' ! n))"
    using kept by (auto simp: vfs_ok_def nodes_inv_def node_mounted_def split: option.splits)
  show ?thesis
    using kept m
    by (cases "mount_type m"; cases "kind (nodes s ! n)"; cases "private_data (nodes s' ! n)")
      (auto simp: data_as_ram_file_def data_as_ram_directory_def data_as_char_device_def)
qed

theorem nodes_well_typed_witness:
  "\<exists>s1. vfs_reaches booted s1 \<and> 2 < length (nodes booted) \<and> kind (nodes s1 ! 2) = File
     \<and> (\<exists>bytes. data_as_ram_file (nodes s1 ! 2) [] = ((Ok bytes, []) :: (io_error, u8 list) outcome \<times> node_heap))"
proof (rule device_session)
  fix s1
  assume s: "vfs_open ''/dev/zero'' Read booted = (Ok 2, s1)" "roomy s1"
  have "perform (SysOpen ''/dev/zero'' Read) booted = (Ok (), s1)" using s(1) by (simp add: discard_def)
  then have reach: "vfs_reaches booted s1" using vfs_step.intros [of "SysOpen ''/dev/zero'' Read" booted "Ok ()" s1] by auto
  have n: "2 < length (nodes booted)" "kind (nodes booted ! 2) = File" by code_simp+
  show ?thesis
    using nodes_well_typed [OF booted_inv reach roomy_small [OF s(2)] n(1), of "[]"] reach n by auto
qed

end
