(* ===== verification/Vga.thy ===== *)
theory Vga
  imports Prelude
begin

text \<open>
  The VGA text mode driver, \<open>vga.rs\<close>: a writer that keeps 25 rows of 80 cells in the video memory,
  writes on the last row and scrolls, and the hardware cursor, which is set through the index and
  data ports of the CRT controller. Volatile cells are cells; \<open>without_interrupts\<close> keeps interrupt
  handlers away from the writer and has no effect of its own.
\<close>

unbundle bit_operations_syntax

section \<open>Colours\<close>

datatype color =
    Black | Blue | Green | Cyan | Red | Magenta | Brown | LightGray
  | DarkGray | LightBlue | LightGreen | LightCyan | LightRed | Pink | Yellow | White

fun color_u8 :: "color \<Rightarrow> u8" where
  "color_u8 Black = 0"
| "color_u8 Blue = 1"
| "color_u8 Green = 2"
| "color_u8 Cyan = 3"
| "color_u8 Red = 4"
| "color_u8 Magenta = 5"
| "color_u8 Brown = 6"
| "color_u8 LightGray = 7"
| "color_u8 DarkGray = 8"
| "color_u8 LightBlue = 9"
| "color_u8 LightGreen = 10"
| "color_u8 LightCyan = 11"
| "color_u8 LightRed = 12"
| "color_u8 Pink = 13"
| "color_u8 Yellow = 14"
| "color_u8 White = 15"

text \<open>\<open>ColorCode(u8)\<close>, \<open>ColorCode::new\<close> and the conversion from a foreground colour.\<close>

type_synonym color_code = u8

definition color_code_new :: "color \<Rightarrow> color \<Rightarrow> color_code" where
  "color_code_new foreground background = push_bit 4 (color_u8 background) OR color_u8 foreground"

definition color_into_code :: "color \<Rightarrow> color_code" where
  "color_into_code value = color_code_new value Black"

section \<open>The writer\<close>

definition BUFFER_HEIGHT :: usize where
  "BUFFER_HEIGHT = 25"

definition BUFFER_WIDTH :: usize where
  "BUFFER_WIDTH = 80"

record screen_char =
  ascii_character :: u8
  char_color :: color_code

record writer =
  column_position :: usize
  color_code :: color_code
  chars :: "screen_char list list"

text \<open>\<open>self.buffer.chars[row][col].write(c)\<close> and \<open>.read()\<close>, with the bounds checks of the arrays.\<close>

definition write_cell :: "usize \<Rightarrow> usize \<Rightarrow> screen_char \<Rightarrow> (writer, infallible, unit) op" where
  "write_cell row col c = (\<lambda>w.
     if row < length (chars w) \<and> col < length (chars w ! row)
     then (Ok (), w\<lparr>chars := (chars w)[row := (chars w ! row)[col := c]]\<rparr>)
     else (Panic OutOfBounds, w))"

definition read_cell :: "usize \<Rightarrow> usize \<Rightarrow> (writer, infallible, screen_char) op" where
  "read_cell row col = (\<lambda>w.
     if row < length (chars w) \<and> col < length (chars w ! row)
     then (Ok (chars w ! row ! col), w) else (Panic OutOfBounds, w))"

definition blank :: "color_code \<Rightarrow> screen_char" where
  "blank c = \<lparr>ascii_character = of_char (CHR '' ''), char_color = c\<rparr>"

definition clear_row :: "usize \<Rightarrow> (writer, infallible, unit) op" where
  "clear_row row = (\<lambda>w.
     for_each [0..<BUFFER_WIDTH] (\<lambda>col. write_cell row col (blank (color_code w))) w)"

definition new_line :: "(writer, infallible, unit) op" where
  "new_line =
     try_bind (for_each [1..<BUFFER_HEIGHT] (\<lambda>row.
         for_each [0..<BUFFER_WIDTH] (\<lambda>col.
           try_bind (read_cell row col) (\<lambda>character.
           write_cell (row - 1) col character)))) (\<lambda>_.
     try_bind (clear_row (BUFFER_HEIGHT - 1)) (\<lambda>_ w.
     (Ok (), w\<lparr>column_position := 0\<rparr>)))"

definition line_feed :: u8 where
  "line_feed = 10"

definition write_byte :: "u8 \<Rightarrow> (writer, infallible, unit) op" where
  "write_byte byte =
     (if byte = line_feed then new_line
      else
        try_bind (\<lambda>w. if column_position w \<ge> BUFFER_WIDTH then new_line w else (Ok (), w)) (\<lambda>_ w.
        try_bind (write_cell (BUFFER_HEIGHT - 1) (column_position w)
            \<lparr>ascii_character = byte, char_color = color_code w\<rparr>) (\<lambda>_ w.
        try_bind (checked_add (column_position w) 1) (\<lambda>c w. (Ok (), w\<lparr>column_position := c\<rparr>)) w) w))"

definition is_printable :: "u8 \<Rightarrow> bool" where
  "is_printable byte \<longleftrightarrow> 0x20 \<le> byte \<and> byte \<le> 0x7e \<or> byte = line_feed"

definition write_string :: "u8 list \<Rightarrow> (writer, infallible, unit) op" where
  "write_string s = for_each s (\<lambda>byte. if is_printable byte then write_byte byte else write_byte 0xfe)"

text \<open>The static \<open>WRITER\<close>, on what the video memory holds when it is first used.\<close>

definition writer_init :: "screen_char list list \<Rightarrow> writer" where
  "writer_init video_memory =
     \<lparr>column_position = 0, color_code = color_code_new White Black, chars = video_memory\<rparr>"

section \<open>Printing\<close>

text \<open>
  \<open>print!\<close> on the text its format string and arguments make (\<open>write_fmt\<close> hands it to
  \<open>write_str\<close> piece by piece), and \<open>println!\<close>.
\<close>

definition print :: "string \<Rightarrow> (writer, infallible, unit) op" where
  "print text = write_string (map of_char text)"

definition println :: "string \<Rightarrow> (writer, infallible, unit) op" where
  "println text = print (text @ [CHR 0x0A])"

definition set_color_code :: "color_code \<Rightarrow> (writer, infallible, unit) op" where
  "set_color_code c = (\<lambda>w. (Ok (), w\<lparr>color_code := c\<rparr>))"

text \<open>The two swaps of \<open>with_color\<close> around the closure, which prints.\<close>

definition with_color :: "color_code \<Rightarrow> (writer, infallible, 'a) op \<Rightarrow> (writer, infallible, 'a) op" where
  "with_color c f = (\<lambda>w.
     let saved = color_code w in
     try_bind f (\<lambda>res w. (Ok res, w\<lparr>color_code := saved\<rparr>)) (w\<lparr>color_code := c\<rparr>))"

definition set_column_position :: "u8 \<Rightarrow> (writer, infallible, unit) op" where
  "set_column_position position = (\<lambda>w. (Ok (), w\<lparr>column_position := min (unat position) BUFFER_WIDTH\<rparr>))"

section \<open>The hardware cursor\<close>

text \<open>
  The ports of the CRT controller: the bytes written to them, in order. What a port reads is up to
  the hardware and what was written before, \<open>port_in\<close>.
\<close>

type_synonym port_log = "(u16 \<times> u8) list"

definition VGA_CMD_PORT :: u16 where
  "VGA_CMD_PORT = 0x3D4"

definition VGA_DATA_PORT :: u16 where
  "VGA_DATA_PORT = 0x3D5"

definition out :: "u16 \<Rightarrow> u8 \<Rightarrow> (port_log, infallible, unit) op" where
  "out port value = (\<lambda>log. (Ok (), log @ [(port, value)]))"

text \<open>\<open>y as u16 * BUFFER_WIDTH as u16 + x as u16\<close>, in checked 16-bit arithmetic.\<close>

definition cursor_offset :: "u8 \<Rightarrow> u8 \<Rightarrow> (port_log, infallible, u16) op" where
  "cursor_offset x y =
     (if unat y * BUFFER_WIDTH \<ge> 2 ^ 16 then panic Overflow
      else if unat y * BUFFER_WIDTH + unat x \<ge> 2 ^ 16 then panic Overflow
      else ret (ucast y * of_nat BUFFER_WIDTH + ucast x))"

definition set_cursor_position :: "u8 \<Rightarrow> u8 \<Rightarrow> (port_log, infallible, unit) op" where
  "set_cursor_position x y =
     try_bind (cursor_offset x y) (\<lambda>pos.
     try_bind (out VGA_CMD_PORT 0x0F) (\<lambda>_.
     try_bind (out VGA_DATA_PORT (ucast (pos AND 0xFF))) (\<lambda>_.
     try_bind (out VGA_CMD_PORT 0x0E) (\<lambda>_.
     out VGA_DATA_PORT (ucast (drop_bit 8 pos AND 0xFF))))))"

definition enable_cursor :: "(port_log \<Rightarrow> u8) \<Rightarrow> u8 \<Rightarrow> u8 \<Rightarrow> (port_log, infallible, unit) op" where
  "enable_cursor port_in start end_line =
     try_bind (out VGA_CMD_PORT 0x0A) (\<lambda>_ log.
     let s = port_in log in
     try_bind (out VGA_DATA_PORT ((s AND 0xC0) OR start)) (\<lambda>_.
     try_bind (out VGA_CMD_PORT 0x0B) (\<lambda>_ log.
     let e = port_in log in
     out VGA_DATA_PORT ((e AND 0xE0) OR end_line) log)) log)"

definition disable_cursor :: "(port_log, infallible, unit) op" where
  "disable_cursor =
     try_bind (out VGA_CMD_PORT 0x0A) (\<lambda>_.
     out VGA_DATA_PORT 0x20)"

section \<open>Scrolling\<close>

definition writer_wf :: "writer \<Rightarrow> bool" where
  "writer_wf w \<longleftrightarrow> length (chars w) = BUFFER_HEIGHT \<and> (\<forall>row \<in> set (chars w). length row = BUFFER_WIDTH)
     \<and> column_position w \<le> BUFFER_WIDTH"

lemma write_cell_eq:
  assumes "row < length (chars w)" "col < length (chars w ! row)"
  shows "write_cell row col c w = (Ok (), w\<lparr>chars := (chars w)[row := (chars w ! row)[col := c]]\<rparr>)"
  using assms by (simp add: write_cell_def)

lemma clear_cells:
  assumes "row < length (chars w)" "n \<le> length (chars w ! row)"
  shows "for_each [0..<n] (\<lambda>col. write_cell row col c) w =
    (Ok (), w\<lparr>chars := (chars w)[row := replicate n c @ drop n (chars w ! row)]\<rparr>)"
  using assms(2)
proof (induction n)
  case (Suc n)
  let ?w = "w\<lparr>chars := (chars w)[row := replicate n c @ drop n (chars w ! row)]\<rparr>"
  have "(replicate n c @ drop n (chars w ! row))[n := c] = replicate (Suc n) c @ drop (Suc n) (chars w ! row)"
    using Suc.prems by (simp add: list_update_append Cons_nth_drop_Suc [symmetric] replicate_append_same [symmetric])
  then have "write_cell row n c ?w = (Ok (), w\<lparr>chars := (chars w)[row := replicate (Suc n) c @ drop (Suc n) (chars w ! row)]\<rparr>)"
    using assms(1) Suc.prems by (simp add: write_cell_def)
  then show ?case using Suc by (simp add: for_each_append)
qed simp

lemma copy_cells:
  assumes "0 < row" "row < length (chars w)" "n \<le> length (chars w ! row)" "length (chars w ! (row - 1)) = length (chars w ! row)"
  shows "for_each [0..<n] (\<lambda>col. try_bind (read_cell row col) (\<lambda>character. write_cell (row - 1) col character)) w =
    (Ok (), w\<lparr>chars := (chars w)[row - 1 := take n (chars w ! row) @ drop n (chars w ! (row - 1))]\<rparr>)"
  using assms(3)
proof (induction n)
  case (Suc n)
  let ?old = "chars w ! (row - 1)" and ?src = "chars w ! row"
  let ?w = "w\<lparr>chars := (chars w)[row - 1 := take n ?src @ drop n ?old]\<rparr>"
  have "(take n ?src @ drop n ?old)[n := ?src ! n] = take (Suc n) ?src @ drop (Suc n) ?old"
    using Suc.prems assms(4) by (simp add: list_update_append take_Suc_conv_app_nth Cons_nth_drop_Suc [symmetric])
  then have "try_bind (read_cell row n) (\<lambda>character. write_cell (row - 1) n character) ?w =
      (Ok (), w\<lparr>chars := (chars w)[row - 1 := take (Suc n) ?src @ drop (Suc n) ?old]\<rparr>)"
    using assms Suc.prems by (simp add: read_cell_def write_cell_def)
  then show ?case using Suc by (simp add: for_each_append)
qed simp

text \<open>After \<open>k\<close> rows have moved up, the first \<open>k\<close> rows are what was one row below.\<close>

lemma copy_rows:
  assumes "k < length (chars w)" "\<forall>row \<in> set (chars w). length row = BUFFER_WIDTH"
  shows "for_each [1..<Suc k] (\<lambda>row. for_each [0..<BUFFER_WIDTH] (\<lambda>col.
      try_bind (read_cell row col) (\<lambda>character. write_cell (row - 1) col character))) w =
    (Ok (), w\<lparr>chars := take k (tl (chars w)) @ drop k (chars w)\<rparr>)"
  using assms(1)
proof (induction k)
  case (Suc k)
  let ?rows = "take k (tl (chars w)) @ drop k (chars w)" and ?w = "w\<lparr>chars := take k (tl (chars w)) @ drop k (chars w)\<rparr>"
  have nth: "?rows ! Suc k = chars w ! Suc k" "?rows ! k = chars w ! k" "length ?rows = length (chars w)"
    using Suc.prems by (simp_all add: nth_append)
  have width: "length (chars w ! Suc k) = BUFFER_WIDTH" "length (chars w ! k) = BUFFER_WIDTH"
    using assms(2) Suc.prems by simp_all
  have "?rows[k := chars w ! Suc k] = take (Suc k) (tl (chars w)) @ drop (Suc k) (chars w)"
    using Suc.prems by (simp add: list_update_append take_Suc_conv_app_nth nth_tl Cons_nth_drop_Suc [symmetric])
  then have "for_each [0..<BUFFER_WIDTH] (\<lambda>col. try_bind (read_cell (Suc k) col) (\<lambda>character. write_cell (Suc k - 1) col character)) ?w
      = (Ok (), w\<lparr>chars := take (Suc k) (tl (chars w)) @ drop (Suc k) (chars w)\<rparr>)"
    using copy_cells [of "Suc k" ?w BUFFER_WIDTH] nth width Suc.prems by simp
  then show ?case using Suc by (simp add: for_each_append)
qed simp

lemma new_line_eq:
  assumes "writer_wf w"
  shows "new_line w = (Ok (), w\<lparr>chars := tl (chars w) @ [replicate BUFFER_WIDTH (blank (color_code w))], column_position := 0\<rparr>)"
proof -
  let ?rows = "take 24 (tl (chars w)) @ drop 24 (chars w)"
  have len: "length (chars w) = Suc 24" and width: "\<forall>row \<in> set (chars w). length row = BUFFER_WIDTH"
    using assms by (simp_all add: writer_wf_def BUFFER_HEIGHT_def)
  have up: "?rows = tl (chars w) @ [chars w ! 24]"
    using len by (simp add: Cons_nth_drop_Suc [symmetric])
  have "length (chars w ! 24) = BUFFER_WIDTH" using width len by simp
  then have "clear_row 24 (w\<lparr>chars := ?rows\<rparr>) =
      (Ok (), w\<lparr>chars := tl (chars w) @ [replicate BUFFER_WIDTH (blank (color_code w))]\<rparr>)"
    using clear_cells [of 24 "w\<lparr>chars := ?rows\<rparr>" BUFFER_WIDTH "blank (color_code w)"] len
    unfolding up by (simp add: clear_row_def list_update_append nth_append)
  then show ?thesis using copy_rows [OF _ width, of 24] len by (simp add: new_line_def BUFFER_HEIGHT_def)
qed

section \<open>The terminal\<close>

text \<open>
  What the writer shows: a terminal that keeps every row it ever had. The screen is its last 25
  rows. Bytes that are not printable appear as the block character \<open>0xfe\<close>.
\<close>

record terminal =
  t_rows :: "screen_char list list"
  t_column :: nat

definition term_new_line :: "color_code \<Rightarrow> terminal \<Rightarrow> terminal" where
  "term_new_line c t = \<lparr>t_rows = t_rows t @ [replicate 80 (blank c)], t_column = 0\<rparr>"

definition term_put :: "color_code \<Rightarrow> u8 \<Rightarrow> terminal \<Rightarrow> terminal" where
  "term_put c byte t0 =
     (let t = if t_column t0 = 80 then term_new_line c t0 else t0 in
      \<lparr>t_rows = butlast (t_rows t) @ [(last (t_rows t))[t_column t := \<lparr>ascii_character = byte, char_color = c\<rparr>]],
       t_column = Suc (t_column t)\<rparr>)"

definition term_byte :: "color_code \<Rightarrow> terminal \<Rightarrow> u8 \<Rightarrow> terminal" where
  "term_byte c t byte =
     (if byte = line_feed then term_new_line c t else term_put c (if is_printable byte then byte else 0xfe) t)"

definition displays :: "writer \<Rightarrow> terminal \<Rightarrow> bool" where
  "displays w t \<longleftrightarrow> writer_wf w \<and> 25 \<le> length (t_rows t) \<and> column_position w = t_column t
     \<and> chars w = drop (length (t_rows t) - 25) (t_rows t)"

lemmas buffer_size = BUFFER_HEIGHT_def BUFFER_WIDTH_def

lemma writer_wf_scrolled:
  assumes "writer_wf w"
  shows "writer_wf (w\<lparr>chars := tl (chars w) @ [replicate BUFFER_WIDTH b], column_position := 0\<rparr>)"
  using assms by (cases "chars w") (auto simp: writer_wf_def buffer_size)

lemma displays_new_line:
  assumes "displays w t"
  shows "\<exists>w'. new_line w = (Ok (), w') \<and> color_code w' = color_code w \<and> displays w' (term_new_line (color_code w) t)"
proof -
  let ?w = "w\<lparr>chars := tl (chars w) @ [replicate BUFFER_WIDTH (blank (color_code w))], column_position := 0\<rparr>"
  have wf: "writer_wf w" using assms by (simp add: displays_def)
  have "Suc (length (t_rows t)) - 25 = Suc (length (t_rows t) - 25)" using assms by (auto simp: displays_def)
  then have "tl (drop (length (t_rows t) - 25) (t_rows t)) = drop (Suc (length (t_rows t)) - 25) (t_rows t)"
    by (simp add: tl_drop drop_Suc)
  then have "displays ?w (term_new_line (color_code w) t)"
    using assms writer_wf_scrolled [OF wf] by (simp add: displays_def term_new_line_def buffer_size)
  then show ?thesis using new_line_eq [OF wf] by auto
qed

text \<open>A byte in a row that has room for it.\<close>

definition put_byte :: "u8 \<Rightarrow> (writer, infallible, unit) op" where
  "put_byte byte = (\<lambda>w.
     try_bind (write_cell (BUFFER_HEIGHT - 1) (column_position w)
         \<lparr>ascii_character = byte, char_color = color_code w\<rparr>) (\<lambda>_ w.
     try_bind (checked_add (column_position w) 1) (\<lambda>c w. (Ok (), w\<lparr>column_position := c\<rparr>)) w) w)"

lemma put_byte_eq:
  assumes "writer_wf w" "column_position w < 80"
  shows "put_byte byte w = (Ok (), w\<lparr>chars := (chars w)[24 := (chars w ! 24)[column_position w :=
      \<lparr>ascii_character = byte, char_color = color_code w\<rparr>]], column_position := Suc (column_position w)\<rparr>)"
proof -
  have "24 < length (chars w)" "length (chars w ! 24) = 80" using assms by (simp_all add: writer_wf_def buffer_size)
  moreover have "Suc (column_position w) < usize_limit" using assms(2) by (simp add: usize_limit_def)
  ultimately show ?thesis using assms(2) by (simp add: put_byte_def write_cell_eq buffer_size checked_add_def)
qed

lemma displays_put:
  assumes "displays w t" "t_column t < 80"
  shows "\<exists>w'. put_byte byte w = (Ok (), w') \<and> color_code w' = color_code w \<and> displays w' (term_put (color_code w) byte t)"
proof -
  let ?c = "\<lparr>ascii_character = byte, char_color = color_code w\<rparr>"
  let ?w = "w\<lparr>chars := (chars w)[24 := (chars w ! 24)[column_position w := ?c]], column_position := Suc (column_position w)\<rparr>"
  have wf: "writer_wf w" and col: "column_position w = t_column t" and len: "25 \<le> length (t_rows t)"
    and rows: "chars w = drop (length (t_rows t) - 25) (t_rows t)"
    using assms(1) by (simp_all add: displays_def)
  have "length (chars w) = 25" using wf by (simp add: writer_wf_def buffer_size)
  then have split: "chars w = butlast (chars w) @ [last (chars w)]" "length (butlast (chars w)) = 24"
    by (auto intro!: append_butlast_last_id [symmetric])
  have "last (chars w) = last (t_rows t)" "butlast (chars w) = drop (length (t_rows t) - 25) (butlast (t_rows t))"
    using rows len by (simp_all add: last_drop butlast_drop)
  then have "(chars w)[24 := (chars w ! 24)[column_position w := ?c]] =
      drop (length (t_rows t) - 25) (butlast (t_rows t)) @ [(last (t_rows t))[t_column t := ?c]]"
    using split col by (metis list_update_length nth_append_length)
  moreover have "\<forall>row \<in> set ((chars w)[24 := (chars w ! 24)[column_position w := ?c]]). length row = 80"
    using wf set_update_subset_insert [of "chars w" 24] by (fastforce simp: writer_wf_def buffer_size)
  ultimately have "displays ?w (term_put (color_code w) byte t)"
    using wf col len assms(2) by (auto simp: displays_def term_put_def writer_wf_def buffer_size)
  then show ?thesis using put_byte_eq [OF wf, of byte] assms(2) col by auto
qed

lemma displays_byte:
  assumes "displays w t"
  shows "\<exists>w'. (if is_printable b then write_byte b else write_byte 0xfe) w = (Ok (), w')
    \<and> color_code w' = color_code w \<and> displays w' (term_byte (color_code w) t b)"
proof (cases "b = line_feed")
  case True
  then show ?thesis using displays_new_line [OF assms] by (simp add: write_byte_def term_byte_def is_printable_def)
next
  case False
  let ?b = "if is_printable b then b else 0xfe"
  have nl: "?b \<noteq> line_feed" using False by (simp add: line_feed_def)
  have byte: "write_byte ?b w = try_bind (\<lambda>w. if column_position w \<ge> BUFFER_WIDTH then new_line w else (Ok (), w)) (\<lambda>_. put_byte ?b) w"
    using nl by (simp add: write_byte_def put_byte_def)
  have "\<exists>w'. write_byte ?b w = (Ok (), w') \<and> color_code w' = color_code w \<and> displays w' (term_byte (color_code w) t b)"
  proof (cases "column_position w < 80")
    case True
    then show ?thesis
      using displays_put [OF assms, of ?b] assms False byte by (auto simp: displays_def term_byte_def buffer_size)
  next
    case full: False
    then have col: "t_column t = 80" "column_position w \<ge> BUFFER_WIDTH"
      using assms by (auto simp: displays_def writer_wf_def buffer_size)
    obtain w1 where w1: "new_line w = (Ok (), w1)" "color_code w1 = color_code w" "displays w1 (term_new_line (color_code w) t)"
      using displays_new_line [OF assms] by blast
    have "term_put (color_code w) ?b (term_new_line (color_code w) t) = term_byte (color_code w) t b"
      using False col(1) by (simp add: term_byte_def term_put_def term_new_line_def)
    then show ?thesis
      using displays_put [OF w1(3), of ?b] w1 byte col(2) by (auto simp: term_new_line_def)
  qed
  then show ?thesis by (simp split: if_splits)
qed

lemma displays_string:
  assumes "displays w t"
  shows "\<exists>w'. write_string s w = (Ok (), w') \<and> color_code w' = color_code w
    \<and> displays w' (foldl (term_byte (color_code w)) t s)"
  using assms
proof (induction s arbitrary: w t)
  case (Cons b s)
  obtain w1 where w1: "(if is_printable b then write_byte b else write_byte 0xfe) w = (Ok (), w1)"
    "color_code w1 = color_code w" "displays w1 (term_byte (color_code w) t b)"
    using displays_byte [OF Cons.prems] by blast
  then show ?case using Cons.IH [OF w1(3)] w1 by (simp add: write_string_def)
qed (simp add: write_string_def)

text \<open>
  C13: printing never fails and never leaves the buffer. Whatever bytes are written, the screen goes
  on showing the last 25 rows of a terminal that receives those bytes in the current colour: text
  wraps after 80 columns, a line feed starts a new row and scrolls, and every byte outside the
  printable range is shown as a block.
\<close>

theorem write_string_correct:
  assumes "displays w t"
  shows "\<exists>w'. write_string s w = (Ok (), w') \<and> writer_wf w' \<and> color_code w' = color_code w
    \<and> displays w' (foldl (term_byte (color_code w)) t s)"
  using displays_string [OF assms, of s] by (auto simp: displays_def)

definition blank_screen :: "screen_char list list" where
  "blank_screen = replicate 25 (replicate 80 (blank 0))"

lemma displays_init: "displays (writer_init blank_screen) \<lparr>t_rows = blank_screen, t_column = 0\<rparr>"
  by (simp add: displays_def writer_wf_def writer_init_def blank_screen_def buffer_size)

theorem write_string_correct_witness:
  "\<exists>w'. write_string [72, 10, 200] (writer_init blank_screen) = (Ok (), w') \<and> writer_wf w'
    \<and> color_code w' = 0x0F \<and> column_position w' = 1 \<and> chars w' ! 24 ! 0 = \<lparr>ascii_character = 0xfe, char_color = 0x0F\<rparr>
    \<and> chars w' ! 23 ! 0 = \<lparr>ascii_character = 72, char_color = 0x0F\<rparr>"
proof -
  let ?t = "\<lparr>t_rows = blank_screen, t_column = 0\<rparr>"
  let ?t' = "foldl (term_byte 0x0F) ?t [72, 10, 200]"
  have c: "color_code (writer_init blank_screen) = 0x0F" by code_simp
  obtain w' where w': "write_string [72, 10, 200] (writer_init blank_screen) = (Ok (), w')" "writer_wf w'"
    "color_code w' = 0x0F" "displays w' ?t'"
    using write_string_correct [OF displays_init, of "[72, 10, 200]"] c by auto
  have "t_column ?t' = 1"
    "drop (length (t_rows ?t') - 25) (t_rows ?t') ! 24 ! 0 = \<lparr>ascii_character = 0xfe, char_color = 0x0F\<rparr>"
    "drop (length (t_rows ?t') - 25) (t_rows ?t') ! 23 ! 0 = \<lparr>ascii_character = 72, char_color = 0x0F\<rparr>"
    by code_simp+
  then show ?thesis using w' by (auto simp: displays_def)
qed

text \<open>
  \<open>with_color\<close> around text. The text appears in the given colour, and afterwards the writer has
  the colour it had before, so that such calls can be nested.
\<close>

lemma with_color_correct:
  assumes "displays w t"
  shows "\<exists>w'. with_color c (print text) w = (Ok (), w') \<and> color_code w' = color_code w
    \<and> displays w' (foldl (term_byte c) t (map of_char text))"
proof -
  have "displays (w\<lparr>color_code := c\<rparr>) t" using assms by (simp add: displays_def writer_wf_def buffer_size)
  then obtain w' where w': "print text (w\<lparr>color_code := c\<rparr>) = (Ok (), w')"
    "displays w' (foldl (term_byte c) t (map of_char text))"
    using displays_string [of "w\<lparr>color_code := c\<rparr>" t "map of_char text"] by (auto simp: print_def)
  then show ?thesis by (auto simp: with_color_def displays_def writer_wf_def)
qed

lemma color_nibbles:
  "color_code_new foreground background AND 0x0F = color_u8 foreground"
  "drop_bit 4 (color_code_new foreground background) = color_u8 background"
  by (cases foreground; cases background; simp add: color_code_new_def)+

section \<open>The CRT controller\<close>

text \<open>
  The controller as the VGA documentation has it: a byte written to the command port selects a
  register, and the data port writes and reads the selected one. The cursor's address is in the
  registers \<open>0x0E\<close> and \<open>0x0F\<close>; bit 5 of register \<open>0x0A\<close> hides it.
\<close>

record crtc =
  selected :: u8
  registers :: "u8 \<Rightarrow> u8"

definition crtc_out :: "crtc \<Rightarrow> u16 \<times> u8 \<Rightarrow> crtc" where
  "crtc_out d = (\<lambda>(port, value).
     if port = 0x3D4 then d\<lparr>selected := value\<rparr>
     else if port = 0x3D5 then d\<lparr>registers := (registers d)(selected d := value)\<rparr>
     else d)"

definition crtc_after :: "crtc \<Rightarrow> port_log \<Rightarrow> crtc" where
  "crtc_after = foldl crtc_out"

definition crtc_in :: "crtc \<Rightarrow> port_log \<Rightarrow> u8" where
  "crtc_in d log = registers (crtc_after d log) (selected (crtc_after d log))"

definition cursor_address :: "crtc \<Rightarrow> nat" where
  "cursor_address d = unat (registers d 0x0E) * 256 + unat (registers d 0x0F)"

definition cursor_hidden :: "crtc \<Rightarrow> bool" where
  "cursor_hidden d \<longleftrightarrow> bit (registers d 0x0A) 5"

lemmas crtc_simps = crtc_out_def crtc_after_def crtc_in_def VGA_CMD_PORT_def VGA_DATA_PORT_def out_def

lemma unat_u8: "unat (b :: u8) < 256"
  using unsigned_less [of b, where ?'a = nat] by simp

lemma bytes_of_u16:
  "unat (ucast (drop_bit 8 v AND 0xFF) :: u8) * 256 + unat (ucast (v AND 0xFF) :: u8) = unat (v :: u16)"
proof -
  have mask: "0xFF = (mask 8 :: u16)" by (simp add: mask_eq_exp_minus_1)
  have "unat v < 65536" using unsigned_less [of v, where ?'a = nat] by simp
  moreover have "unat (ucast (v AND 0xFF) :: u8) = unat v mod 256"
    by (simp add: mask unsigned_ucast_eq unat_mod_distrib take_bit_eq_mod flip: take_bit_eq_mask)
  moreover have "unat (ucast (drop_bit 8 v AND 0xFF) :: u8) = unat v div 256 mod 256"
    by (simp add: mask unsigned_ucast_eq unat_mod_distrib unat_div_distrib drop_bit_eq_div take_bit_eq_mod flip: take_bit_eq_mask)
  ultimately show ?thesis by simp
qed

lemma cursor_moves:
  "\<exists>log'. set_cursor_position x y log = (Ok (), log')
    \<and> cursor_address (crtc_after d log') = 80 * unat y + unat x
    \<and> (\<forall>r. r = 0x0E \<or> r = 0x0F \<or> registers (crtc_after d log') r = registers (crtc_after d log) r)"
proof -
  let ?v = "ucast y * of_nat BUFFER_WIDTH + ucast x :: u16"
  have "unat ?v = 80 * unat y + unat x"
    using unat_u8 [of x] unat_u8 [of y] by (simp add: unat_word_ariths buffer_size unsigned_ucast_eq take_bit_eq_mod)
  moreover have "cursor_offset x y log = (Ok ?v, log)"
    using unat_u8 [of x] unat_u8 [of y] by (simp add: cursor_offset_def buffer_size ret_def)
  ultimately show ?thesis
    using bytes_of_u16 [of ?v] by (simp add: set_cursor_position_def crtc_simps cursor_address_def)
qed

text \<open>
  \<open>set_cursor_position\<close> never overflows its 16-bit arithmetic, for any two bytes. It leaves the
  controller's cursor at the cell of row \<open>y\<close> and column \<open>x\<close>, and all its other registers as they
  were; the cursor stays as visible as it was.
\<close>

lemma set_cursor_position_correct:
  "\<exists>log'. set_cursor_position x y log = (Ok (), log')
    \<and> cursor_address (crtc_after d log') = 80 * unat y + unat x
    \<and> (cursor_hidden (crtc_after d log') \<longleftrightarrow> cursor_hidden (crtc_after d log))
    \<and> (\<forall>r. r = 0x0E \<or> r = 0x0F \<or> registers (crtc_after d log') r = registers (crtc_after d log) r)"
proof -
  obtain log' where "set_cursor_position x y log = (Ok (), log')"
    "cursor_address (crtc_after d log') = 80 * unat y + unat x"
    and kept: "\<forall>r. r = 0x0E \<or> r = 0x0F \<or> registers (crtc_after d log') r = registers (crtc_after d log) r"
    using cursor_moves by blast
  moreover have "(0x0A :: u8) \<noteq> 0x0E \<and> (0x0A :: u8) \<noteq> 0x0F" by simp
  then have "registers (crtc_after d log') 0x0A = registers (crtc_after d log) 0x0A" using kept by blast
  ultimately show ?thesis by (auto simp: cursor_hidden_def)
qed

text \<open>The cursor of the shell: shown with scan lines 13 to 15, and hidden again.\<close>

lemma enable_cursor_shows:
  "\<exists>log'. enable_cursor (crtc_in d) 13 15 log = (Ok (), log') \<and> \<not> cursor_hidden (crtc_after d log')"
  by (simp add: enable_cursor_def crtc_simps cursor_hidden_def Let_def bit_simps)

lemma disable_cursor_hides:
  "\<exists>log'. disable_cursor log = (Ok (), log') \<and> cursor_hidden (crtc_after d log')"
  by (simp add: disable_cursor_def crtc_simps cursor_hidden_def)

section \<open>Whole lines\<close>

text \<open>The screen when a line has ended: the bottom row is blank and the next character goes to its start.\<close>

definition fresh_line :: "writer \<Rightarrow> bool" where
  "fresh_line w \<longleftrightarrow> writer_wf w \<and> column_position w = 0
     \<and> map ascii_character (last (chars w)) = replicate 80 (of_char (CHR '' ''))"

lemma displays_self: "writer_wf w \<Longrightarrow> displays w \<lparr>t_rows = chars w, t_column = column_position w\<rparr>"
  by (simp add: displays_def writer_wf_def buffer_size)

lemma write_string_ok:
  assumes "writer_wf w"
  obtains w' where "write_string s w = (Ok (), w')" "writer_wf w'" "color_code w' = color_code w"
  using displays_string [OF displays_self [OF assms], of s] by (auto simp: displays_def)

lemma print_ok:
  assumes "writer_wf w"
  obtains w' where "print text w = (Ok (), w')" "writer_wf w'" "color_code w' = color_code w"
  using write_string_ok [OF assms, of "map of_char text"] by (auto simp: print_def)

lemma print_append: "print (a @ b) w = try_bind (print a) (\<lambda>_. print b) w"
  by (simp add: print_def write_string_def for_each_append)

lemma print_line_feed: "print [CHR 0x0A] w = new_line w"
  by (simp add: print_def write_string_def is_printable_def line_feed_def write_byte_def try_bind_unit del: ret_simp)

lemma println_eq: "println text w = try_bind (print text) (\<lambda>_. new_line) w"
  by (simp add: println_def print_append print_line_feed try_bind_def split: prod.split outcome.split)

lemma println_ok:
  assumes "writer_wf w"
  obtains w' where "println text w = (Ok (), w')" "fresh_line w'" "color_code w' = color_code w"
proof -
  obtain w1 where w1: "print text w = (Ok (), w1)" "writer_wf w1" "color_code w1 = color_code w"
    using print_ok [OF assms] by blast
  let ?w = "w1\<lparr>chars := tl (chars w1) @ [replicate BUFFER_WIDTH (blank (color_code w1))], column_position := 0\<rparr>"
  have "fresh_line ?w"
    using writer_wf_scrolled [OF w1(2)] by (simp add: fresh_line_def buffer_size blank_def)
  then show thesis using that [of ?w] w1 new_line_eq [OF w1(2)] by (simp add: println_eq)
qed

lemma with_color_ok:
  assumes "m (w\<lparr>color_code := c\<rparr>) = (Ok x, w')"
  shows "with_color c m w = (Ok x, w'\<lparr>color_code := color_code w\<rparr>)"
  using assms by (simp add: with_color_def)

end
