(* ===== verification/Shell_Parser.thy ===== *)
theory Shell_Parser
  imports Prelude
begin

text \<open>
  The tokenizer of the shell, \<open>shell/parser.rs\<close>. \<open>next\<close> scans the input from the parser's position
  with one loop over the remaining bytes and returns slices of the input that it makes with
  \<open>str::from_raw_parts\<close>. That function is unsafe: a slice that leaves the input is undefined
  behaviour in the source, and the panic \<open>OutOfBounds\<close> here.
\<close>

section \<open>The parser\<close>

record parser =
  p_input :: string
  p_position :: usize

definition double_quote :: char where
  "double_quote = CHR 0x22"

definition is_blank :: "char \<Rightarrow> bool" where
  "is_blank c \<longleftrightarrow> c = CHR '' '' \<or> c = CHR 0x09"

definition parser_new :: "string \<Rightarrow> ('e, parser) outcome" where
  "parser_new input = (if is_ascii input then Ok \<lparr>p_input = input, p_position = 0\<rparr> else Panic Assert)"

text \<open>\<open>str::from_raw_parts(self.input.as_ptr().add(start), self.position - start)\<close>.\<close>

definition raw_token :: "usize \<Rightarrow> (parser, 'e, string) op" where
  "raw_token start = (\<lambda>p.
     try_bind (checked_sub (p_position p) start) (\<lambda>len.
       if start + len \<le> length (p_input p) then ret (take len (drop start (p_input p)))
       else panic OutOfBounds) p)"

text \<open>\<open>self.position += 1\<close>.\<close>

definition bump :: "(parser, 'e, unit) op" where
  "bump = (\<lambda>p. try_bind (checked_add (p_position p) 1) (\<lambda>q p. (Ok (), p\<lparr>p_position := q\<rparr>)) p)"

text \<open>
  The loop of \<open>next\<close> over the bytes that remain, with its local variables \<open>start\<close> and
  \<open>parsing_string\<close>.
\<close>

fun next_loop :: "string \<Rightarrow> usize \<Rightarrow> bool \<Rightarrow> (parser, 'e, string option) op" where
  "next_loop [] start parsing_string = (\<lambda>p.
     if p_position p > start then try_bind (raw_token start) (\<lambda>t. ret (Some t)) p
     else (Ok None, p))"
| "next_loop (c # cs) start parsing_string = (\<lambda>p.
     if c = double_quote then
       if \<not> parsing_string then
         if p_position p > start then try_bind (raw_token start) (\<lambda>t. ret (Some t)) p
         else
           try_bind (checked_add start 1) (\<lambda>start'.
           try_bind bump (\<lambda>_.
           next_loop cs start' True)) p
       else
         try_bind (raw_token start) (\<lambda>t.
         try_bind bump (\<lambda>_.
         ret (Some t))) p
     else if is_blank c then
       if parsing_string then try_bind bump (\<lambda>_. next_loop cs start parsing_string) p
       else
         try_bind (raw_token start) (\<lambda>t.
         try_bind bump (\<lambda>_ p.
           if t \<noteq> [] then (Ok (Some t), p)
           else next_loop cs (p_position p) parsing_string p)) p
     else try_bind bump (\<lambda>_. next_loop cs start parsing_string) p)"

definition parser_next :: "(parser, 'e, string option) op" where
  "parser_next = (\<lambda>p.
     try_bind (slice (p_input p) (p_position p) (length (p_input p))) (\<lambda>rest.
     next_loop rest (p_position p) False) p)"

section \<open>Specification\<close>

text \<open>
  The first token of a string and what follows it, by spans: blanks are skipped; a quote opens a
  token that runs to the next quote, or to the end of the input if there is none and something
  follows it; any other token runs to the next blank or quote. A blank that ends a token is
  skipped with it.
\<close>

definition is_word_char :: "char \<Rightarrow> bool" where
  "is_word_char c \<longleftrightarrow> \<not> is_blank c \<and> c \<noteq> double_quote"

definition after_blank :: "string \<Rightarrow> string" where
  "after_blank s = (case s of [] \<Rightarrow> [] | c # cs \<Rightarrow> if is_blank c then cs else s)"

definition first_token :: "string \<Rightarrow> (string \<times> string) option" where
  "first_token s =
     (case dropWhile is_blank s of
        [] \<Rightarrow> None
      | c # cs \<Rightarrow>
          if c = double_quote then
            (case dropWhile (\<lambda>d. d \<noteq> double_quote) cs of
               [] \<Rightarrow> if cs = [] then None else Some (cs, [])
             | _ # rest \<Rightarrow> Some (takeWhile (\<lambda>d. d \<noteq> double_quote) cs, rest))
          else Some (takeWhile is_word_char (c # cs), after_blank (dropWhile is_word_char (c # cs))))"

lemma length_after_blank: "length (after_blank s) \<le> length s"
  by (simp add: after_blank_def split: list.split)

lemma first_token_shorter: "first_token s = Some (t, rest) \<Longrightarrow> length rest < length s"
proof -
  assume a: "first_token s = Some (t, rest)"
  obtain c cs where c: "dropWhile is_blank s = c # cs" using a by (auto simp: first_token_def split: list.splits)
  have le: "length (c # cs) \<le> length s" using length_dropWhile_le [of is_blank s] c by simp
  show ?thesis
  proof (cases "c = double_quote")
    case True
    then show ?thesis
      using a c le length_dropWhile_le [of "\<lambda>d. d \<noteq> double_quote" cs]
      by (auto simp: first_token_def split: list.splits if_splits)
  next
    case False
    have "\<not> is_blank c" using c hd_dropWhile [of is_blank s] by simp
    then have "is_word_char c" using False by (simp add: is_word_char_def)
    then show ?thesis
      using a c le False length_dropWhile_le [of is_word_char cs] length_after_blank [of "dropWhile is_word_char cs"]
      by (auto simp: first_token_def)
  qed
qed

lemma after_blank_split: "\<exists>b. s = b @ after_blank s"
  by (auto simp: after_blank_def split: list.split)

text \<open>A token is a part of the string, before what follows it.\<close>

lemma first_token_split:
  assumes "first_token s = Some (t, rest)"
  shows "\<exists>pre post. s = pre @ t @ post @ rest"
proof -
  obtain c cs where c: "dropWhile is_blank s = c # cs" using assms by (auto simp: first_token_def split: list.splits)
  have s: "s = takeWhile is_blank s @ c # cs" using takeWhile_dropWhile_id [of is_blank s] c by simp
  have "\<exists>pre post. c # cs = pre @ t @ post @ rest"
  proof (cases "c = double_quote")
    case True
    let ?in = "takeWhile (\<lambda>d. d \<noteq> double_quote) cs"
    show ?thesis
    proof (cases "dropWhile (\<lambda>d. d \<noteq> double_quote) cs")
      case Nil
      then have "t = cs" "rest = []"
        using assms True c by (auto simp: first_token_def split: if_splits simp del: dropWhile_eq_Nil_conv)
      then show ?thesis by (intro exI [of _ "[c]"] exI [of _ "[]"]) simp
    next
      case (Cons d ds)
      then have "t = ?in" "rest = ds" "cs = ?in @ d # ds"
        using assms True c takeWhile_dropWhile_id [of "\<lambda>d. d \<noteq> double_quote" cs] by (auto simp: first_token_def)
      then show ?thesis by (intro exI [of _ "[c]"] exI [of _ "[d]"]) simp
    qed
  next
    case False
    then have "t = takeWhile is_word_char (c # cs)" "rest = after_blank (dropWhile is_word_char (c # cs))"
      using assms c by (simp_all add: first_token_def)
    moreover obtain b where "dropWhile is_word_char (c # cs) = b @ after_blank (dropWhile is_word_char (c # cs))"
      using after_blank_split by blast
    ultimately have "c # cs = [] @ t @ b @ rest" using takeWhile_dropWhile_id [of is_word_char "c # cs"] by simp
    then show ?thesis by blast
  qed
  then obtain pre post where "c # cs = pre @ t @ post @ rest" by blast
  then have "s = (takeWhile is_blank s @ pre) @ t @ post @ rest" using s by simp
  then show ?thesis by blast
qed

function tokens :: "string \<Rightarrow> string list" where
  "tokens s = (case first_token s of None \<Rightarrow> [] | Some (t, rest) \<Rightarrow> t # tokens rest)"
  by auto
termination
  by (relation "measure length") (auto dest: first_token_shorter)

declare tokens.simps [simp del]

section \<open>The loop\<close>

definition parser_wf :: "parser \<Rightarrow> bool" where
  "parser_wf p \<longleftrightarrow> p_position p \<le> length (p_input p) \<and> length (p_input p) < usize_limit"

lemma bump_eq:
  assumes "parser_wf p" "p_position p < length (p_input p)"
  shows "bump p = (Ok (), p\<lparr>p_position := Suc (p_position p)\<rparr>)"
  using assms by (simp add: bump_def checked_add_def parser_wf_def)

lemma raw_token_eq:
  assumes "parser_wf p" "start \<le> p_position p"
  shows "raw_token start p = (Ok (take (p_position p - start) (drop start (p_input p))), p)"
  using assms by (simp add: raw_token_def checked_sub_def parser_wf_def)

text \<open>
  A position in the input: \<open>scanning p start w cs\<close> says that \<open>w\<close> is the part between \<open>start\<close> and
  the position and \<open>cs\<close> is what remains.
\<close>

definition scanning :: "parser \<Rightarrow> usize \<Rightarrow> string \<Rightarrow> string \<Rightarrow> bool" where
  "scanning p start w cs \<longleftrightarrow> parser_wf p \<and> start \<le> p_position p
     \<and> take (p_position p - start) (drop start (p_input p)) = w \<and> drop (p_position p) (p_input p) = cs"

lemma scanning_token:
  assumes "scanning p start w cs"
  shows "raw_token start p = (Ok w, p)" "p_position p = start + length w"
    "length (p_input p) = p_position p + length cs"
  using assms raw_token_eq [of p start] by (auto simp: scanning_def parser_wf_def)

lemma scanning_bump:
  assumes "scanning p start w (c # cs)"
  shows "bump p = (Ok (), p\<lparr>p_position := Suc (p_position p)\<rparr>)"
    "scanning (p\<lparr>p_position := Suc (p_position p)\<rparr>) start (w @ [c]) cs"
    "scanning (p\<lparr>p_position := Suc (p_position p)\<rparr>) (Suc (p_position p)) [] cs"
proof -
  have len: "p_position p < length (p_input p)" using scanning_token(3) [OF assms] by simp
  have wf: "parser_wf p" "start \<le> p_position p" "drop (p_position p) (p_input p) = c # cs"
    using assms by (simp_all add: scanning_def)
  show "bump p = (Ok (), p\<lparr>p_position := Suc (p_position p)\<rparr>)" using bump_eq [OF wf(1) len] .
  have cs: "drop (Suc (p_position p)) (p_input p) = cs" and c: "p_input p ! p_position p = c"
    using wf(3) len by (simp_all add: drop_Suc nth_via_drop flip: tl_drop)
  have "take (Suc (p_position p) - start) (drop start (p_input p)) = w @ [c]"
    using assms wf(2) len c by (simp add: scanning_def Suc_diff_le take_Suc_conv_app_nth)
  then show "scanning (p\<lparr>p_position := Suc (p_position p)\<rparr>) start (w @ [c]) cs"
    using wf len cs by (simp add: scanning_def parser_wf_def)
  show "scanning (p\<lparr>p_position := Suc (p_position p)\<rparr>) (Suc (p_position p)) [] cs"
    using wf len cs by (simp add: scanning_def parser_wf_def)
qed

lemma position_same: "p_position p = n \<Longrightarrow> p\<lparr>p_position := n\<rparr> = p"
  by (cases p) simp

text \<open>The scan of a word, of a quoted string, and of the blanks before a token.\<close>

lemma scan_word:
  assumes "scanning p start w cs" "w \<noteq> []"
  shows "next_loop cs start False p =
    (Ok (Some (w @ takeWhile is_word_char cs)),
     p\<lparr>p_position := length (p_input p) - length (after_blank (dropWhile is_word_char cs))\<rparr>)"
  using assms
proof (induction cs arbitrary: p w)
  case Nil
  note tok = scanning_token [OF Nil.prems(1)]
  show ?case using Nil.prems(2) tok(2,3) by (simp add: tok(1) after_blank_def position_same)
next
  case (Cons c cs)
  note tok = scanning_token [OF Cons.prems(1)] and b = scanning_bump [OF Cons.prems(1)]
  consider "c = double_quote" | "is_blank c" "c \<noteq> double_quote" | "is_word_char c" "c \<noteq> double_quote" "\<not> is_blank c"
    by (auto simp: is_word_char_def)
  then show ?case
  proof cases
    case 1
    then have "\<not> is_word_char c" "\<not> is_blank c" by (simp_all add: is_word_char_def is_blank_def double_quote_def)
    then show ?thesis
      using 1 tok(2,3) Cons.prems(2) by (simp add: tok(1) after_blank_def position_same)
  next
    case 2
    then show ?thesis using tok(2,3) Cons.prems(2) by (simp add: tok(1) b(1) is_word_char_def after_blank_def)
  next
    case 3
    then show ?thesis using tok(3) by (simp add: Cons.IH [OF b(2)] b(1))
  qed
qed

lemma scan_string:
  assumes "scanning p start w cs"
  shows "next_loop cs start True p =
    (case dropWhile (\<lambda>d. d \<noteq> double_quote) cs of
       [] \<Rightarrow> (Ok (if w @ cs = [] then None else Some (w @ cs)), p\<lparr>p_position := length (p_input p)\<rparr>)
     | _ # rest \<Rightarrow> (Ok (Some (w @ takeWhile (\<lambda>d. d \<noteq> double_quote) cs)),
         p\<lparr>p_position := length (p_input p) - length rest\<rparr>))"
  using assms
proof (induction cs arbitrary: p w)
  case Nil
  note tok = scanning_token [OF Nil.prems]
  show ?case using tok(2,3) by (simp add: tok(1) position_same)
next
  case (Cons c cs)
  note tok = scanning_token [OF Cons.prems] and b = scanning_bump [OF Cons.prems]
  show ?case
  proof (cases "c = double_quote")
    case True
    then show ?thesis using tok(2,3) by (simp add: tok(1) b(1))
  next
    case False
    then show ?thesis
      by (cases "dropWhile (\<lambda>d. d \<noteq> double_quote) cs") (simp_all add: Cons.IH [OF b(2)] b(1) del: dropWhile_eq_Nil_conv)
  qed
qed

lemma scan_blanks:
  assumes "scanning p (p_position p) [] cs"
  shows "next_loop cs (p_position p) False p =
    (Ok (map_option fst (first_token cs)),
     p\<lparr>p_position := length (p_input p) - (case first_token cs of None \<Rightarrow> 0 | Some (t, rest) \<Rightarrow> length rest)\<rparr>)"
  using assms
proof (induction cs arbitrary: p)
  case Nil
  then show ?case using scanning_token(3) [OF Nil.prems] by (simp add: first_token_def position_same)
next
  case (Cons c cs)
  note tok = scanning_token [OF Cons.prems] and b = scanning_bump [OF Cons.prems]
  consider "c = double_quote" | "is_blank c" "c \<noteq> double_quote" | "is_word_char c" "c \<noteq> double_quote" "\<not> is_blank c"
    by (auto simp: is_word_char_def)
  then show ?case
  proof cases
    case 1
    then have nb: "\<not> is_blank c" by (simp add: is_blank_def double_quote_def)
    have "Suc (p_position p) < usize_limit" using tok(3) Cons.prems by (simp add: scanning_def parser_wf_def)
    then show ?thesis
      using 1 nb
      by (cases "dropWhile (\<lambda>d. d \<noteq> double_quote) cs")
        (simp_all add: checked_add_def b(1) scan_string [OF b(3)] first_token_def del: dropWhile_eq_Nil_conv next_loop.simps(1))
  next
    case 2
    then have "first_token (c # cs) = first_token cs" by (simp add: first_token_def)
    then show ?thesis
      using 2 b(3) Cons.IH [of "p\<lparr>p_position := Suc (p_position p)\<rparr>"] by (simp add: tok(1) b(1))
  next
    case 3
    then show ?thesis using b(2) by (simp add: b(1) scan_word [OF b(2)] first_token_def)
  qed
qed

text \<open>
  \<open>next\<close> returns the first token of what remains and leaves the parser behind it; in particular
  it never panics and its slices never leave the input.
\<close>

lemma parser_next_eq:
  assumes "parser_wf p"
  defines "cs \<equiv> drop (p_position p) (p_input p)"
  shows "parser_next p =
    (Ok (map_option fst (first_token cs)),
     p\<lparr>p_position := length (p_input p) - (case first_token cs of None \<Rightarrow> 0 | Some (t, rest) \<Rightarrow> length rest)\<rparr>)"
proof -
  have "scanning p (p_position p) [] cs" using assms by (simp add: scanning_def)
  then show ?thesis
    using assms by (simp add: parser_next_def slice_def parser_wf_def scan_blanks cs_def)
qed

section \<open>All tokens\<close>

lemma raw_token_state: "raw_token start p = (Ok t, p') \<Longrightarrow> p' = p"
  by (auto simp: raw_token_def checked_sub_def split: if_splits elim!: try_bind_OkE)

lemma bump_state: "bump p = (Ok u, p') \<Longrightarrow> p' = p\<lparr>p_position := Suc (p_position p)\<rparr>"
  by (auto simp: bump_def checked_add_def split: if_splits elim!: try_bind_OkE)

lemma next_loop_progress:
  assumes "next_loop cs start ps p = (Ok (Some t), p')" "start \<le> p_position p"
  shows "p_input p' = p_input p \<and> start < p_position p' \<and> (cs \<noteq> [] \<or> start < p_position p)"
  using assms
proof (induction cs arbitrary: start ps p)
  case Nil
  then show ?case by (auto split: if_splits elim!: try_bind_OkE dest!: raw_token_state)
next
  case (Cons c cs)
  from Cons.prems Cons.IH show ?case
    by (fastforce simp: checked_add_def split: if_splits elim!: try_bind_OkE dest!: raw_token_state bump_state)
qed

lemma parser_next_progress:
  fixes t :: string
  assumes "parser_next p = (Ok (Some t) :: ('e, string option) outcome, p')"
  shows "p_input p' = p_input p" "p_position p < p_position p'" "p_position p < length (p_input p)"
proof -
  have "next_loop (drop (p_position p) (p_input p)) (p_position p) False p = (Ok (Some t) :: ('e, string option) outcome, p')"
    using assms by (auto simp: parser_next_def slice_def split: if_splits elim!: try_bind_OkE)
  then show "p_input p' = p_input p" "p_position p < p_position p'" "p_position p < length (p_input p)"
    using next_loop_progress [of _ "p_position p" False p t p'] by force+
qed

lemma parser_next_measure:
  assumes "parser_next p = (Ok (Some t) :: ('e, string option) outcome, p')"
  shows "length (p_input p') - p_position p' < length (p_input p) - p_position p"
  using parser_next_progress [OF assms] by simp

text \<open>
  The \<open>for\<close> loop over the parser in \<open>parse_and_execute\<close>. It ends because every token moves the
  position.
\<close>

function collect_tokens :: "(parser, 'e, string list) op" where
  "collect_tokens p =
     (case (parser_next :: (parser, 'e, string option) op) p of
        (Ok (Some t), p') \<Rightarrow>
          (case collect_tokens p' of
             (Ok ts, p'') \<Rightarrow> (Ok (t # ts), p'')
           | (Err e, p'') \<Rightarrow> (Err e, p'')
           | (Panic q, p'') \<Rightarrow> (Panic q, p''))
      | (Ok None, p') \<Rightarrow> (Ok [], p')
      | (Err e, p') \<Rightarrow> (Err e, p')
      | (Panic q, p') \<Rightarrow> (Panic q, p'))"
  by auto
termination
  by (relation "measure (\<lambda>p. length (p_input p) - p_position p)")
    (auto dest: parser_next_measure [OF sym])

declare collect_tokens.simps [simp del]

lemma collect_tokens_eq:
  assumes "parser_wf p"
  shows "collect_tokens p =
    (Ok (tokens (drop (p_position p) (p_input p))) :: ('e, string list) outcome, p\<lparr>p_position := length (p_input p)\<rparr>)"
  using assms
proof (induction "length (p_input p) - p_position p" arbitrary: p rule: less_induct)
  case less
  let ?cs = "drop (p_position p) (p_input p)"
  note step = parser_next_eq [OF less.prems]
  show ?case
  proof (cases "first_token ?cs")
    case None
    then show ?thesis by (simp add: collect_tokens.simps [of p] step tokens.simps [of ?cs])
  next
    case (Some tr)
    obtain t rest where tr: "tr = (t, rest)" by (cases tr)
    let ?p = "p\<lparr>p_position := length (p_input p) - length rest\<rparr>"
    have "length rest < length ?cs" using first_token_shorter Some tr by blast
    moreover have "drop (length (p_input p) - length rest) (p_input p) = rest"
      using first_token_split [OF Some [unfolded tr]] append_take_drop_id [of "p_position p" "p_input p"]
      by (metis append.assoc append_eq_conv_conj length_append diff_add_inverse2)
    ultimately have "collect_tokens ?p = (Ok (tokens rest) :: ('e, string list) outcome, p\<lparr>p_position := length (p_input p)\<rparr>)"
      using less.hyps [of ?p] less.prems by (simp add: parser_wf_def)
    then show ?thesis using Some tr by (simp add: collect_tokens.simps [of p] step tokens.simps [of ?cs])
  qed
qed

section \<open>Properties\<close>

text \<open>
  \<open>next\<close> is safe and makes progress. From a position in the input it never panics, it stays in
  the input, a token it returns is a slice of the input that starts at or after the old position
  and ends at or before the new one, which is further on; and when there is no token the input is
  used up.
\<close>

lemma parser_next_safe:
  assumes wf: "parser_wf p"
  shows "\<exists>r p'. parser_next p = (Ok r, p') \<and> parser_wf p' \<and> p_input p' = p_input p
    \<and> (case r of
         None \<Rightarrow> p_position p' = length (p_input p)
       | Some t \<Rightarrow> p_position p < p_position p'
           \<and> (\<exists>i. p_position p \<le> i \<and> i + length t \<le> p_position p' \<and> t = take (length t) (drop i (p_input p))))"
proof (cases "first_token (drop (p_position p) (p_input p))")
  case None
  then show ?thesis using wf by (simp add: parser_next_eq [OF wf] parser_wf_def)
next
  case (Some tr)
  obtain t rest where tr: "tr = (t, rest)" by (cases tr)
  obtain pre post where split: "drop (p_position p) (p_input p) = pre @ t @ post @ rest"
    using first_token_split [OF Some [unfolded tr]] by blast
  let ?i = "p_position p + length pre"
  have len: "length (p_input p) = p_position p + length pre + length t + length post + length rest"
    using arg_cong [OF split, of length] wf by (auto simp: parser_wf_def)
  have "drop ?i (p_input p) = t @ post @ rest"
    using arg_cong [OF split, of "drop (length pre)"] by (simp add: add.commute)
  then have "t = take (length t) (drop ?i (p_input p))" by simp
  moreover have "length rest < length (drop (p_position p) (p_input p))"
    using first_token_shorter [OF Some [unfolded tr]] .
  ultimately show ?thesis
    using Some tr wf len by (auto simp: parser_next_eq [OF wf] parser_wf_def intro!: exI [of _ ?i])
qed

text \<open>
  C18: splitting a command line gives the tokens of its specification by spans, for every ASCII line
  that fits the address space.
\<close>

theorem collect_tokens_correct:
  assumes "is_ascii line" "length line < usize_limit"
  shows "\<exists>p p'. parser_new line = Ok p \<and> collect_tokens p = (Ok (tokens line), p')"
proof -
  have "parser_wf \<lparr>p_input = line, p_position = 0\<rparr>" using assms by (simp add: parser_wf_def)
  then show ?thesis using assms(1) by (simp add: parser_new_def collect_tokens_eq)
qed

theorem collect_tokens_correct_witness:
  "\<exists>p p'. parser_new ''ls  /dev'' = Ok p \<and> collect_tokens p = (Ok [''ls'', ''/dev''], p')"
proof -
  have h: "is_ascii ''ls  /dev''" "length ''ls  /dev'' < usize_limit" "tokens ''ls  /dev'' = [''ls'', ''/dev'']"
    by code_simp+
  show ?thesis using collect_tokens_correct [OF h(1,2)] h(3) by simp
qed

text \<open>How to write an argument: a plain word as it is, anything else in quotes.\<close>

definition render :: "string \<Rightarrow> string" where
  "render a = (if a \<noteq> [] \<and> list_all is_word_char a then a else double_quote # a @ [double_quote])"

lemma tokens_blank: "is_blank c \<Longrightarrow> tokens (c # s) = tokens s"
  by (simp add: tokens.simps [of "c # s"] tokens.simps [of s] first_token_def)

lemma tokens_word:
  assumes "a \<noteq> []" "list_all is_word_char a" "s = [] \<or> is_blank (hd s)"
  shows "tokens (a @ s) = a # tokens s"
proof -
  obtain c cs where a: "a = c # cs" using assms(1) by (cases a) auto
  have c: "is_word_char c" "\<not> is_blank c" "c \<noteq> double_quote" using assms(2) a by (simp_all add: is_word_char_def)
  have nw: "s = [] \<or> \<not> is_word_char (hd s)" using assms(3) by (auto simp: is_word_char_def)
  have span: "takeWhile is_word_char (a @ s) = a" "dropWhile is_word_char (a @ s) = s"
    using assms(2) nw by (cases s; simp add: list_all_iff takeWhile_append dropWhile_append)+
  have "first_token (a @ s) = Some (a, after_blank s)" using c span by (simp add: first_token_def a)
  moreover have "tokens (after_blank s) = tokens s" using assms(3) by (cases s) (auto simp: after_blank_def tokens_blank)
  ultimately show ?thesis by (simp add: tokens.simps [of "a @ s"])
qed

lemma tokens_quoted:
  assumes "double_quote \<notin> set a"
  shows "tokens (double_quote # a @ double_quote # s) = a # tokens s"
proof -
  have "takeWhile (\<lambda>d. d \<noteq> double_quote) (a @ double_quote # s) = a"
    "dropWhile (\<lambda>d. d \<noteq> double_quote) (a @ double_quote # s) = double_quote # s"
    using assms by (auto simp: takeWhile_append dropWhile_append)
  then have "first_token (double_quote # a @ double_quote # s) = Some (a, s)"
    by (simp add: first_token_def is_blank_def double_quote_def)
  then show ?thesis by (simp add: tokens.simps [of "double_quote # a @ double_quote # s"])
qed

lemma tokens_render:
  assumes "double_quote \<notin> set a" "s = [] \<or> is_blank (hd s)"
  shows "tokens (render a @ s) = a # tokens s"
  using tokens_word [of a s] tokens_quoted [OF assms(1), of s] assms(2) by (simp add: render_def)

lemma tokens_rendered:
  "\<forall>a \<in> set args. double_quote \<notin> set a \<Longrightarrow> tokens (join_with (CHR '' '') (map render args)) = args"
proof (induction args rule: induct_list012)
  case 1
  then show ?case by (simp add: tokens.simps first_token_def)
next
  case (2 a)
  then show ?case using tokens_render [of a "[]"] by (simp add: tokens.simps [of "[]"] first_token_def)
next
  case (3 a b args)
  have "is_blank (CHR '' '')" by (simp add: is_blank_def)
  then show ?case using 3 tokens_render [of a] by (simp add: tokens_blank)
qed

text \<open>
  Every list of arguments without quotes can be given to a command: written with quotes where
  they are needed and a blank in between, the shell splits it into the same arguments.
\<close>

lemma arguments_round_trip:
  assumes "\<forall>a \<in> set args. double_quote \<notin> set a"
    and "is_ascii (join_with (CHR '' '') (map render args))" "length (join_with (CHR '' '') (map render args)) < usize_limit"
  shows "\<exists>p p'. parser_new (join_with (CHR '' '') (map render args)) = Ok p \<and> collect_tokens p = (Ok args, p')"
proof -
  let ?line = "join_with (CHR '' '') (map render args)"
  have "parser_wf \<lparr>p_input = ?line, p_position = 0\<rparr>" using assms(3) by (simp add: parser_wf_def)
  then show ?thesis
    using assms(2) by (simp add: parser_new_def collect_tokens_eq tokens_rendered [OF assms(1)])
qed

end
