(* ===== verification/Shell.thy ===== *)
theory Shell
  imports Vfs Vga Shell_Parser
begin

text \<open>
  The commands of the shell, \<open>shell/mod.rs\<close>: what a line of input makes the kernel do, on the
  screen, the ports of the CRT controller and the virtual file system. The commands never await
  anything, so each is one operation.
\<close>

section \<open>The kernel's state\<close>

text \<open>The statics that a command works on: \<open>WRITER\<close>, the CRT controller's ports, the VFS.\<close>

record kernel =
  screen :: writer
  ports :: port_log
  vfs_state :: vfs

type_synonym 'a kernel_op = "(kernel, infallible, 'a) op"

definition on_screen :: "(writer, infallible, 'a) op \<Rightarrow> 'a kernel_op" where
  "on_screen m = (\<lambda>k. case m (screen k) of (r, w) \<Rightarrow> (r, k\<lparr>screen := w\<rparr>))"

definition on_ports :: "(port_log, infallible, 'a) op \<Rightarrow> 'a kernel_op" where
  "on_ports m = (\<lambda>k. case m (ports k) of (r, l) \<Rightarrow> (r, k\<lparr>ports := l\<rparr>))"

text \<open>A call of the VFS: its \<open>Result\<close> is a value that the command matches on or unwraps.\<close>

definition on_vfs :: "'a vfs_op \<Rightarrow> (io_error + 'a) kernel_op" where
  "on_vfs m = (\<lambda>k. case m (vfs_state k) of
      (Ok x, s) \<Rightarrow> (Ok (Inr x), k\<lparr>vfs_state := s\<rparr>)
    | (Err e, s) \<Rightarrow> (Ok (Inl e), k\<lparr>vfs_state := s\<rparr>)
    | (Panic p, s) \<Rightarrow> (Panic p, k\<lparr>vfs_state := s\<rparr>))"

definition unwrap_result :: "'e + 'a \<Rightarrow> ('s, 'f, 'a) op" where
  "unwrap_result r = (case r of Inl e \<Rightarrow> panic Unwrap | Inr x \<Rightarrow> ret x)"

text \<open>The end of the scope of an entry that the VFS returned.\<close>

definition drop_entry :: "dref \<Rightarrow> unit kernel_op" where
  "drop_entry d = (\<lambda>k. (Ok (), k\<lparr>vfs_state := drop_handle d (vfs_state k)\<rparr>))"

section \<open>Formatting\<close>

text \<open>\<open>Display\<close> of an unsigned integer, and \<open>{:>n}\<close>.\<close>

fun decimal :: "nat \<Rightarrow> string" where
  "decimal n = (if n < 10 then [char_of (48 + n)] else decimal (n div 10) @ [char_of (48 + n mod 10)])"

declare decimal.simps [simp del]

definition pad_left :: "nat \<Rightarrow> string \<Rightarrow> string" where
  "pad_left n s = replicate (n - length s) (CHR '' '') @ s"

text \<open>
  A Rust \<open>char\<close> is a code point; its UTF-8 encoding, and the text of a list of them.
\<close>

type_synonym code_point = nat

definition encode_utf8 :: "code_point \<Rightarrow> string" where
  "encode_utf8 c =
     (if c < 0x80 then [char_of c]
      else if c < 0x800 then [char_of (0xC0 + c div 64), char_of (0x80 + c mod 64)]
      else if c < 0x10000 then
        [char_of (0xE0 + c div 4096), char_of (0x80 + c div 64 mod 64), char_of (0x80 + c mod 64)]
      else
        [char_of (0xF0 + c div 262144), char_of (0x80 + c div 4096 mod 64),
         char_of (0x80 + c div 64 mod 64), char_of (0x80 + c mod 64)])"

definition utf8 :: "code_point list \<Rightarrow> string" where
  "utf8 cs = concat (map encode_utf8 cs)"

text \<open>
  \<open>{:?}\<close> of a string. Which characters outside ASCII are printed as they are is a matter of the
  Unicode tables of the standard library, \<open>escape_unicode\<close>.
\<close>

definition hex_digit :: "nat \<Rightarrow> char" where
  "hex_digit n = char_of (if n < 10 then 48 + n else 87 + n)"

definition escape_ascii :: "nat \<Rightarrow> string" where
  "escape_ascii c =
     (if c = 0 then [CHR 0x5C, CHR ''0'']
      else if c = 9 then [CHR 0x5C, CHR ''t'']
      else if c = 10 then [CHR 0x5C, CHR ''n'']
      else if c = 13 then [CHR 0x5C, CHR ''r'']
      else if c = 34 \<or> c = 92 then [CHR 0x5C, char_of c]
      else if c < 16 then [CHR 0x5C] @ ''u{'' @ [hex_digit c] @ ''}''
      else if c < 32 \<or> c = 127 then [CHR 0x5C] @ ''u{'' @ [hex_digit (c div 16), hex_digit (c mod 16)] @ ''}''
      else [char_of c])"

definition debug_str :: "(code_point \<Rightarrow> string) \<Rightarrow> code_point list \<Rightarrow> string" where
  "debug_str escape_unicode cs =
     [double_quote] @ concat (map (\<lambda>c. if c < 128 then escape_ascii c else escape_unicode c) cs) @ [double_quote]"

text \<open>\<open>{:?}\<close> of a \<open>VecDeque\<close> of ASCII strings.\<close>

definition debug_args :: "string list \<Rightarrow> string" where
  "debug_args args =
     ''['' @ concat (case args of [] \<Rightarrow> [] | a # rest \<Rightarrow>
       debug_str encode_utf8 (map of_char a) # map (\<lambda>b. '', '' @ debug_str encode_utf8 (map of_char b)) rest) @ '']''"

text \<open>
  \<open>String::from_utf8_lossy\<close>: every maximal prefix of an ill-formed sequence becomes one
  replacement character, U+FFFD.
\<close>

definition is_continuation :: "nat \<Rightarrow> bool" where
  "is_continuation b \<longleftrightarrow> 0x80 \<le> b \<and> b < 0xC0"

definition second_byte_ok :: "nat \<Rightarrow> nat \<Rightarrow> bool" where
  "second_byte_ok a b \<longleftrightarrow>
     (if a = 0xE0 then 0xA0 \<le> b \<and> b < 0xC0
      else if a = 0xED then 0x80 \<le> b \<and> b < 0xA0
      else if a = 0xF0 then 0x90 \<le> b \<and> b < 0xC0
      else if a = 0xF4 then 0x80 \<le> b \<and> b < 0x90
      else is_continuation b)"

definition utf8_width :: "nat \<Rightarrow> nat" where
  "utf8_width a =
     (if a < 0x80 then 1 else if 0xC2 \<le> a \<and> a < 0xE0 then 2
      else if 0xE0 \<le> a \<and> a < 0xF0 then 3 else if 0xF0 \<le> a \<and> a < 0xF5 then 4 else 0)"

text \<open>How many bytes of the sequence that starts with \<open>a\<close> are well-formed, and whether it is complete.\<close>

definition utf8_sequence :: "nat \<Rightarrow> nat list \<Rightarrow> nat \<times> bool" where
  "utf8_sequence a bs =
     (let follow = (case bs of [] \<Rightarrow> [] | b # rest \<Rightarrow>
            if second_byte_ok a b then b # takeWhile is_continuation rest else []);
          n = Suc (min (length follow) (utf8_width a - 1))
      in if utf8_width a = 0 then (1, False) else (n, n = utf8_width a))"

lemma utf8_sequence_pos: "utf8_sequence a bs = (n, ok) \<Longrightarrow> 0 < n"
  by (auto simp: utf8_sequence_def Let_def split: if_splits)

function lossy :: "nat list \<Rightarrow> nat list" where
  "lossy [] = []"
| "lossy (a # bs) =
     (case utf8_sequence a bs of (n, ok) \<Rightarrow>
        (if ok then take n (a # bs) else [0xEF, 0xBF, 0xBD]) @ lossy (drop n (a # bs)))"
  by pat_completeness auto
termination
  by (relation "measure length") (auto dest: utf8_sequence_pos [OF sym])

definition from_utf8_lossy :: "u8 list \<Rightarrow> string" where
  "from_utf8_lossy data = map char_of (lossy (map unat data))"

section \<open>Options\<close>

definition starts_with :: "string \<Rightarrow> string \<Rightarrow> bool" where
  "starts_with prefix s \<longleftrightarrow> take (length prefix) s = prefix"

fun has_boolean_option :: "string list \<Rightarrow> char \<Rightarrow> ('s, infallible, bool) op" where
  "has_boolean_option [] flag = ret False"
| "has_boolean_option (arg # args) flag =
     (if \<not> starts_with ''-'' arg then has_boolean_option args flag
      else if starts_with ''--'' arg then panic Todo
      else if flag \<in> set (drop 1 arg) then ret True
      else has_boolean_option args flag)"

definition without_flags :: "string list \<Rightarrow> string list" where
  "without_flags args = filter (\<lambda>a. \<not> starts_with ''-'' a) args"

section \<open>Commands\<close>

definition get_prompt :: string where
  "get_prompt = ''root@riptide> ''"

definition print_prompt :: "unit kernel_op" where
  "print_prompt =
     try_bind (on_screen (print get_prompt)) (\<lambda>_.
     on_ports (set_cursor_position (of_nat (length get_prompt)) (of_nat BUFFER_HEIGHT - 1)))"

definition echo :: "string list \<Rightarrow> unit kernel_op" where
  "echo args =
     try_bind (for_each (enumerate 0 args) (\<lambda>(i, arg).
       try_bind (on_screen (print arg)) (\<lambda>_.
       try_bind (checked_sub (length args) 1) (\<lambda>last.
       if i < last then on_screen (print '' '') else ret ())))) (\<lambda>_.
     on_screen (println []))"

definition CARGO_PKG_VERSION :: string where
  "CARGO_PKG_VERSION = ''0.1.0''"

definition uname :: "string list \<Rightarrow> unit kernel_op" where
  "uname args =
     try_bind (on_screen (print ''Riptide'')) (\<lambda>_.
     try_bind (case args of
         a # _ \<Rightarrow> if a = ''-a'' then on_screen (print ('' riptide '' @ CARGO_PKG_VERSION @ '' x86_64'')) else ret ()
       | [] \<Rightarrow> ret ()) (\<lambda>_.
     on_screen (println [])))"

fun kind_color_code :: "fs_node_kind \<Rightarrow> color_code" where
  "kind_color_code Directory = color_into_code LightBlue"
| "kind_color_code File = color_into_code White"
| "kind_color_code CharDevice = color_into_code Yellow"
| "kind_color_code BlockDevice = color_into_code LightCyan"

definition format_entry_short :: "bool \<Rightarrow> directory_iteration_entry \<Rightarrow> unit kernel_op" where
  "format_entry_short show_node_ids e =
     try_bind (if show_node_ids then on_screen (print (decimal (unat (di_id e)) @ '' '')) else ret ()) (\<lambda>_.
     on_screen (with_color (kind_color_code (di_kind e)) (println (di_name e))))"

definition format_entry_long :: "bool \<Rightarrow> dref \<Rightarrow> unit kernel_op" where
  "format_entry_long show_node_ids d = (\<lambda>k.
     let n = entry_node (vfs_state k) d; name = de_name (entry (vfs_state k) d) in
     try_bind (if show_node_ids then on_screen (print (decimal (unat (node_id n)) @ '' '')) else ret ()) (\<lambda>_.
     on_screen (println (kind_display (kind n) @ ''rw-r--r--@ 1 root root ''
       @ pad_left 3 (decimal (msize (metadata n))) @ '' ''
       @ pad_left 2 (decimal (unat (modified_at (metadata n)))) @ '' '' @ name))) k)"

definition list_child :: "bool \<Rightarrow> bool \<Rightarrow> dref \<Rightarrow> directory_iteration_entry \<Rightarrow> unit kernel_op" where
  "list_child long show_node_ids e child = (\<lambda>k.
     if long then
       let name = de_name (entry (vfs_state k) e);
           child_path = (if name = ''/'' then ''/'' @ di_name child else name @ ''/'' @ di_name child) in
       try_bind (on_vfs (vfs_stat child_path)) (\<lambda>r.
       try_bind (unwrap_result r) (\<lambda>c.
       try_bind (format_entry_long show_node_ids c) (\<lambda>_.
       drop_entry c))) k
     else format_entry_short show_node_ids child k)"

text \<open>The listing of the entry that \<open>stat\<close> found.\<close>

definition list_entry :: "string \<Rightarrow> bool \<Rightarrow> bool \<Rightarrow> dref \<Rightarrow> unit kernel_op" where
  "list_entry path long show_node_ids e = (\<lambda>k.
     if is_directory (entry_node (vfs_state k) e) then
       try_bind (on_vfs (vfs_read_directory path)) (\<lambda>r. case r of
         Inl err \<Rightarrow> panic Todo
       | Inr children \<Rightarrow> for_each (context_into_iter children) (list_child long show_node_ids e)) k
     else if long then format_entry_long show_node_ids e k
     else format_entry_short show_node_ids (iteration_entry_of (vfs_state k) e) k)"

definition ls :: "string list \<Rightarrow> unit kernel_op" where
  "ls args =
     (let path = (if without_flags args = [] then ''/'' else last (without_flags args)) in
      try_bind (has_boolean_option args (CHR ''a'')) (\<lambda>all.
      try_bind (has_boolean_option args (CHR ''l'')) (\<lambda>long.
      try_bind (has_boolean_option args (CHR ''h'')) (\<lambda>human_readable.
      try_bind (has_boolean_option args (CHR ''i'')) (\<lambda>show_node_ids.
      try_bind (on_vfs (vfs_stat path)) (\<lambda>r. case r of
        Inl err \<Rightarrow>
          if err = EntryNotFound then on_screen (println (''ls: '' @ path @ '': No such file or directory''))
          else panic Todo
      | Inr e \<Rightarrow> try_bind (list_entry path long show_node_ids e) (\<lambda>_. drop_entry e)))))))"

definition no_path :: "unit kernel_op" where
  "no_path = on_screen (println ''error: no path provided'')"

definition cat :: "string list \<Rightarrow> unit kernel_op" where
  "cat args = (case args of
      [] \<Rightarrow> no_path
    | path # _ \<Rightarrow>
        try_bind (on_vfs (vfs_open path Read)) (\<lambda>r.
        try_bind (unwrap_result r) (\<lambda>f.
        try_bind (on_vfs (vfs_read f (replicate 512 0))) (\<lambda>r.
        try_bind (unwrap_result r) (\<lambda>(bytes, data).
        try_bind (slice data 0 bytes) (\<lambda>data.
        on_screen (println (from_utf8_lossy data))))))))"

definition touch :: "string list \<Rightarrow> unit kernel_op" where
  "touch args = (case args of
      [] \<Rightarrow> no_path
    | path # _ \<Rightarrow>
        try_bind (on_vfs (vfs_open path Write)) (\<lambda>r.
        try_bind (unwrap_result r) (\<lambda>f.
        try_bind (on_vfs (vfs_close f)) unwrap_result)))"

definition mkdir :: "string list \<Rightarrow> unit kernel_op" where
  "mkdir args =
     (if without_flags args = [] then no_path
      else
        try_bind (on_vfs (vfs_create_directory (last (without_flags args)))) (\<lambda>r. case r of
          Inl e \<Rightarrow> panic Explicit
        | Inr d \<Rightarrow> drop_entry d))"

text \<open>The \<open>match\<close> on the first argument; the result says whether the shell is to end.\<close>

definition execute :: "string list \<Rightarrow> bool kernel_op" where
  "execute args = (case args of
      [] \<Rightarrow> ret False
    | command # args \<Rightarrow>
        if command = ''exit'' then ret True
        else
          try_bind
            (if command = ''help'' then on_screen (println ''TODO: insert a help message here'')
             else if command = ''whoami'' then on_screen (println ''root'')
             else if command = ''echo'' \<or> command = ''print'' then echo args
             else if command = ''pwd'' then on_screen (println ''/'')
             else if command = ''uname'' then uname args
             else if command = ''ls'' then ls args
             else if command = ''cat'' then cat args
             else if command = ''touch'' then touch args
             else if command = ''mkdir'' then mkdir args
             else if command \<in> {''rm'', ''realpath'', ''basename'', ''cd''}
               then on_screen (println ''error: not implemented yet'')
             else on_screen (println (''command not found: '' @ command)))
            (\<lambda>_. ret False))"

text \<open>\<open>for token in Parser::new(input) { args.push_back(token) }\<close>.\<close>

definition parse_arguments :: "string \<Rightarrow> string list kernel_op" where
  "parse_arguments input = (\<lambda>k. case (parser_new input :: (infallible, parser) outcome) of
      Ok p \<Rightarrow> (fst (collect_tokens p), k)
    | Err e \<Rightarrow> (Err e, k)
    | Panic q \<Rightarrow> (Panic q, k))"

definition parse_and_execute :: "(code_point \<Rightarrow> string) \<Rightarrow> code_point list \<Rightarrow> bool kernel_op" where
  "parse_and_execute escape_unicode input =
     try_bind (on_screen (with_color (color_into_code LightGray)
       (println (''input: '' @ debug_str escape_unicode input)))) (\<lambda>_.
     try_bind (parse_arguments (utf8 input)) (\<lambda>args.
     try_bind (on_screen (with_color (color_into_code LightGray) (println (''args: '' @ debug_args args)))) (\<lambda>_.
     execute args)))"

end
