(* ===== verification/Shell_Laws.thy ===== *)
theory Shell_Laws
  imports Shell Vfs_Session
begin

text \<open>
  What the commands of the shell do to the screen: they print whole lines, so that the prompt that
  follows starts on an empty row; and which of them leave everything else alone.
\<close>

section \<open>Commands that print\<close>

text \<open>
  \<open>prints m\<close>: on a proper screen \<open>m\<close> succeeds and changes only the screen, which stays proper.
  \<open>settles m\<close>: it also ends a line.
\<close>

definition screen_only :: "kernel \<Rightarrow> kernel \<Rightarrow> bool" where
  "screen_only k k' \<longleftrightarrow> color_code (screen k') = color_code (screen k) \<and> ports k' = ports k \<and> vfs_state k' = vfs_state k"

definition prints :: "'a kernel_op \<Rightarrow> bool" where
  "prints m \<longleftrightarrow> (\<forall>k. writer_wf (screen k) \<longrightarrow> (\<exists>x k'. m k = (Ok x, k') \<and> writer_wf (screen k') \<and> screen_only k k'))"

definition settles :: "'a kernel_op \<Rightarrow> bool" where
  "settles m \<longleftrightarrow> (\<forall>k. writer_wf (screen k) \<longrightarrow> (\<exists>x k'. m k = (Ok x, k') \<and> fresh_line (screen k') \<and> screen_only k k'))"

named_theorems line_rules \<open>composition of operations that print\<close>

lemma screen_only_trans: "screen_only a b \<Longrightarrow> screen_only b c \<Longrightarrow> screen_only a c"
  by (simp add: screen_only_def)

lemma settles_prints: "settles m \<Longrightarrow> prints m"
  unfolding settles_def prints_def fresh_line_def by blast

lemma prints_ret [line_rules]: "prints (ret x)"
  by (simp add: prints_def screen_only_def)

lemma prints_bind [line_rules]:
  assumes "prints m" "\<And>x. prints (f x)"
  shows "prints (try_bind m f)"
  unfolding prints_def
proof (intro allI impI)
  fix k :: kernel assume "writer_wf (screen k)"
  then obtain x k1 where k1: "m k = (Ok x, k1)" "writer_wf (screen k1)" "screen_only k k1"
    using assms(1) unfolding prints_def by blast
  then obtain y k2 where "f x k1 = (Ok y, k2)" "writer_wf (screen k2)" "screen_only k1 k2"
    using assms(2) unfolding prints_def by blast
  then show "\<exists>y k'. try_bind m f k = (Ok y, k') \<and> writer_wf (screen k') \<and> screen_only k k'"
    using k1 screen_only_trans by auto
qed

lemma settles_bind [line_rules]:
  assumes "prints m" "\<And>x. settles (f x)"
  shows "settles (try_bind m f)"
  unfolding settles_def
proof (intro allI impI)
  fix k :: kernel assume "writer_wf (screen k)"
  then obtain x k1 where k1: "m k = (Ok x, k1)" "writer_wf (screen k1)" "screen_only k k1"
    using assms(1) unfolding prints_def by blast
  then obtain y k2 where "f x k1 = (Ok y, k2)" "fresh_line (screen k2)" "screen_only k1 k2"
    using assms(2) unfolding settles_def by blast
  then show "\<exists>y k'. try_bind m f k = (Ok y, k') \<and> fresh_line (screen k') \<and> screen_only k k'"
    using k1 screen_only_trans by auto
qed

lemma prints_print [line_rules]: "prints (on_screen (print text))"
  unfolding prints_def
proof (intro allI impI)
  fix k :: kernel assume "writer_wf (screen k)"
  then obtain w' where "print text (screen k) = (Ok (), w')" "writer_wf w'" "color_code w' = color_code (screen k)"
    by (rule print_ok)
  then show "\<exists>x k'. on_screen (print text) k = (Ok x, k') \<and> writer_wf (screen k') \<and> screen_only k k'"
    by (simp add: on_screen_def screen_only_def)
qed

lemma settles_println [line_rules]: "settles (on_screen (println text))"
  unfolding settles_def
proof (intro allI impI)
  fix k :: kernel assume "writer_wf (screen k)"
  then obtain w' where "println text (screen k) = (Ok (), w')" "fresh_line w'" "color_code w' = color_code (screen k)"
    by (rule println_ok)
  then show "\<exists>x k'. on_screen (println text) k = (Ok x, k') \<and> fresh_line (screen k') \<and> screen_only k k'"
    by (simp add: on_screen_def screen_only_def)
qed

lemma settles_color_println [line_rules]: "settles (on_screen (with_color c (println text)))"
  unfolding settles_def
proof (intro allI impI)
  fix k :: kernel assume "writer_wf (screen k)"
  then have "writer_wf (screen k\<lparr>color_code := c\<rparr>)" by (simp add: writer_wf_def)
  then obtain w' where w': "println text (screen k\<lparr>color_code := c\<rparr>) = (Ok (), w')" "fresh_line w'"
    using println_ok by blast
  then show "\<exists>x k'. on_screen (with_color c (println text)) k = (Ok x, k') \<and> fresh_line (screen k') \<and> screen_only k k'"
    by (simp add: on_screen_def with_color_ok screen_only_def fresh_line_def writer_wf_def)
qed

lemma prints_for_each [line_rules]: "(\<And>x. x \<in> set xs \<Longrightarrow> prints (f x)) \<Longrightarrow> prints (for_each xs f)"
  by (induction xs) (auto intro: line_rules)

section \<open>Commands that may panic\<close>

text \<open>\<open>keeps_line m\<close>: unless it panics, \<open>m\<close> leaves the screen at the start of a line if it was there.\<close>

definition keeps_line :: "'a kernel_op \<Rightarrow> bool" where
  "keeps_line m \<longleftrightarrow> valid (\<lambda>k. fresh_line (screen k)) m (\<lambda>r k. is_panic r \<or> fresh_line (screen k) \<and> (\<exists>x. r = Ok x))"

lemma keeps_line_run:
  assumes "keeps_line m" "fresh_line (screen k)" "m k = (r, k')"
  shows "is_panic r \<or> fresh_line (screen k') \<and> (\<exists>x. r = Ok x)"
  using validD [OF assms(1) [unfolded keeps_line_def] assms(2,3)] .

lemma settles_keeps [line_rules]: "settles m \<Longrightarrow> keeps_line m"
  unfolding settles_def keeps_line_def valid_def by (metis fresh_line_def fst_conv snd_conv)

lemma keeps_line_basic [line_rules]: "keeps_line (ret x)" "keeps_line (panic p)" "keeps_line (drop_entry d)"
  by (simp_all add: keeps_line_def valid_def drop_entry_def)

lemma keeps_line_vfs [line_rules]: "keeps_line (on_vfs m)"
  by (auto simp: keeps_line_def valid_def on_vfs_def split: prod.split outcome.split)

lemma keeps_line_unwrap [line_rules]: "keeps_line (unwrap_result r)" "keeps_line (slice xs i j)"
  by (simp_all add: unwrap_result_def slice_def keeps_line_basic split: sum.split)

lemma keeps_line_bind [line_rules]:
  assumes "keeps_line m" "\<And>x. keeps_line (f x)"
  shows "keeps_line (try_bind m f)"
  unfolding keeps_line_def
proof (rule valid_try_bind [where R = "\<lambda>x k. fresh_line (screen k)"])
  show "valid (\<lambda>k. fresh_line (screen k)) m (\<lambda>r s. case r of Ok x \<Rightarrow> fresh_line (screen s)
      | Err e \<Rightarrow> is_panic (Err e :: (infallible, 'b) outcome) \<or> fresh_line (screen s) \<and> (\<exists>x. Err e = (Ok x :: (infallible, 'b) outcome))
      | Panic p \<Rightarrow> is_panic (Panic p :: (infallible, 'b) outcome) \<or> fresh_line (screen s) \<and> (\<exists>x. Panic p = (Ok x :: (infallible, 'b) outcome)))"
    by (rule valid_weaken [OF assms(1) [unfolded keeps_line_def]]) (auto split: outcome.split)
qed (use assms(2) in \<open>simp add: keeps_line_def\<close>)

lemma keeps_line_for_each [line_rules]: "(\<And>x. x \<in> set xs \<Longrightarrow> keeps_line (f x)) \<Longrightarrow> keeps_line (for_each xs f)"
  by (induction xs) (auto intro: line_rules)

lemma keeps_line_local: "(\<And>k. keeps_line (m k)) \<Longrightarrow> keeps_line (\<lambda>k. m k k)"
  by (simp add: keeps_line_def valid_def)

lemma keeps_line_option [line_rules]: "keeps_line (has_boolean_option args flag)"
  by (induction args flag rule: has_boolean_option.induct) (auto simp del: ret_simp intro: keeps_line_basic)

section \<open>The commands\<close>

lemma settles_if_print:
  assumes "settles m"
  shows "settles (try_bind (if b then on_screen (print text) else ret ()) (\<lambda>_. m))"
  using assms by (cases b) (auto intro: line_rules)

lemma settles_format_short [line_rules]: "settles (format_entry_short ids e)"
  unfolding format_entry_short_def by (intro settles_if_print line_rules)

lemma settles_local: "(\<And>k. settles (m k)) \<Longrightarrow> settles (\<lambda>k. m k k)"
  by (simp add: settles_def)

lemma settles_format_long [line_rules]: "settles (format_entry_long ids d)"
  unfolding format_entry_long_def Let_def by (rule settles_local) (intro settles_if_print line_rules)

lemma keeps_line_child [line_rules]: "keeps_line (list_child long ids e child)"
proof -
  have eq: "list_child long ids e child = (\<lambda>k. (if long then
       try_bind (on_vfs (vfs_stat (if de_name (entry (vfs_state k) e) = ''/'' then ''/'' @ di_name child
         else de_name (entry (vfs_state k) e) @ ''/'' @ di_name child))) (\<lambda>r.
       try_bind (unwrap_result r) (\<lambda>c.
       try_bind (format_entry_long ids c) (\<lambda>_. drop_entry c)))
     else format_entry_short ids child) k)"
    by (simp add: list_child_def Let_def fun_eq_iff)
  have short: "keeps_line (format_entry_short ids child)" by (intro line_rules)
  have long:  "keeps_line (try_bind (on_vfs (vfs_stat path)) (\<lambda>r. try_bind (unwrap_result r) (\<lambda>c.
      try_bind (format_entry_long ids c) (\<lambda>_. drop_entry c))))" for path
    by (intro keeps_line_bind line_rules)
  show ?thesis unfolding eq by (rule keeps_line_local) (simp add: short long)
qed

lemma keeps_line_list [line_rules]: "keeps_line (list_entry path long ids e)"
proof -
  have "list_entry path long ids e = (\<lambda>k. (if is_directory (entry_node (vfs_state k) e) then
       try_bind (on_vfs (vfs_read_directory path)) (\<lambda>r. case r of
         Inl err \<Rightarrow> panic Todo
       | Inr children \<Rightarrow> for_each (context_into_iter children) (list_child long ids e))
     else if long then format_entry_long ids e
     else format_entry_short ids (iteration_entry_of (vfs_state k) e)) k)"
    by (simp add: list_entry_def fun_eq_iff)
  moreover have "keeps_line (try_bind (on_vfs (vfs_read_directory path)) (\<lambda>r. case r of
      Inl err \<Rightarrow> panic Todo | Inr children \<Rightarrow> for_each (context_into_iter children) (list_child long ids e)))"
    by (rule keeps_line_bind) (auto intro: line_rules split: sum.split)
  ultimately show ?thesis
    by (simp only:) (rule keeps_line_local, simp add: settles_keeps settles_format_long settles_format_short)
qed

lemma keeps_line_ls [line_rules]: "keeps_line (ls args)"
  unfolding ls_def Let_def
  by (intro keeps_line_bind keeps_line_option keeps_line_vfs)
    (auto intro!: keeps_line_bind keeps_line_list keeps_line_basic settles_keeps [OF settles_println] split: sum.split)

lemma keeps_line_no_path: "keeps_line no_path"
  unfolding no_path_def by (intro line_rules)

lemma keeps_line_cat [line_rules]: "keeps_line (cat args)"
  unfolding cat_def
  by (cases args)
    (auto simp: keeps_line_no_path split_def
      intro!: keeps_line_bind keeps_line_vfs keeps_line_unwrap settles_keeps [OF settles_println])

lemma keeps_line_touch [line_rules]: "keeps_line (touch args)"
  unfolding touch_def by (cases args) (auto simp: keeps_line_no_path intro!: keeps_line_bind keeps_line_vfs keeps_line_unwrap)

lemma keeps_line_mkdir [line_rules]: "keeps_line (mkdir args)"
  unfolding mkdir_def
  by (auto simp: keeps_line_no_path intro!: keeps_line_bind keeps_line_vfs keeps_line_basic split: sum.split)

subsection \<open>Printing the arguments\<close>

lemma on_screen_bind: "on_screen (try_bind m f) k = try_bind (on_screen m) (\<lambda>x. on_screen (f x)) k"
  by (auto simp: on_screen_def try_bind_def split: prod.split outcome.split)

lemma on_screen_print_append: "on_screen (print (a @ b)) k = try_bind (on_screen (print a)) (\<lambda>_. on_screen (print b)) k"
proof -
  have "print (a @ b) = try_bind (print a) (\<lambda>_. print b)" by (simp add: print_append fun_eq_iff)
  then show ?thesis by (simp add: on_screen_bind)
qed

text \<open>The loop of \<open>echo\<close> prints its arguments with one blank in between.\<close>

lemma echo_loop:
  assumes "n + length args = len"
  shows "for_each (enumerate n args) (\<lambda>(i, arg).
       try_bind (on_screen (print arg)) (\<lambda>_.
       try_bind (checked_sub len 1) (\<lambda>last.
       if i < last then on_screen (print '' '') else ret ()))) k = on_screen (print (join_with (CHR '' '') args)) k"
  using assms
proof (induction args arbitrary: n k rule: induct_list012)
  case 1
  then show ?case by (simp add: on_screen_def print_def write_string_def)
next
  case (2 a)
  then have "\<not> n < len - 1" "1 \<le> len" by simp_all
  then show ?case by (simp add: checked_sub_def try_bind_def split: prod.split outcome.split)
next
  case (3 a b args)
  let ?f = "\<lambda>(i, arg). try_bind (on_screen (print arg)) (\<lambda>_.
      try_bind (checked_sub len 1) (\<lambda>last. if i < last then on_screen (print '' '') else ret ()))"
  have rest: "for_each (enumerate (Suc n) (b # args)) ?f = on_screen (print (join_with (CHR '' '') (b # args)))"
    using 3 by (intro ext) simp
  have "n < len - 1" "1 \<le> len" using 3 by auto
  then have first: "?f (n, a) = on_screen (print (a @ '' ''))"
    by (simp add: checked_sub_def fun_eq_iff on_screen_print_append try_bind_def)
  have "for_each (enumerate n (a # b # args)) ?f k = try_bind (?f (n, a)) (\<lambda>_. for_each (enumerate (Suc n) (b # args)) ?f) k"
    by (simp only: enumerate_simps for_each.simps)
  also have "\<dots> = on_screen (print (join_with (CHR '' '') (a # b # args))) k"
    unfolding first rest by (simp flip: on_screen_print_append)
  finally show ?case .
qed

lemma echo_eq: "echo args = on_screen (println (join_with (CHR '' '') args))"
  using echo_loop [of 0 args] by (simp add: fun_eq_iff echo_def println_def on_screen_print_append try_bind_def)

lemma settles_uname: "settles (uname args)"
proof -
  have "prints (case args of a # _ \<Rightarrow> if a = ''-a'' then on_screen (print ('' riptide '' @ CARGO_PKG_VERSION @ '' x86_64''))
      else ret () | [] \<Rightarrow> ret ())"
    by (auto simp: prints_print prints_ret split: list.split)
  then show ?thesis unfolding uname_def by (intro settles_bind prints_print settles_println)
qed

subsection \<open>Executing a line\<close>

text \<open>The commands that touch the file system.\<close>

definition uses_vfs :: "string \<Rightarrow> bool" where
  "uses_vfs command \<longleftrightarrow> command \<in> {''ls'', ''cat'', ''touch'', ''mkdir''}"

lemma settles_map: "settles m \<Longrightarrow> settles (try_bind m (\<lambda>_. ret x))"
  unfolding settles_def by (metis ret_simp try_bind_Ok)

lemma execute_quiet:
  assumes "\<not> uses_vfs command" "command \<noteq> ''exit''"
  shows "settles (execute (command # args))"
  using assms unfolding execute_def uses_vfs_def
  by (simp add: settles_map settles_println settles_uname echo_eq)

lemma execute_result:
  assumes "execute args k = (Ok b, k')"
  shows "b \<longleftrightarrow> args \<noteq> [] \<and> hd args = ''exit''"
proof (cases args)
  case (Cons command rest)
  show ?thesis
  proof (cases "command = ''exit''")
    case False
    have "execute args k = (Ok b, k') \<Longrightarrow> \<not> b"
      unfolding execute_def Cons list.case if_not_P [OF False] by (elim try_bind_OkE) simp
    then show ?thesis using assms Cons False by simp
  qed (use assms Cons in \<open>simp add: execute_def\<close>)
qed (use assms in \<open>simp add: execute_def\<close>)

lemma keeps_line_execute [line_rules]: "keeps_line (execute args)"
proof (cases args)
  case (Cons command rest)
  have "keeps_line (ret True)" "keeps_line (try_bind m (\<lambda>_. ret False))" if "keeps_line m" for m :: "unit kernel_op"
    using that by (simp_all add: keeps_line_basic keeps_line_bind)
  then show ?thesis
    by (simp add: execute_def Cons settles_keeps settles_println settles_uname echo_eq
        keeps_line_ls keeps_line_cat keeps_line_touch keeps_line_mkdir keeps_line_basic)
qed (simp add: execute_def keeps_line_basic)

lemma parse_arguments_ascii:
  assumes "is_ascii line" "length line < usize_limit"
  shows "parse_arguments line k = (Ok (tokens line), k)"
proof -
  have "parser_wf \<lparr>p_input = line, p_position = 0\<rparr>" using assms by (simp add: parser_wf_def)
  then show ?thesis using assms(1) by (simp add: parse_arguments_def parser_new_def collect_tokens_eq)
qed

lemma parse_arguments_not_ascii: "\<not> is_ascii line \<Longrightarrow> parse_arguments line k = (Panic Assert, k)"
  by (simp add: parse_arguments_def parser_new_def)

lemma utf8_ascii: "is_ascii line \<Longrightarrow> utf8 (map of_char line) = line"
  by (induction line) (auto simp: utf8_def is_ascii_def is_ascii_char_def encode_utf8_def)

lemma keeps_line_parse [line_rules]:
  assumes "length line < usize_limit"
  shows "keeps_line (parse_arguments line)"
proof (cases "is_ascii line")
  case True
  then have "parse_arguments line = ret (tokens line)" using parse_arguments_ascii [OF True assms] by (simp add: fun_eq_iff)
  then show ?thesis using keeps_line_basic by metis
next
  case False
  then have "parse_arguments line = panic Assert" using parse_arguments_not_ascii [OF False] by (simp add: fun_eq_iff)
  then show ?thesis using keeps_line_basic by metis
qed

lemma keeps_line_parse_and_execute:
  assumes "length (utf8 input) < usize_limit"
  shows "keeps_line (parse_and_execute esc input)"
  unfolding parse_and_execute_def
  using keeps_line_parse [OF assms]
  by (intro keeps_line_bind settles_keeps [OF settles_color_println] keeps_line_execute)

end
