(* ===== verification/Shell_Editor.thy ===== *)
theory Shell_Editor
  imports Shell_Laws
begin

text \<open>
  The line editor of the shell, \<open>shell::run\<close>: the loop that turns scancodes into edits of the input
  line and into commands. The keyboard decoder (\<open>pc_keyboard\<close>) and the fixed-capacity containers
  (\<open>heapless\<close>) are parameters; \<open>lawful_string\<close> and \<open>lawful_deque\<close> state what their documentation
  says of the operations that are used.
\<close>

section \<open>Parameters\<close>

text \<open>\<open>pc_keyboard\<close>: the decoder of scancodes. The key of a \<open>RawKey\<close> is not looked at.\<close>

datatype decoded_key = Unicode code_point | RawKey

record ('k, 'ev) keyboard_ops =
  kb_new :: 'k
  kb_add_byte :: "u8 \<Rightarrow> 'k \<Rightarrow> (unit + 'ev option) \<times> 'k"
  kb_process_keyevent :: "'ev \<Rightarrow> 'k \<Rightarrow> decoded_key option \<times> 'k"
  kb_is_ctrl :: "'k \<Rightarrow> bool"

text \<open>\<open>heapless::String\<close> and \<open>heapless::Deque\<close>; a \<open>push\<close> that fails changes nothing.\<close>

record 'b string_ops =
  hs_new :: 'b
  hs_push :: "code_point \<Rightarrow> 'b \<Rightarrow> 'b option"
  hs_pop :: "'b \<Rightarrow> 'b"
  hs_clear :: "'b \<Rightarrow> 'b"
  hs_chars :: "'b \<Rightarrow> code_point list"

record ('b, 'd) deque_ops =
  dq_new :: 'd
  dq_is_full :: "'d \<Rightarrow> bool"
  dq_pop_back :: "'d \<Rightarrow> 'd"
  dq_push_front :: "'b \<Rightarrow> 'd \<Rightarrow> 'd option"
  dq_iter :: "'d \<Rightarrow> 'b list"

definition lawful_string :: "nat \<Rightarrow> 'b string_ops \<Rightarrow> bool" where
  "lawful_string capacity ops \<longleftrightarrow>
     hs_chars ops (hs_new ops) = []
     \<and> (\<forall>b. hs_chars ops (hs_clear ops b) = [])
     \<and> (\<forall>b. hs_chars ops (hs_pop ops b) = butlast (hs_chars ops b))
     \<and> (\<forall>b c. case hs_push ops c b of
           Some b' \<Rightarrow> hs_chars ops b' = hs_chars ops b @ [c] \<and> length (utf8 (hs_chars ops b')) \<le> capacity
         | None \<Rightarrow> capacity < length (utf8 (hs_chars ops b @ [c])))"

definition lawful_deque :: "nat \<Rightarrow> ('b, 'd) deque_ops \<Rightarrow> bool" where
  "lawful_deque capacity ops \<longleftrightarrow>
     dq_iter ops (dq_new ops) = []
     \<and> (\<forall>d. dq_is_full ops d \<longleftrightarrow> length (dq_iter ops d) = capacity)
     \<and> (\<forall>d. dq_iter ops (dq_pop_back ops d) = butlast (dq_iter ops d))
     \<and> (\<forall>d b. case dq_push_front ops b d of
           Some d' \<Rightarrow> dq_iter ops d' = b # dq_iter ops d
         | None \<Rightarrow> capacity \<le> length (dq_iter ops d))"

section \<open>The editor\<close>

definition INPUT_BUFFER_LEN :: usize where
  "INPUT_BUFFER_LEN = BUFFER_WIDTH - length get_prompt - 1"

definition HISTORY_LEN :: usize where
  "HISTORY_LEN = 16"

text \<open>The local variables of \<open>run\<close>, and the kernel they act on.\<close>

record ('k, 'b, 'd) shell =
  keyboard :: 'k
  history :: 'd
  input_buffer :: 'b
  cursor_position :: u8
  kernel_state :: kernel

record ('k, 'ev, 'b, 'd) shell_deps =
  keyboard_ops :: "('k, 'ev) keyboard_ops"
  string_ops :: "'b string_ops"
  deque_ops :: "('b, 'd) deque_ops"
  escape_unicode :: "code_point \<Rightarrow> string"
  port_in :: "port_log \<Rightarrow> u8"

definition on_kernel :: "'a kernel_op \<Rightarrow> (('k, 'b, 'd) shell, infallible, 'a) op" where
  "on_kernel m = (\<lambda>sh. case m (kernel_state sh) of (r, k) \<Rightarrow> (r, sh\<lparr>kernel_state := k\<rparr>))"

text \<open>Checked addition of bytes.\<close>

definition checked_add_u8 :: "u8 \<Rightarrow> u8 \<Rightarrow> ('s, 'e, u8) op" where
  "checked_add_u8 a b = (if unat a + unat b < 256 then ret (a + b) else panic Overflow)"

definition saturating_sub_u8 :: "u8 \<Rightarrow> u8 \<Rightarrow> u8" where
  "saturating_sub_u8 a b = (if b \<le> a then a - b else 0)"

text \<open>\<open>get_prompt().len() as u8 + cursor_position\<close>, and the move of the hardware cursor to it.\<close>

definition cursor_column :: "(('k, 'b, 'd) shell, infallible, u8) op" where
  "cursor_column = (\<lambda>sh. checked_add_u8 (of_nat (length get_prompt)) (cursor_position sh) sh)"

definition move_cursor :: "u8 \<Rightarrow> (('k, 'b, 'd) shell, infallible, unit) op" where
  "move_cursor col = on_kernel (on_ports (set_cursor_position col (of_nat BUFFER_HEIGHT - 1)))"

definition press_enter :: "('k, 'ev, 'b, 'd) shell_deps \<Rightarrow> (('k, 'b, 'd) shell, infallible, bool) op" where
  "press_enter deps =
     try_bind (on_kernel (on_screen (println []))) (\<lambda>_ sh.
     try_bind (on_kernel (parse_and_execute (escape_unicode deps) (hs_chars (string_ops deps) (input_buffer sh)))) (\<lambda>ended.
     if ended then
       try_bind (on_kernel (on_ports disable_cursor)) (\<lambda>_. ret True)
     else
       try_bind (on_kernel print_prompt) (\<lambda>_ sh.
       let h = (if dq_is_full (deque_ops deps) (history sh) then dq_pop_back (deque_ops deps) (history sh)
                else history sh) in
       try_bind (unwrap (dq_push_front (deque_ops deps) (input_buffer sh) h)) (\<lambda>h sh.
       (Ok False, sh\<lparr>history := h, input_buffer := hs_clear (string_ops deps) (input_buffer sh),
                     cursor_position := 0\<rparr>)) sh)) sh)"

text \<open>What a backspace removes: a character, or the whole line with the control key.\<close>

definition erase :: "('k, 'ev, 'b, 'd) shell_deps \<Rightarrow> (('k, 'b, 'd) shell, infallible, unit) op" where
  "erase deps = (\<lambda>sh.
     if kb_is_ctrl (keyboard_ops deps) (keyboard sh)
     then (Ok (), sh\<lparr>input_buffer := hs_clear (string_ops deps) (input_buffer sh), cursor_position := 0\<rparr>)
     else (Ok (), sh\<lparr>input_buffer := hs_pop (string_ops deps) (input_buffer sh),
                     cursor_position := saturating_sub_u8 (cursor_position sh) 1\<rparr>))"

definition press_backspace :: "('k, 'ev, 'b, 'd) shell_deps \<Rightarrow> (('k, 'b, 'd) shell, infallible, bool) op" where
  "press_backspace deps =
     try_bind (erase deps) (\<lambda>_.
     try_bind cursor_column (\<lambda>col.
     try_bind (on_kernel (on_screen (set_column_position col))) (\<lambda>_ sh.
     try_bind (for_each [length get_prompt + unat (cursor_position sh)..<BUFFER_WIDTH]
       (\<lambda>_. on_kernel (on_screen (print '' '')))) (\<lambda>_.
     try_bind (on_kernel (on_screen (set_column_position col))) (\<lambda>_.
     try_bind (move_cursor col) (\<lambda>_. ret False))) sh)))"

definition press_character :: "('k, 'ev, 'b, 'd) shell_deps \<Rightarrow> code_point \<Rightarrow>
    (('k, 'b, 'd) shell, infallible, bool) op" where
  "press_character deps c = (\<lambda>sh. case hs_push (string_ops deps) c (input_buffer sh) of
      None \<Rightarrow> (Ok False, sh)
    | Some b \<Rightarrow>
        try_bind (checked_add_u8 (cursor_position sh) 1) (\<lambda>p.
        try_bind (\<lambda>sh. (Ok (), sh\<lparr>cursor_position := p\<rparr>)) (\<lambda>_.
        try_bind (on_kernel (on_screen (print (encode_utf8 c)))) (\<lambda>_.
        try_bind cursor_column (\<lambda>col.
        try_bind (move_cursor col) (\<lambda>_. ret False))))) (sh\<lparr>input_buffer := b\<rparr>))"

definition handle_key :: "('k, 'ev, 'b, 'd) shell_deps \<Rightarrow> decoded_key \<Rightarrow>
    (('k, 'b, 'd) shell, infallible, bool) op" where
  "handle_key deps key = (case key of
      Unicode c \<Rightarrow>
        if c = 10 then press_enter deps
        else if c = 8 then press_backspace deps
        else press_character deps c
    | RawKey \<Rightarrow> ret False)"

text \<open>The body of the loop, for one scancode; the result says whether \<open>run\<close> returns.\<close>

definition handle_scancode :: "('k, 'ev, 'b, 'd) shell_deps \<Rightarrow> u8 \<Rightarrow>
    (('k, 'b, 'd) shell, infallible, bool) op" where
  "handle_scancode deps scancode = (\<lambda>sh.
     case kb_add_byte (keyboard_ops deps) scancode (keyboard sh) of
       (Inr (Some event), kb) \<Rightarrow>
         (case kb_process_keyevent (keyboard_ops deps) event kb of
            (Some key, kb) \<Rightarrow> handle_key deps key (sh\<lparr>keyboard := kb\<rparr>)
          | (None, kb) \<Rightarrow> (Ok False, sh\<lparr>keyboard := kb\<rparr>))
     | (_, kb) \<Rightarrow> (Ok False, sh\<lparr>keyboard := kb\<rparr>))"

text \<open>
  The loop over the scancodes that have arrived: it stops when the shell ends, and otherwise waits
  for more. The stream of scancodes has no end.
\<close>

fun handle_scancodes :: "('k, 'ev, 'b, 'd) shell_deps \<Rightarrow> u8 list \<Rightarrow>
    (('k, 'b, 'd) shell, infallible, bool) op" where
  "handle_scancodes deps [] = ret False"
| "handle_scancodes deps (scancode # rest) =
     try_bind (handle_scancode deps scancode) (\<lambda>ended.
     if ended then ret True else handle_scancodes deps rest)"

definition shell_start :: "('k, 'ev, 'b, 'd) shell_deps \<Rightarrow> kernel \<Rightarrow>
    (infallible, unit) outcome \<times> ('k, 'b, 'd) shell" where
  "shell_start deps k =
     try_bind (on_kernel (on_ports (enable_cursor (port_in deps) 13 15))) (\<lambda>_.
     on_kernel print_prompt)
       \<lparr>keyboard = kb_new (keyboard_ops deps), history = dq_new (deque_ops deps),
        input_buffer = hs_new (string_ops deps), cursor_position = 0, kernel_state = k\<rparr>"

definition shell_run :: "('k, 'ev, 'b, 'd) shell_deps \<Rightarrow> u8 list \<Rightarrow> kernel \<Rightarrow>
    (infallible, bool) outcome \<times> ('k, 'b, 'd) shell" where
  "shell_run deps scancodes k =
     (case shell_start deps k of
        (Ok _, sh) \<Rightarrow> handle_scancodes deps scancodes sh
      | (Err e, sh) \<Rightarrow> (Err e, sh)
      | (Panic p, sh) \<Rightarrow> (Panic p, sh))"

end
