(* ===== verification/Shell_Line.thy ===== *)
theory Shell_Line
  imports Shell_Editor
begin

text \<open>
  What the line editor keeps: the cursor, the input buffer and the history agree and stay within
  their bounds, and the bottom row of the screen shows the prompt and the input.
\<close>

section \<open>The bottom row\<close>

definition row_bytes :: "writer \<Rightarrow> u8 list" where
  "row_bytes w = map ascii_character (last (chars w))"

definition glyph :: "u8 \<Rightarrow> u8" where
  "glyph b = (if is_printable b then b else 0xfe)"

lemma row_bytes_length: "writer_wf w \<Longrightarrow> length (row_bytes w) = 80"
  by (cases "chars w = []") (auto simp: row_bytes_def writer_wf_def buffer_size)

lemma write_byte_row:
  assumes "writer_wf w" "column_position w < 80" "b \<noteq> line_feed"
  shows "\<exists>w'. write_byte b w = (Ok (), w') \<and> writer_wf w' \<and> color_code w' = color_code w
    \<and> column_position w' = Suc (column_position w) \<and> row_bytes w' = (row_bytes w)[column_position w := b]"
proof -
  let ?c = "\<lparr>ascii_character = b, char_color = color_code w\<rparr>"
  let ?w = "w\<lparr>chars := (chars w)[24 := (chars w ! 24)[column_position w := ?c]], column_position := Suc (column_position w)\<rparr>"
  have len: "length (chars w) = 25" using assms(1) by (simp add: writer_wf_def buffer_size)
  have "write_byte b w = put_byte b w" using assms(2,3) by (simp add: write_byte_def put_byte_def buffer_size)
  then have run: "write_byte b w = (Ok (), ?w)" using put_byte_eq [OF assms(1,2)] by simp
  have "writer_wf ?w"
    using assms(1,2) set_update_subset_insert [of "chars w" 24] by (fastforce simp: writer_wf_def buffer_size)
  moreover have "chars w \<noteq> []" using len by auto
  then have "row_bytes ?w = (row_bytes w)[column_position w := b]"
    using len by (simp add: row_bytes_def last_conv_nth map_update)
  ultimately show ?thesis using run by simp
qed

lemma write_string_row:
  assumes "writer_wf w" "column_position w + length bs \<le> 80" "line_feed \<notin> set bs"
  shows "\<exists>w'. write_string bs w = (Ok (), w') \<and> writer_wf w' \<and> color_code w' = color_code w
    \<and> column_position w' = column_position w + length bs
    \<and> row_bytes w' = take (column_position w) (row_bytes w) @ map glyph bs @ drop (column_position w + length bs) (row_bytes w)"
  using assms
proof (induction bs arbitrary: w)
  case (Cons b bs)
  have "glyph b \<noteq> line_feed" using Cons.prems(3) by (auto simp: glyph_def line_feed_def)
  then obtain w1 where w1: "write_byte (glyph b) w = (Ok (), w1)" "writer_wf w1" "color_code w1 = color_code w"
    "column_position w1 = Suc (column_position w)" "row_bytes w1 = (row_bytes w)[column_position w := glyph b]"
    using write_byte_row [of w "glyph b"] Cons.prems by auto
  have eq: "(if is_printable b then write_byte b else write_byte 0xfe) = write_byte (glyph b)" by (simp add: glyph_def)
  obtain w2 where w2: "write_string bs w1 = (Ok (), w2)" "writer_wf w2" "color_code w2 = color_code w1"
    "column_position w2 = column_position w1 + length bs"
    "row_bytes w2 = take (column_position w1) (row_bytes w1) @ map glyph bs @ drop (column_position w1 + length bs) (row_bytes w1)"
    using Cons.IH [OF w1(2)] w1(4) Cons.prems by auto
  have "write_string (b # bs) w = (Ok (), w2)" using w1(1) w2(1) by (simp add: write_string_def eq)
  moreover have "column_position w < length (row_bytes w)" using Cons.prems row_bytes_length by simp
  then have "take (Suc (column_position w)) ((row_bytes w)[column_position w := glyph b]) = take (column_position w) (row_bytes w) @ [glyph b]"
    by (simp add: take_Suc_conv_app_nth)
  ultimately show ?case using w1 w2 by simp
qed (simp add: write_string_def)

lemma unat_of_char: "unat (of_char c :: u8) = (of_char c :: nat)"
proof -
  have "unat (of_nat (of_char c) :: u8) = (of_char c :: nat)"
    using nat_of_char_less_256 [of c] by (simp add: unat_of_nat)
  then show ?thesis by (simp only: of_nat_of_char)
qed

lemma line_feed_text:
  assumes "CHR 0x0A \<notin> set text"
  shows "line_feed \<notin> of_char ` set text"
proof
  assume "line_feed \<in> of_char ` set text"
  then obtain c where "c \<in> set text" "of_char c = (10 :: u8)" by (auto simp: line_feed_def)
  then have "(of_char c :: nat) = of_char (CHR 0x0A)" using unat_of_char [of c] by simp
  then have "c = CHR 0x0A" by (simp only: of_char_eq_iff)
  then show False using assms \<open>c \<in> set text\<close> by simp
qed

lemma print_row:
  assumes "writer_wf w" "column_position w + length text \<le> 80" "CHR 0x0A \<notin> set text"
  shows "\<exists>w'. print text w = (Ok (), w') \<and> writer_wf w' \<and> color_code w' = color_code w
    \<and> column_position w' = column_position w + length text
    \<and> row_bytes w' = take (column_position w) (row_bytes w) @ map (glyph \<circ> of_char) text
        @ drop (column_position w + length text) (row_bytes w)"
  using write_string_row [OF assms(1), of "map of_char text"] line_feed_text [OF assms(3)] assms(2) by (simp add: print_def)

section \<open>Runs of the editor's operations\<close>

lemma on_kernel_Ok: "m (kernel_state sh) = (Ok x, k) \<Longrightarrow> on_kernel m sh = (Ok x, sh\<lparr>kernel_state := k\<rparr>)"
  by (simp add: on_kernel_def)

lemma on_screen_Ok: "m (screen k) = (Ok x, w) \<Longrightarrow> on_screen m k = (Ok x, k\<lparr>screen := w\<rparr>)"
  by (simp add: on_screen_def)

lemma on_ports_Ok: "m (ports k) = (Ok x, l) \<Longrightarrow> on_ports m k = (Ok x, k\<lparr>ports := l\<rparr>)"
  by (simp add: on_ports_def)

lemmas runs_Ok = on_kernel_Ok on_screen_Ok on_ports_Ok

lemma on_kernel_bind: "on_kernel (try_bind m f) sh = try_bind (on_kernel m) (\<lambda>x. on_kernel (f x)) sh"
  by (auto simp: on_kernel_def try_bind_def split: prod.split outcome.split)

lemma prints_blanks:
  "for_each xs (\<lambda>_. on_kernel (on_screen (print '' ''))) = on_kernel (on_screen (print (replicate (length xs) (CHR '' ''))))"
proof (induction xs)
  case Nil
  show ?case by (simp add: fun_eq_iff on_kernel_def on_screen_def print_def write_string_def)
next
  case (Cons x xs)
  have "on_screen (print ('' '' @ replicate (length xs) (CHR '' ''))) =
      try_bind (on_screen (print '' '')) (\<lambda>_. on_screen (print (replicate (length xs) (CHR '' ''))))"
    by (simp add: fun_eq_iff on_screen_print_append del: append.simps)
  then show ?case by (simp add: Cons.IH fun_eq_iff on_kernel_bind)
qed

lemma cursor_column_eq:
  assumes "unat (cursor_position sh) \<le> 65"
  shows "cursor_column sh = (Ok (14 + cursor_position sh), sh)" "unat (14 + cursor_position sh) = 14 + unat (cursor_position sh)"
proof -
  have "of_nat (length get_prompt) = (14 :: u8)" by (simp add: get_prompt_def)
  then show "cursor_column sh = (Ok (14 + cursor_position sh), sh)"
    using assms by (simp add: cursor_column_def checked_add_u8_def)
  show "unat (14 + cursor_position sh) = 14 + unat (cursor_position sh)" using assms by (simp add: unat_word_ariths)
qed

section \<open>Bounds\<close>

definition line :: "('k, 'ev, 'b, 'd) shell_deps \<Rightarrow> ('k, 'b, 'd) shell \<Rightarrow> code_point list" where
  "line deps sh = hs_chars (string_ops deps) (input_buffer sh)"

definition edit_inv :: "('k, 'ev, 'b, 'd) shell_deps \<Rightarrow> ('k, 'b, 'd) shell \<Rightarrow> bool" where
  "edit_inv deps sh \<longleftrightarrow> writer_wf (screen (kernel_state sh))
     \<and> unat (cursor_position sh) = length (line deps sh) \<and> length (utf8 (line deps sh)) \<le> 65
     \<and> length (dq_iter (deque_ops deps) (history sh)) \<le> 16"

definition lawful_deps :: "('k, 'ev, 'b, 'd) shell_deps \<Rightarrow> bool" where
  "lawful_deps deps \<longleftrightarrow> lawful_string INPUT_BUFFER_LEN (string_ops deps) \<and> lawful_deque HISTORY_LEN (deque_ops deps)"

lemma input_buffer_len [simp]: "INPUT_BUFFER_LEN = 65"
  by (simp add: INPUT_BUFFER_LEN_def get_prompt_def buffer_size)

lemma utf8_simps [simp]: "utf8 [] = []" "utf8 (a @ b) = utf8 a @ utf8 b" "utf8 [c] = encode_utf8 c"
  by (simp_all add: utf8_def)

lemma utf8_butlast: "length (utf8 (butlast cs)) \<le> length (utf8 cs)"
  by (cases cs rule: rev_cases) simp_all

lemma length_utf8: "length cs \<le> length (utf8 cs)"
proof (induction cs)
  case (Cons c cs)
  then show ?case by (simp add: utf8_def encode_utf8_def)
qed simp

lemma edit_inv_cursor: "edit_inv deps sh \<Longrightarrow> unat (cursor_position sh) \<le> 65"
  using length_utf8 [of "line deps sh"] by (simp add: edit_inv_def)

lemma lawful_push:
  assumes "lawful_deps deps" "hs_push (string_ops deps) c b = Some b'"
  shows "hs_chars (string_ops deps) b' = hs_chars (string_ops deps) b @ [c]" "length (utf8 (hs_chars (string_ops deps) b')) \<le> 65"
proof -
  have "\<forall>b c. case hs_push (string_ops deps) c b of
      Some b' \<Rightarrow> hs_chars (string_ops deps) b' = hs_chars (string_ops deps) b @ [c] \<and> length (utf8 (hs_chars (string_ops deps) b')) \<le> 65
    | None \<Rightarrow> 65 < length (utf8 (hs_chars (string_ops deps) b @ [c]))"
    using assms(1) unfolding lawful_deps_def lawful_string_def input_buffer_len by blast
  from this [rule_format, of b c]
  show "hs_chars (string_ops deps) b' = hs_chars (string_ops deps) b @ [c]" "length (utf8 (hs_chars (string_ops deps) b')) \<le> 65"
    using assms(2) by auto
qed

lemma lawful_shrink:
  assumes "lawful_deps deps"
  shows "hs_chars (string_ops deps) (hs_pop (string_ops deps) b) = butlast (hs_chars (string_ops deps) b)"
    "hs_chars (string_ops deps) (hs_clear (string_ops deps) b) = []" "hs_chars (string_ops deps) (hs_new (string_ops deps)) = []"
  using assms by (simp_all add: lawful_deps_def lawful_string_def)

text \<open>The push onto the history, after the last element of a full one is gone, always succeeds.\<close>

lemma history_push:
  assumes "lawful_deps deps" "length (dq_iter (deque_ops deps) h) \<le> 16"
  obtains h' where "dq_push_front (deque_ops deps) b
      (if dq_is_full (deque_ops deps) h then dq_pop_back (deque_ops deps) h else h) = Some h'"
    "dq_iter (deque_ops deps) h' = b # take 15 (dq_iter (deque_ops deps) h)"
proof -
  let ?h = "if dq_is_full (deque_ops deps) h then dq_pop_back (deque_ops deps) h else h"
  have law: "lawful_deque 16 (deque_ops deps)" using assms(1) by (simp add: lawful_deps_def HISTORY_LEN_def)
  then have short: "dq_iter (deque_ops deps) ?h = take 15 (dq_iter (deque_ops deps) h)"
    using assms(2) by (auto simp: lawful_deque_def butlast_conv_take)
  have push: "case dq_push_front (deque_ops deps) b ?h of
      Some d' \<Rightarrow> dq_iter (deque_ops deps) d' = b # dq_iter (deque_ops deps) ?h
    | None \<Rightarrow> 16 \<le> length (dq_iter (deque_ops deps) ?h)"
    using law unfolding lawful_deque_def by blast
  then obtain h' where h': "dq_push_front (deque_ops deps) b ?h = Some h'"
    unfolding short by (cases "dq_push_front (deque_ops deps) b ?h") auto
  then show thesis using that [OF h'] push short by simp
qed

section \<open>Steps\<close>

lemma set_cursor_ok:
  obtains l where "set_cursor_position x y log = (Ok (), l)" "cursor_address (crtc_after d l) = 80 * unat y + unat x"
  using cursor_moves by blast

lemma bottom_row [simp]: "of_nat BUFFER_HEIGHT - 1 = (24 :: u8)"
  by (simp add: buffer_size)

lemma press_character_run:
  assumes inv: "edit_inv deps sh" and law: "lawful_deps deps" and push: "hs_push (string_ops deps) c (input_buffer sh) = Some b"
    and shown: "print (encode_utf8 c) (screen (kernel_state sh)) = (Ok (), w)" "writer_wf w"
  obtains l sh' where "press_character deps c sh = (Ok False, sh')" "edit_inv deps sh'" "line deps sh' = line deps sh @ [c]"
    "screen (kernel_state sh') = w" "ports (kernel_state sh') = l"
    "cursor_address (crtc_after d l) = 80 * 24 + 14 + length (line deps sh')"
proof -
  let ?p = "cursor_position sh + 1"
  let ?sh1 = "sh\<lparr>input_buffer := b, cursor_position := ?p, kernel_state := (kernel_state sh)\<lparr>screen := w\<rparr>\<rparr>"
  note b = lawful_push [OF law push]
  have le: "unat (cursor_position sh) \<le> 65" using edit_inv_cursor [OF inv] .
  then have add: "unat ?p = Suc (unat (cursor_position sh))" by (simp add: unat_word_ariths)
  have len: "unat ?p = length (hs_chars (string_ops deps) b)"
    using inv b(1) add by (simp add: edit_inv_def line_def)
  then have le': "unat (cursor_position ?sh1) \<le> 65" using length_utf8 [of "hs_chars (string_ops deps) b"] b(2) by simp
  obtain l where l: "set_cursor_position (14 + ?p) 24 (ports (kernel_state sh)) = (Ok (), l)"
    "cursor_address (crtc_after d l) = 80 * unat (24 :: u8) + unat (14 + ?p)"
    by (rule set_cursor_ok)
  let ?sh = "?sh1\<lparr>kernel_state := (kernel_state sh)\<lparr>screen := w, ports := l\<rparr>\<rparr>"
  have "press_character deps c sh = (Ok False, ?sh)"
    using push shown(1) l(1) le cursor_column_eq(1) [OF le']
    by (simp add: press_character_def checked_add_u8_def move_cursor_def runs_Ok)
  moreover have "edit_inv deps ?sh" using inv shown(2) b(2) len by (simp add: edit_inv_def line_def)
  moreover have "unat (14 + ?p) = 14 + unat ?p" using cursor_column_eq(2) [OF le'] by simp
  ultimately show thesis using that [of ?sh l] l(2) b(1) len by (simp add: line_def)
qed

lemma set_column_position_eq: "set_column_position p w = (Ok (), w\<lparr>column_position := min (unat p) 80\<rparr>)"
  by (simp add: set_column_position_def buffer_size)

lemma row_bytes_column [simp]: "row_bytes (w\<lparr>column_position := n\<rparr>) = row_bytes w"
  by (simp add: row_bytes_def)

lemma press_backspace_run:
  assumes inv: "edit_inv deps sh" and law: "lawful_deps deps"
  obtains l sh' where "press_backspace deps sh = (Ok False, sh')" "edit_inv deps sh'"
    "line deps sh' = (if kb_is_ctrl (keyboard_ops deps) (keyboard sh) then [] else butlast (line deps sh))"
    "column_position (screen (kernel_state sh')) = 14 + length (line deps sh')"
    "row_bytes (screen (kernel_state sh')) = take (14 + length (line deps sh')) (row_bytes (screen (kernel_state sh)))
      @ replicate (66 - length (line deps sh')) 32"
    "ports (kernel_state sh') = l" "cursor_address (crtc_after d l) = 80 * 24 + 14 + length (line deps sh')"
proof -
  let ?ctrl = "kb_is_ctrl (keyboard_ops deps) (keyboard sh)"
  define b where "b = (if ?ctrl then hs_clear (string_ops deps) (input_buffer sh) else hs_pop (string_ops deps) (input_buffer sh))"
  define p where "p = (if ?ctrl then 0 else saturating_sub_u8 (cursor_position sh) 1)"
  define cs where "cs = hs_chars (string_ops deps) b"
  let ?sh1 = "sh\<lparr>input_buffer := b, cursor_position := p\<rparr>"
  have cs: "cs = (if ?ctrl then [] else butlast (line deps sh))"
    using lawful_shrink [OF law] by (simp add: cs_def b_def line_def)
  have p: "unat p = length cs"
  proof (cases "cursor_position sh = 0")
    case False
    then have "1 \<le> cursor_position sh" by (simp add: word_le_nat_alt unat_gt_0 Suc_leI)
    then have "unat (saturating_sub_u8 (cursor_position sh) 1) = unat (cursor_position sh) - 1"
      by (simp add: saturating_sub_u8_def unat_sub)
    then show ?thesis using inv cs by (simp add: p_def edit_inv_def)
  qed (use inv cs in \<open>auto simp: p_def edit_inv_def saturating_sub_u8_def\<close>)
  have small: "length (utf8 cs) \<le> 65" using inv cs utf8_butlast [of "line deps sh"] by (auto simp: edit_inv_def)
  then have n: "length cs \<le> 65" using length_utf8 [of cs] by simp
  then have le: "unat (cursor_position ?sh1) \<le> 65" using p by simp
  note col = cursor_column_eq [OF le]
  let ?w = "(screen (kernel_state sh))\<lparr>column_position := 14 + length cs\<rparr>"
  have wf: "writer_wf ?w" using inv n by (simp add: edit_inv_def writer_wf_def buffer_size)
  obtain w where w: "print (replicate (66 - length cs) (CHR '' '')) ?w = (Ok (), w)" "writer_wf w"
    "row_bytes w = take (14 + length cs) (row_bytes (screen (kernel_state sh))) @ replicate (66 - length cs) (glyph 32)
       @ drop 80 (row_bytes (screen (kernel_state sh)))"
    using print_row [OF wf, of "replicate (66 - length cs) (CHR '' '')"] n by auto
  obtain l where l: "set_cursor_position (14 + p) 24 (ports (kernel_state sh)) = (Ok (), l)"
    "cursor_address (crtc_after d l) = 80 * unat (24 :: u8) + unat (14 + p)"
    by (rule set_cursor_ok)
  let ?w' = "w\<lparr>column_position := 14 + length cs\<rparr>"
  let ?sh = "?sh1\<lparr>kernel_state := (kernel_state sh)\<lparr>screen := ?w', ports := l\<rparr>\<rparr>"
  have "length get_prompt = 14" by (simp add: get_prompt_def)
  moreover have "erase deps sh = (Ok (), ?sh1)" by (simp add: erase_def b_def p_def)
  ultimately have "press_backspace deps sh = (Ok False, ?sh)"
    using col w(1) l(1) p n
    by (simp add: press_backspace_def prints_blanks move_cursor_def runs_Ok set_column_position_eq buffer_size)
  moreover have "edit_inv deps ?sh"
    using inv w(2) n p small by (simp add: edit_inv_def line_def writer_wf_def buffer_size cs_def)
  moreover have "row_bytes w = take (14 + length cs) (row_bytes (screen (kernel_state sh))) @ replicate (66 - length cs) 32"
    using w(3) row_bytes_length [of "screen (kernel_state sh)"] inv
    by (simp add: edit_inv_def glyph_def is_printable_def)
  ultimately show thesis
    using that [of ?sh l] l(2) col(2) p cs by (simp add: line_def cs_def)
qed

lemma print_prompt_run:
  assumes "fresh_line (screen k)"
  obtains l w where "print_prompt k = (Ok (), k\<lparr>screen := w, ports := l\<rparr>)" "writer_wf w" "column_position w = 14"
    "row_bytes w = map of_char get_prompt @ replicate 66 32" "cursor_address (crtc_after d l) = 80 * 24 + 14"
proof -
  have wf: "writer_wf (screen k)" and col: "column_position (screen k) = 0"
    and row: "row_bytes (screen k) = replicate 80 32"
    using assms by (simp_all add: fresh_line_def row_bytes_def)
  have prompt: "length get_prompt = 14" "CHR 0x0A \<notin> set get_prompt"
    "map (glyph \<circ> of_char) get_prompt = map of_char get_prompt"
    by (simp_all add: get_prompt_def glyph_def is_printable_def line_feed_def)
  obtain w where w: "print get_prompt (screen k) = (Ok (), w)" "writer_wf w" "column_position w = 14"
    "row_bytes w = map of_char get_prompt @ replicate 66 32"
    using print_row [OF wf, of get_prompt] prompt col row by auto
  obtain l where l: "set_cursor_position 14 24 (ports k) = (Ok (), l)"
    "cursor_address (crtc_after d l) = 80 * unat (24 :: u8) + unat (14 :: u8)"
    by (rule set_cursor_ok)
  have "print_prompt k = (Ok (), k\<lparr>screen := w, ports := l\<rparr>)"
    using w(1) l(1) prompt(1) by (simp add: print_prompt_def runs_Ok)
  then show thesis using that w l(2) by simp
qed

text \<open>The end of Enter: a new prompt, and the line goes to the history.\<close>

lemma press_enter_prompts:
  assumes inv: "edit_inv deps sh" and law: "lawful_deps deps" and fresh: "fresh_line (screen k)"
    and start: "on_kernel (on_screen (println [])) sh = (Ok (), sh\<lparr>kernel_state := k1\<rparr>)"
    and exec: "parse_and_execute (escape_unicode deps) (line deps sh) k1 = (Ok ended, k)" "\<not> ended"
  obtains sh' where "press_enter deps sh = (Ok False, sh')" "edit_inv deps sh'" "line deps sh' = []"
    "column_position (screen (kernel_state sh')) = 14"
    "row_bytes (screen (kernel_state sh')) = map of_char get_prompt @ replicate 66 32"
    "cursor_address (crtc_after d (ports (kernel_state sh'))) = 80 * 24 + 14"
proof -
  obtain l w where p: "print_prompt k = (Ok (), k\<lparr>screen := w, ports := l\<rparr>)" "writer_wf w" "column_position w = 14"
    "row_bytes w = map of_char get_prompt @ replicate 66 32" "cursor_address (crtc_after d l) = 80 * 24 + 14"
    by (rule print_prompt_run [OF fresh])
  obtain h where h: "dq_push_front (deque_ops deps) (input_buffer sh) (if dq_is_full (deque_ops deps) (history sh)
      then dq_pop_back (deque_ops deps) (history sh) else history sh) = Some h"
    "dq_iter (deque_ops deps) h = input_buffer sh # take 15 (dq_iter (deque_ops deps) (history sh))"
    using inv by (auto simp: edit_inv_def intro: history_push [OF law])
  let ?sh = "sh\<lparr>kernel_state := k\<lparr>screen := w, ports := l\<rparr>, history := h,
      input_buffer := hs_clear (string_ops deps) (input_buffer sh), cursor_position := 0\<rparr>"
  have "press_enter deps sh = (Ok False, ?sh)"
    using start exec p(1) h(1) \<open>\<not> ended\<close>
    by (cases "dq_is_full (deque_ops deps) (history sh)") (simp_all add: press_enter_def on_kernel_Ok Let_def unwrap_def line_def)
  moreover have "edit_inv deps ?sh"
    using lawful_shrink(2) [OF law] h(2) p(2) by (simp add: edit_inv_def line_def)
  ultimately show thesis using that lawful_shrink(2) [OF law] p by (simp add: line_def)
qed

text \<open>
  Enter ends the line and executes it. If that panics, so does the editor; if it ends the shell, the
  editor returns; otherwise there is a new prompt and an empty line, and the old one is in the
  history.
\<close>

lemma press_enter_run:
  assumes inv: "edit_inv deps sh" and law: "lawful_deps deps" and run: "press_enter deps sh = (r, sh')"
  obtains
    (panics) p k k' where "r = Panic p" "fresh_line (screen k)"
      "parse_and_execute (escape_unicode deps) (line deps sh) k = (Panic p, k')"
  | (ends) "r = Ok True"
  | (goes_on) l where "r = Ok False" "edit_inv deps sh'" "line deps sh' = []"
      "column_position (screen (kernel_state sh')) = 14"
      "row_bytes (screen (kernel_state sh')) = map of_char get_prompt @ replicate 66 32"
      "ports (kernel_state sh') = l" "cursor_address (crtc_after d l) = 80 * 24 + 14"
proof -
  let ?k = "kernel_state sh"
  have wf: "writer_wf (screen ?k)" using inv by (simp add: edit_inv_def)
  obtain w where w: "println [] (screen ?k) = (Ok (), w)" "fresh_line w" using println_ok [OF wf] by blast
  let ?k1 = "?k\<lparr>screen := w\<rparr>"
  have "length (utf8 (line deps sh)) < usize_limit" using inv by (simp add: edit_inv_def usize_limit_def)
  note keeps = keeps_line_parse_and_execute [OF this, of "escape_unicode deps"]
  obtain re k2 where exec: "parse_and_execute (escape_unicode deps) (line deps sh) ?k1 = (re, k2)" by fastforce
  have start: "on_kernel (on_screen (println [])) sh = (Ok (), sh\<lparr>kernel_state := ?k1\<rparr>)" using w(1) by (simp add: runs_Ok)
  have "is_panic re \<or> fresh_line (screen k2) \<and> (\<exists>x. re = Ok x)"
    using keeps_line_run [OF keeps _ exec] w(2) by simp
  then consider p where "re = Panic p" | "re = Ok True" | "re = Ok False" "fresh_line (screen k2)" by (cases re) auto
  then show thesis
  proof cases
    case (1 p)
    have "r = Panic p" using run start exec 1 by (simp add: press_enter_def on_kernel_def line_def)
    then show thesis using panics [of p ?k1 k2] w(2) exec 1 by simp
  next
    case 2
    then have "r = Ok True"
      using run start exec by (simp add: press_enter_def on_kernel_def on_ports_def disable_cursor_def out_def line_def)
    then show thesis using ends by simp
  next
    case 3
    have "parse_and_execute (escape_unicode deps) (line deps sh) ?k1 = (Ok False, k2)" using exec 3(1) by simp
    then obtain sh1 where s: "press_enter deps sh = (Ok False, sh1)" "edit_inv deps sh1" "line deps sh1 = []"
      "column_position (screen (kernel_state sh1)) = 14"
      "row_bytes (screen (kernel_state sh1)) = map of_char get_prompt @ replicate 66 32"
      "cursor_address (crtc_after d (ports (kernel_state sh1))) = 80 * 24 + 14"
      by (rule press_enter_prompts [OF inv law 3(2) start]) simp
    then have "r = Ok False" "sh' = sh1" using run by simp_all
    then show thesis using goes_on [OF _ _ _ _ _ refl] s by simp
  qed
qed

section \<open>The invariant\<close>

lemma print_encoded:
  assumes "writer_wf w"
  obtains w' where "print (encode_utf8 c) w = (Ok (), w')" "writer_wf w'"
  using print_ok [OF assms] by blast

text \<open>A key press keeps the bounds; only the execution of a command can panic.\<close>

lemma handle_key_inv:
  assumes inv: "edit_inv deps sh" and law: "lawful_deps deps" and run: "handle_key deps key sh = (r, sh')"
  obtains (panics) p k k' where "r = Panic p" "key = Unicode 10" "fresh_line (screen k)"
      "parse_and_execute (escape_unicode deps) (line deps sh) k = (Panic p, k')"
  | (ends) "r = Ok True" | (goes_on) "r = Ok False" "edit_inv deps sh'"
proof -
  consider "key = RawKey" | "key = Unicode 10" | "key = Unicode 8" | c where "key = Unicode c" "c \<noteq> 10" "c \<noteq> 8"
    by (cases key) auto
  then show thesis
  proof cases
    case 1
    then show thesis using run inv goes_on by (simp add: handle_key_def)
  next
    case 2
    then have "press_enter deps sh = (r, sh')" using run by (simp add: handle_key_def)
    from inv law this show thesis
      by (rule press_enter_run) (use panics 2 in blast, use ends in blast, use goes_on in blast)
  next
    case 3
    then have "press_backspace deps sh = (r, sh')" using run by (simp add: handle_key_def)
    then show thesis using press_backspace_run [OF inv law] goes_on by (metis prod.inject)
  next
    case 4
    then have run: "press_character deps c sh = (r, sh')" using run by (simp add: handle_key_def)
    show thesis
    proof (cases "hs_push (string_ops deps) c (input_buffer sh)")
      case None
      then show thesis using run inv goes_on by (simp add: press_character_def)
    next
      case (Some b)
      have "writer_wf (screen (kernel_state sh))" using inv by (simp add: edit_inv_def)
      then obtain w where w: "print (encode_utf8 c) (screen (kernel_state sh)) = (Ok (), w)" "writer_wf w"
        by (rule print_encoded)
      show thesis using press_character_run [OF inv law Some w] run goes_on by (metis prod.inject)
    qed
  qed
qed

lemma edit_inv_keyboard [simp]: "edit_inv deps (sh\<lparr>keyboard := kb\<rparr>) = edit_inv deps sh" "line deps (sh\<lparr>keyboard := kb\<rparr>) = line deps sh"
  by (simp_all add: edit_inv_def line_def)

lemma handle_scancode_cases:
  assumes "handle_scancode deps sc sh = (r, sh')"
  obtains kb where "r = Ok False" "sh' = sh\<lparr>keyboard := kb\<rparr>"
  | kb ev kb' key where "kb_process_keyevent (keyboard_ops deps) ev kb' = (Some key, kb)"
      "handle_key deps key (sh\<lparr>keyboard := kb\<rparr>) = (r, sh')"
  using assms by (auto simp: handle_scancode_def split: prod.splits sum.splits option.splits)

lemma shell_start_run:
  assumes "fresh_line (screen k)" "lawful_deps deps"
  obtains l sh where "shell_start deps k = (Ok (), sh)" "edit_inv deps sh" "line deps sh = []"
    "column_position (screen (kernel_state sh)) = 14"
    "row_bytes (screen (kernel_state sh)) = map of_char get_prompt @ replicate 66 32"
    "ports (kernel_state sh) = l" "cursor_address (crtc_after d l) = 80 * 24 + 14"
proof -
  obtain l0 where l0: "enable_cursor (port_in deps) 13 15 (ports k) = (Ok (), l0)"
    by (simp add: enable_cursor_def out_def Let_def)
  obtain l w where p: "print_prompt (k\<lparr>ports := l0\<rparr>) = (Ok (), k\<lparr>screen := w, ports := l\<rparr>)" "writer_wf w"
    "column_position w = 14" "row_bytes w = map of_char get_prompt @ replicate 66 32"
    "cursor_address (crtc_after d l) = 80 * 24 + 14"
    using print_prompt_run [of "k\<lparr>ports := l0\<rparr>" d] assms(1) by auto
  let ?sh = "\<lparr>keyboard = kb_new (keyboard_ops deps), history = dq_new (deque_ops deps),
        input_buffer = hs_new (string_ops deps), cursor_position = 0, kernel_state = k\<lparr>screen := w, ports := l\<rparr>\<rparr>"
  have "shell_start deps k = (Ok (), ?sh)" using l0 p(1) by (simp add: shell_start_def runs_Ok)
  moreover have "line deps ?sh = []" using lawful_shrink(3) [OF assms(2)] by (simp add: line_def)
  moreover have "dq_iter (deque_ops deps) (dq_new (deque_ops deps)) = []"
    using assms(2) by (simp add: lawful_deps_def lawful_deque_def)
  ultimately show thesis using that [of ?sh l] p by (simp add: edit_inv_def)
qed

section \<open>The line on the screen\<close>

text \<open>
  \<open>line_shown\<close>: the bottom row is the prompt, the characters of the input and blanks; the next
  character goes behind the input, and that is where the hardware cursor is. This holds for ASCII
  input, which is what a US keyboard layout decodes to.
\<close>

definition line_shown :: "('k, 'ev, 'b, 'd) shell_deps \<Rightarrow> crtc \<Rightarrow> ('k, 'b, 'd) shell \<Rightarrow> bool" where
  "line_shown deps d sh \<longleftrightarrow>
     (let cs = line deps sh; k = kernel_state sh in
      (\<forall>c \<in> set cs. c < 128 \<and> c \<noteq> 10)
      \<and> column_position (screen k) = 14 + length cs
      \<and> row_bytes (screen k) = map of_char get_prompt @ map (glyph \<circ> of_nat) cs @ replicate (66 - length cs) 32
      \<and> cursor_address (crtc_after d (ports k)) = 80 * 24 + 14 + length cs)"

definition ascii_layout :: "('k, 'ev) keyboard_ops \<Rightarrow> bool" where
  "ascii_layout ops \<longleftrightarrow> (\<forall>ev kb c kb'. kb_process_keyevent ops ev kb = (Some (Unicode c), kb') \<longrightarrow> c < 128)"

lemma edit_inv_length: "edit_inv deps sh \<Longrightarrow> length (line deps sh) \<le> 65"
  using length_utf8 [of "line deps sh"] by (simp add: edit_inv_def)

lemma glyph_ascii: "c < 128 \<Longrightarrow> of_char (char_of c :: char) = (of_nat c :: u8)"
proof -
  assume "c < 128"
  then have "(of_char (char_of c :: char) :: nat) = c" by simp
  then show ?thesis by (metis of_nat_of_char)
qed

lemma line_shown_backspace:
  assumes inv: "edit_inv deps sh" and law: "lawful_deps deps" and shown: "line_shown deps d sh"
    and run: "press_backspace deps sh = (r, sh')"
  shows "r = Ok False \<and> line_shown deps d sh'"
proof -
  obtain l sh1 where s: "press_backspace deps sh = (Ok False, sh1)"
    "line deps sh1 = (if kb_is_ctrl (keyboard_ops deps) (keyboard sh) then [] else butlast (line deps sh))"
    "column_position (screen (kernel_state sh1)) = 14 + length (line deps sh1)"
    "row_bytes (screen (kernel_state sh1)) = take (14 + length (line deps sh1)) (row_bytes (screen (kernel_state sh)))
      @ replicate (66 - length (line deps sh1)) 32"
    "ports (kernel_state sh1) = l" "cursor_address (crtc_after d l) = 80 * 24 + 14 + length (line deps sh1)"
    by (rule press_backspace_run [OF inv law])
  define cs where "cs = line deps sh1"
  have pre: "cs = take (length cs) (line deps sh)" using s(2) by (auto simp: cs_def butlast_conv_take)
  have le: "length cs \<le> length (line deps sh)" using pre by (metis length_take min.cobounded1 min.commute)
  have "length get_prompt = 14" by (simp add: get_prompt_def)
  moreover have "row_bytes (screen (kernel_state sh)) = map of_char get_prompt @ map (glyph \<circ> of_nat) (line deps sh)
      @ replicate (66 - length (line deps sh)) 32"
    using shown by (simp add: line_shown_def Let_def)
  ultimately have "take (14 + length cs) (row_bytes (screen (kernel_state sh))) =
      map of_char get_prompt @ map (glyph \<circ> of_nat) (take (length cs) (line deps sh))"
    using le by (simp add: take_map)
  moreover have "\<forall>c \<in> set cs. c < 128 \<and> c \<noteq> 10"
    using shown pre by (metis (no_types, lifting) in_set_takeD line_shown_def)
  ultimately have "line_shown deps d sh1" using s pre by (simp add: line_shown_def Let_def cs_def)
  then show ?thesis using run s(1) by simp
qed

lemma line_shown_character:
  assumes inv: "edit_inv deps sh" and law: "lawful_deps deps" and shown: "line_shown deps d sh"
    and c: "c < 128" "c \<noteq> 10" and run: "press_character deps c sh = (r, sh')"
  shows "r = Ok False \<and> line_shown deps d sh'"
proof (cases "hs_push (string_ops deps) c (input_buffer sh)")
  case None
  then show ?thesis using run shown by (simp add: press_character_def)
next
  case (Some b)
  let ?w = "screen (kernel_state sh)" and ?n = "length (line deps sh)"
  have wf: "writer_wf ?w" using inv by (simp add: edit_inv_def)
  have row: "row_bytes ?w = map of_char get_prompt @ map (glyph \<circ> of_nat) (line deps sh) @ replicate (66 - ?n) 32"
    and col: "column_position ?w = 14 + ?n" using shown by (simp_all add: line_shown_def Let_def)
  have n: "?n \<le> 65" using edit_inv_length [OF inv] .
  have prompt: "length get_prompt = 14" by (simp add: get_prompt_def)
  have enc: "encode_utf8 c = [char_of c]" using c(1) by (simp add: encode_utf8_def)
  have "(of_char (CHR 0x0A) :: nat) \<noteq> of_char (char_of c :: char)" using c by simp
  then have "CHR 0x0A \<noteq> char_of c" by metis
  then obtain w where w: "print (encode_utf8 c) ?w = (Ok (), w)" "writer_wf w" "column_position w = 14 + ?n + 1"
    "row_bytes w = take (14 + ?n) (row_bytes ?w) @ [glyph (of_nat c)] @ drop (14 + ?n + 1) (row_bytes ?w)"
    using print_row [OF wf, of "[char_of c]"] enc col n glyph_ascii [OF c(1)] by auto
  obtain l sh1 where s: "press_character deps c sh = (Ok False, sh1)" "line deps sh1 = line deps sh @ [c]"
    "screen (kernel_state sh1) = w" "ports (kernel_state sh1) = l"
    "cursor_address (crtc_after d l) = 80 * 24 + 14 + length (line deps sh1)"
    by (rule press_character_run [OF inv law Some w(1,2)])
  have "row_bytes w = map of_char get_prompt @ map (glyph \<circ> of_nat) (line deps sh @ [c]) @ replicate (65 - ?n) 32"
    using w(4) row prompt n by (simp add: drop_replicate)
  then have "line_shown deps d sh1" using s w(3) shown c by (auto simp: line_shown_def Let_def)
  then show ?thesis using run s(1) by simp
qed

lemma line_shown_key:
  assumes inv: "edit_inv deps sh" and law: "lawful_deps deps" and shown: "line_shown deps d sh"
    and ascii: "\<And>c. key = Unicode c \<Longrightarrow> c < 128" and run: "handle_key deps key sh = (Ok False, sh')"
  shows "line_shown deps d sh'"
proof -
  consider "key = RawKey" | "key = Unicode 10" | "key = Unicode 8" | c where "key = Unicode c" "c \<noteq> 10" "c \<noteq> 8"
    by (cases key) auto
  then show ?thesis
  proof cases
    case 1
    then show ?thesis using run shown by (simp add: handle_key_def)
  next
    case 2
    then have enter: "press_enter deps sh = (Ok False, sh')" using run by (simp add: handle_key_def)
    from inv law enter show ?thesis
      by (rule press_enter_run [where d = d]) (simp_all add: line_shown_def Let_def)
  next
    case 3
    then show ?thesis using run line_shown_backspace [OF inv law shown] by (simp add: handle_key_def)
  next
    case 4
    then show ?thesis using run line_shown_character [OF inv law shown ascii [OF 4(1)]] by (simp add: handle_key_def)
  qed
qed

lemma line_shown_keyboard [simp]: "line_shown deps d (sh\<lparr>keyboard := kb\<rparr>) = line_shown deps d sh"
  by (simp add: line_shown_def)

section \<open>Runs of the shell\<close>

lemma scancodes_inv:
  assumes law: "lawful_deps deps"
  shows "edit_inv deps sh \<Longrightarrow> handle_scancodes deps scancodes sh = (r, sh') \<Longrightarrow>
    r = Ok False \<and> edit_inv deps sh' \<or> r = Ok True
    \<or> (\<exists>p input k k'. r = Panic p \<and> length (utf8 input) \<le> 65 \<and> fresh_line (screen k)
         \<and> parse_and_execute (escape_unicode deps) input k = (Panic p, k'))"
proof (induction scancodes arbitrary: sh)
  case (Cons sc scancodes)
  obtain r1 sh1 where step: "handle_scancode deps sc sh = (r1, sh1)" by fastforce
  have small: "length (utf8 (line deps sh)) \<le> 65" using Cons.prems(1) by (simp add: edit_inv_def)
  have go_on: "r1 = Ok False \<Longrightarrow> handle_scancodes deps scancodes sh1 = (r, sh')" using Cons.prems(2) by (simp add: step try_bind_def)
  show ?case
    using step
  proof (cases rule: handle_scancode_cases)
    case (1 kb)
    then show ?thesis using Cons.IH [OF _ go_on] Cons.prems(1) by simp
  next
    case (2 kb ev kb' key)
    have inv: "edit_inv deps (sh\<lparr>keyboard := kb\<rparr>)" using Cons.prems(1) by simp
    from inv law 2(2) show ?thesis
    proof (rule handle_key_inv)
      fix p k k'
      assume "r1 = Panic p" "fresh_line (screen k)"
        "parse_and_execute (escape_unicode deps) (line deps (sh\<lparr>keyboard := kb\<rparr>)) k = (Panic p, k')"
      then show ?thesis using Cons.prems(2) step small by auto
    next
      assume "r1 = Ok True"
      then show ?thesis using Cons.prems(2) by (simp add: step try_bind_def)
    next
      assume "r1 = Ok False" "edit_inv deps sh1"
      then show ?thesis using Cons.IH [OF _ go_on] by simp
    qed
  qed
qed simp

lemma scancodes_shown:
  assumes law: "lawful_deps deps" and ascii: "ascii_layout (keyboard_ops deps)"
  shows "edit_inv deps sh \<Longrightarrow> line_shown deps d sh \<Longrightarrow> handle_scancodes deps scancodes sh = (Ok False, sh') \<Longrightarrow>
    line_shown deps d sh'"
proof (induction scancodes arbitrary: sh)
  case (Cons sc scancodes)
  obtain sh1 where step: "handle_scancode deps sc sh = (Ok False, sh1)" and rest: "handle_scancodes deps scancodes sh1 = (Ok False, sh')"
    using Cons.prems(3) by (auto elim!: try_bind_OkE split: if_splits)
  show ?case
    using step
  proof (cases rule: handle_scancode_cases)
    case (1 kb)
    then show ?thesis using Cons.IH [of "sh\<lparr>keyboard := kb\<rparr>"] Cons.prems rest by simp
  next
    case (2 kb ev kb' key)
    have inv: "edit_inv deps (sh\<lparr>keyboard := kb\<rparr>)" "line_shown deps d (sh\<lparr>keyboard := kb\<rparr>)" using Cons.prems by simp_all
    have "c < 128" if "key = Unicode c" for c using 2(1) that ascii unfolding ascii_layout_def by blast
    then have "line_shown deps d sh1" using line_shown_key [OF inv(1) law inv(2) _ 2(2)] by blast
    moreover have "edit_inv deps sh1" using inv(1) law 2(2) by (rule handle_key_inv) simp_all
    ultimately show ?thesis using Cons.IH rest by blast
  qed
qed simp

end
