(* ===== verification/Shell_Correct.thy ===== *)
theory Shell_Correct
  imports Shell_Line
begin

text \<open>The properties of the shell.\<close>

text \<open>The kernel after booting, with an empty screen.\<close>

definition example_kernel :: kernel where
  "example_kernel = \<lparr>screen = writer_init blank_screen, ports = [], vfs_state = booted\<rparr>"

lemma example_wf: "writer_wf (screen example_kernel)" "displays (screen example_kernel) \<lparr>t_rows = blank_screen, t_column = 0\<rparr>"
  using displays_init by (simp_all add: example_kernel_def displays_def)

section \<open>Commands\<close>

text \<open>Text printed in one colour on the terminal.\<close>

definition term_text :: "color_code \<Rightarrow> string \<Rightarrow> terminal \<Rightarrow> terminal" where
  "term_text c text t = foldl (term_byte c) t (map of_char text)"

lemma displays_println:
  assumes "displays w t"
  obtains w' where "println text w = (Ok (), w')" "color_code w' = color_code w"
    "displays w' (term_text (color_code w) (text @ [CHR 0x0A]) t)"
  using displays_string [OF assms, of "map of_char (text @ [CHR 0x0A])"] by (auto simp: println_def print_def term_text_def)

lemma displays_color_println:
  assumes "displays w t"
  obtains w' where "with_color c (println text) w = (Ok (), w')" "color_code w' = color_code w"
    "displays w' (term_text c (text @ [CHR 0x0A]) t)"
proof -
  have "displays (w\<lparr>color_code := c\<rparr>) t" using assms by (simp add: displays_def writer_wf_def buffer_size)
  then obtain w' where w': "println text (w\<lparr>color_code := c\<rparr>) = (Ok (), w')"
    "displays w' (term_text c (text @ [CHR 0x0A]) t)"
    by (rule displays_println) simp
  show thesis
    by (rule that [of "w'\<lparr>color_code := color_code w\<rparr>"])
      (use w' in \<open>auto simp: with_color_ok displays_def writer_wf_def\<close>)
qed

text \<open>
  C30: a line whose command does not touch the file system never panics. It leaves the virtual file
  system and the cursor as they were and the screen at the start of an empty row, in the old colour;
  it ends the shell exactly if the command is \<open>exit\<close>.
\<close>

theorem quiet_commands:
  assumes "writer_wf (screen k)" "is_ascii l" "length l < usize_limit"
    "tokens l = [] \<or> hd (tokens l) \<notin> {''ls'', ''cat'', ''touch'', ''mkdir''}"
  shows "\<exists>k'. parse_and_execute esc (map of_char l) k = (Ok (tokens l \<noteq> [] \<and> hd (tokens l) = ''exit''), k')
    \<and> vfs_state k' = vfs_state k \<and> ports k' = ports k \<and> fresh_line (screen k')
    \<and> color_code (screen k') = color_code (screen k)"
proof -
  obtain k1 where k1: "on_screen (with_color (color_into_code LightGray)
      (println (''input: '' @ debug_str esc (map of_char l)))) k = (Ok (), k1)" "fresh_line (screen k1)" "screen_only k k1"
    using settles_color_println [unfolded settles_def] assms(1) by fastforce
  then obtain k2 where k2: "on_screen (with_color (color_into_code LightGray)
      (println (''args: '' @ debug_args (tokens l)))) k1 = (Ok (), k2)" "fresh_line (screen k2)" "screen_only k1 k2"
    using settles_color_println [unfolded settles_def] unfolding fresh_line_def by fastforce
  have run: "parse_and_execute esc (map of_char l) k = execute (tokens l) k2"
    using k1(1) k2(1) assms(2,3) by (simp add: parse_and_execute_def utf8_ascii parse_arguments_ascii)
  have wf: "writer_wf (screen k2)" using k2(2) by (simp add: fresh_line_def)
  consider "tokens l = []" | args where "tokens l = ''exit'' # args"
    | command args where "tokens l = command # args" "command \<noteq> ''exit''" by (cases "tokens l") auto
  then have "\<exists>b k'. execute (tokens l) k2 = (Ok b, k') \<and> fresh_line (screen k') \<and> screen_only k2 k'"
  proof cases
    case (3 command args)
    then have "settles (execute (command # args))" using execute_quiet assms(4) by (simp add: uses_vfs_def)
    then show ?thesis using wf 3(1) unfolding settles_def by auto
  qed (use k2(2) in \<open>auto simp: execute_def screen_only_def\<close>)
  then obtain b k' where k': "execute (tokens l) k2 = (Ok b, k')" "fresh_line (screen k')" "screen_only k2 k'" by blast
  then show ?thesis
    using run execute_result [OF k'(1)] k1(3) k2(3) by (simp add: screen_only_def)
qed

theorem quiet_commands_witness:
  "\<exists>k'. parse_and_execute encode_utf8 (map of_char ''uname -a'') example_kernel = (Ok False, k')
     \<and> vfs_state k' = booted \<and> fresh_line (screen k')"
proof -
  have h: "is_ascii ''uname -a''" "length ''uname -a'' < usize_limit" "tokens ''uname -a'' = [''uname'', ''-a'']" by code_simp+
  show ?thesis using quiet_commands [OF example_wf(1) h(1,2), of encode_utf8] h(3) by (auto simp: example_kernel_def)
qed

text \<open>
  C31: \<open>echo\<close>. Given any arguments without quotes, written as a command line with quotes where needed,
  the shell shows the line, the arguments it read, and then exactly the arguments with one blank in
  between.
\<close>

theorem echo_correct:
  assumes "displays (screen k) t" "\<forall>a \<in> set args. double_quote \<notin> set a"
    and "l = join_with (CHR '' '') (map render (''echo'' # args))" "is_ascii l" "length l < usize_limit"
  shows "\<exists>k'. parse_and_execute esc (map of_char l) k = (Ok False, k') \<and> vfs_state k' = vfs_state k
    \<and> displays (screen k')
        (term_text (color_code (screen k)) (join_with (CHR '' '') args @ [CHR 0x0A])
          (term_text (color_into_code LightGray) (''args: '' @ debug_args (''echo'' # args) @ [CHR 0x0A])
            (term_text (color_into_code LightGray) (''input: '' @ debug_str esc (map of_char l) @ [CHR 0x0A]) t)))"
proof -
  have toks: "tokens l = ''echo'' # args"
    using tokens_rendered [of "''echo'' # args"] assms(2,3) by (simp add: double_quote_def)
  obtain w1 where w1: "with_color (color_into_code LightGray) (println (''input: '' @ debug_str esc (map of_char l))) (screen k) = (Ok (), w1)"
    "color_code w1 = color_code (screen k)"
    "displays w1 (term_text (color_into_code LightGray) ((''input: '' @ debug_str esc (map of_char l)) @ [CHR 0x0A]) t)"
    by (rule displays_color_println [OF assms(1)])
  obtain w2 where w2: "with_color (color_into_code LightGray) (println (''args: '' @ debug_args (tokens l))) w1 = (Ok (), w2)"
    "color_code w2 = color_code w1"
    "displays w2 (term_text (color_into_code LightGray) ((''args: '' @ debug_args (tokens l)) @ [CHR 0x0A])
      (term_text (color_into_code LightGray) ((''input: '' @ debug_str esc (map of_char l)) @ [CHR 0x0A]) t))"
    by (rule displays_color_println [OF w1(3)])
  obtain w3 where w3: "println (join_with (CHR '' '') args) w2 = (Ok (), w3)"
    "displays w3 (term_text (color_code w2) (join_with (CHR '' '') args @ [CHR 0x0A])
      (term_text (color_into_code LightGray) ((''args: '' @ debug_args (tokens l)) @ [CHR 0x0A])
      (term_text (color_into_code LightGray) ((''input: '' @ debug_str esc (map of_char l)) @ [CHR 0x0A]) t)))"
    by (rule displays_println [OF w2(3)])
  have "execute (''echo'' # args) (k\<lparr>screen := w2\<rparr>) = (Ok False, k\<lparr>screen := w3\<rparr>)"
    using w3(1) by (simp add: execute_def echo_eq on_screen_Ok)
  then have "parse_and_execute esc (map of_char l) k = (Ok False, k\<lparr>screen := w3\<rparr>)"
    using w1(1) w2(1) assms(4,5) toks
    by (simp add: parse_and_execute_def utf8_ascii parse_arguments_ascii on_screen_Ok)
  then show ?thesis using w1(2) w2(2) w3(2) toks by simp
qed

theorem echo_correct_witness:
  "\<exists>k' t. parse_and_execute encode_utf8 (map of_char (''echo a '' @ [double_quote] @ ''b c'' @ [double_quote])) example_kernel = (Ok False, k')
     \<and> displays (screen k') (term_text 0x0F (''a b c'' @ [CHR 0x0A]) t)"
proof -
  let ?l = "''echo a '' @ [double_quote] @ ''b c'' @ [double_quote]"
  have h: "\<forall>a \<in> set [''a'', ''b c'']. double_quote \<notin> set a" "?l = join_with (CHR '' '') (map render (''echo'' # [''a'', ''b c'']))"
    "is_ascii ?l" "length ?l < usize_limit" "color_code (screen example_kernel) = 0x0F" "join_with (CHR '' '') [''a'', ''b c''] = ''a b c''"
    by code_simp+
  show ?thesis
    using echo_correct [OF example_wf(2) h(1-4), of encode_utf8] unfolding h(5,6) by blast
qed

text \<open>
  C32: \<open>cat\<close> of a file. It prints the first 512 bytes of the file, with ill-formed UTF-8 replaced,
  and a line feed. The descriptor that it opened is still open afterwards.
\<close>

theorem cat_correct:
  assumes "displays (screen k) t" "vfs_inv (vfs_state k)" "vfs_open p Read (vfs_state k) = (Ok fd, s1)" "vfs_small s1"
    and f: "bt_get fd (files s1) = Some f" and data: "file_bytes s1 (file_node f) = Some data"
  shows "\<exists>k'. cat (p # args) k = (Ok (), k')
    \<and> displays (screen k') (term_text (color_code (screen k)) (from_utf8_lossy (take 512 data) @ [CHR 0x0A]) t)
    \<and> bt_get fd (files (vfs_state k)) = None \<and> bt_get fd (files (vfs_state k')) \<noteq> None"
proof -
  have ok: "vfs_inv s1" and new: "bt_get fd (files (vfs_state k)) = None"
    and fl: "\<exists>n. files s1 = bt_insert fd (file_new n Read) (files (vfs_state k))"
    using open_refines [OF assms(2-4)] by (auto simp: refines_def split: outcome.splits)
  have mode: "mode f = Read" "position f = 0" using fl f by (auto simp: file_new_def)
  have pd: "private_data (nodes s1 ! file_node f) = RamFileNode data"
    using data by (auto simp: file_bytes_def split: private_data.splits)
  let ?n = "min 512 (length data)"
  let ?s = "moved fd f ?n (nodes s1) s1"
  have "?n < usize_limit" by (simp add: usize_limit_def)
  then have rd: "vfs_read fd (replicate 512 0) s1 = (Ok (?n, take ?n data @ drop ?n (replicate 512 0)), ?s)"
    using vfs_read_file [OF ok f mode(1) pd, of "replicate 512 0"] mode(2) by simp
  obtain w where w: "println (from_utf8_lossy (take 512 data)) (screen k) = (Ok (), w)"
    "displays w (term_text (color_code (screen k)) (from_utf8_lossy (take 512 data) @ [CHR 0x0A]) t)"
    by (rule displays_println [OF assms(1)])
  have "slice (take ?n data @ drop ?n (replicate 512 0)) 0 ?n kk = (Ok (take 512 data) :: (infallible, u8 list) outcome, kk)" for kk :: kernel
    by (simp add: slice_def min_def)
  then have "cat (p # args) k = (Ok (), k\<lparr>vfs_state := ?s, screen := w\<rparr>)"
    using assms(3) rd w(1) by (simp add: cat_def on_vfs_def unwrap_result_def on_screen_def)
  then show ?thesis using w(2) new by (simp add: moved_def)
qed

lemma cat_session:
  obtains s1 where "vfs_open ''/test.txt'' Read booted = (Ok 2, s1)" "vfs_small s1"
    "bt_get 2 (files s1) = Some (file_new 2 Read)" "file_bytes s1 2 = Some hello_world"
proof -
  have "case vfs_open ''/test.txt'' Read booted of (r1, s1) \<Rightarrow> r1 = Ok 2 \<and> vfs_small s1
      \<and> bt_get 2 (files s1) = Some (file_new 2 Read) \<and> file_bytes s1 2 = Some hello_world" by code_simp
  then show thesis using that by (auto split: prod.splits)
qed

theorem cat_correct_witness:
  "\<exists>k'. cat [''/test.txt''] example_kernel = (Ok (), k')
    \<and> displays (screen k') (term_text 0x0F (''Hello, world!'' @ [CHR 0x0A]) \<lparr>t_rows = blank_screen, t_column = 0\<rparr>)
    \<and> bt_get 2 (files (vfs_state k')) \<noteq> None"
proof (rule cat_session)
  fix s1 assume s1: "vfs_open ''/test.txt'' Read booted = (Ok 2, s1)" "vfs_small s1"
    "bt_get 2 (files s1) = Some (file_new 2 Read)" "file_bytes s1 2 = Some hello_world"
  have h: "color_code (screen example_kernel) = 0x0F" "from_utf8_lossy (take 512 hello_world) = ''Hello, world!''" by code_simp+
  have "vfs_inv (vfs_state example_kernel)" "vfs_open ''/test.txt'' Read (vfs_state example_kernel) = (Ok 2, s1)"
    using booted_inv s1(1) by (simp_all add: example_kernel_def)
  from cat_correct [OF example_wf(2) this s1(2,3), of hello_world "[]"]
  show ?thesis unfolding h using s1(4) by (auto simp: file_new_def)
qed

text \<open>Closing a descriptor leaves the tree of names and the contents of all files as they are.\<close>

lemma closed_tree:
  assumes ok: "vfs_inv s" and f: "bt_get fd (files s) = Some f"
  shows "place_at (closed fd f s) q = place_at s q" "nodes_kept s0 (closed fd f s) = nodes_kept s0 s"
    "tree_added s0 (closed fd f s) path k = tree_added s0 s path k"
proof -
  have n: "file_node f < length (nodes s)" using vfs_ok_file(2) [OF ok f] .
  have tree: "place_at (closed fd f s) q = place_at s q" for q using vfs_same_place_at [OF ok closed_same [OF n]] by simp
  have data: "file_bytes (closed fd f s) j = file_bytes s j" "kind (nodes (closed fd f s) ! j) = kind (nodes s ! j)"
    "private_data (nodes (closed fd f s) ! j) = private_data (nodes s ! j)" for j
    using n by (cases "j = file_node f"; simp add: closed_def file_bytes_def set_link_count_def)+
  have len: "length (nodes (closed fd f s)) = length (nodes s)" by (simp add: closed_def)
  show "place_at (closed fd f s) q = place_at s q" by (rule tree)
  show kept: "nodes_kept s0 (closed fd f s) = nodes_kept s0 s" unfolding nodes_kept_def data len ..
  show "tree_added s0 (closed fd f s) path k = tree_added s0 s path k" unfolding tree_added_def tree data len kept ..
qed

text \<open>
  C33: \<open>touch\<close>. Where the file can be opened for writing, \<open>touch\<close> succeeds: a file that was not there
  exists afterwards and is empty, everything else is as before, and no descriptor is left open.
  Where it cannot be opened, the kernel panics.
\<close>

theorem touch_correct:
  assumes "vfs_inv (vfs_state k)" "vfs_open p Write (vfs_state k) = (r1, s1)" "roomy s1"
  shows "case open_spec (vfs_state k) p Write of
      Ok (path, new) \<Rightarrow> \<exists>s'. touch (p # args) k = (Ok (), k\<lparr>vfs_state := s'\<rparr>) \<and> vfs_inv s'
        \<and> files s' = files (vfs_state k)
        \<and> (if new then tree_added (vfs_state k) s' path File
           else (\<forall>q. place_at s' q = place_at (vfs_state k) q) \<and> nodes_kept (vfs_state k) s')
    | Err e \<Rightarrow> fst (touch (p # args) k) = Panic Unwrap
    | Panic q \<Rightarrow> fst (touch (p # args) k) = Panic q"
proof -
  let ?s = "vfs_state k"
  have "meets (open_spec ?s p Write) r1
    (\<lambda>(path, new) fd. vfs_inv s1
        \<and> fd \<noteq> FileDescriptor_NULL \<and> bt_get fd (files ?s) = None
        \<and> (\<exists>n. files s1 = bt_insert fd (file_new n Write) (files ?s) \<and> place_at s1 path = Some (place_of (nodes s1) n))
        \<and> (if new then tree_added ?s s1 path File
           else (\<forall>q. place_at s1 q = place_at ?s q) \<and> nodes_kept ?s s1))
    (vfs_inv s1 \<and> vfs_ext ?s s1)"
    using refines_meets [OF open_refines [OF assms(1,2) roomy_small [OF assms(3)]]
      overflow_open [OF assms(1,2) roomy_small [OF assms(3)]] assms(3)] .
  note met = this
  show ?thesis
  proof (cases "open_spec ?s p Write")
    case (Ok pn)
    obtain path new where pn: "pn = (path, new)" by (cases pn)
    obtain fd n where r1: "r1 = Ok fd" and ok: "vfs_inv s1" and fresh: "bt_get fd (files ?s) = None"
      and fs: "files s1 = bt_insert fd (file_new n Write) (files ?s)"
      and tree: "if new then tree_added ?s s1 path File else (\<forall>q. place_at s1 q = place_at ?s q) \<and> nodes_kept ?s s1"
      using met Ok pn by (cases r1) (auto simp: meets_def)
    let ?f = "file_new n Write" and ?s2 = "closed fd (file_new n Write) s1"
    have f: "bt_get fd (files s1) = Some ?f" using fs by simp
    have cl: "vfs_close fd s1 = (Ok (), ?s2)" using vfs_close_eq [OF ok, of fd] f by simp
    have ok2: "vfs_inv ?s2" using closed_ok [OF ok f] .
    have "bt_sorted (files ?s)" "bt_sorted (files s1)" using assms(1) ok by (simp_all add: vfs_ok_def files_inv_def)
    then have kept: "files ?s2 = files ?s"
      using fs fresh by (intro bt_eqI) (auto simp: closed_def)
    have "if new then tree_added ?s ?s2 path File else (\<forall>q. place_at ?s2 q = place_at ?s q) \<and> nodes_kept ?s ?s2"
      using tree closed_tree [OF ok f] by simp
    moreover have "touch (p # args) k = (Ok (), k\<lparr>vfs_state := ?s2\<rparr>)"
      using assms(2) r1 cl by (simp add: touch_def on_vfs_def unwrap_result_def)
    ultimately show ?thesis using Ok pn ok2 kept by auto
  qed (use met assms(2) in \<open>cases r1; auto simp: meets_def touch_def on_vfs_def unwrap_result_def try_bind_def\<close>)+
qed

theorem touch_correct_witness:
  "\<exists>s'. touch [''/a''] example_kernel = (Ok (), example_kernel\<lparr>vfs_state := s'\<rparr>) \<and> vfs_inv s' \<and> files s' = []
     \<and> tree_added booted s' [''a''] File"
proof -
  have "case vfs_open ''/a'' Write booted of (r1, s1) \<Rightarrow> roomy s1" by code_simp
  then obtain r1 s1 where s1: "vfs_open ''/a'' Write booted = (r1, s1)" "roomy s1" by (auto split: prod.splits)
  have spec: "open_spec booted ''/a'' Write = Ok ([''a''], True)"
    by code_simp
  have "vfs_inv (vfs_state example_kernel)" "vfs_open ''/a'' Write (vfs_state example_kernel) = (r1, s1)"
    using booted_inv s1(1) by (simp_all add: example_kernel_def)
  from touch_correct [OF this s1(2), of "[]"] show ?thesis
    using spec by (auto simp: example_kernel_def booted_def)
qed

lemma stat_relative:
  assumes "str \<noteq> []" "hd str \<noteq> slash"
  obtains q where "vfs_stat str s = (Panic q, s)" | e where "vfs_stat str s = (Err e, s)"
proof (cases "path_from_str str :: (path_parse_error, path) outcome")
  case (Ok p)
  have "(is_absolute p :: (io_error, bool) outcome) = Ok False"
    using Ok assms by (auto simp: path_from_str_def is_absolute_def Let_def split: if_splits list.splits)
  then show thesis using that Ok by (simp add: vfs_stat_def resolve_path_def parse_path_def require_absolute_def)
qed (use that in \<open>simp_all add: vfs_stat_def resolve_path_def parse_path_def\<close>)



section \<open>The line editor\<close>

text \<open>
  The parameters of the editor in the examples: a keyboard whose scancodes are ASCII codes, and
  lists as the containers.
\<close>

definition example_keyboard :: "(unit, u8) keyboard_ops" where
  "example_keyboard = \<lparr>kb_new = (), kb_add_byte = (\<lambda>b k. (Inr (Some b), k)),
     kb_process_keyevent = (\<lambda>b k. (if b < 128 then Some (Unicode (unat b)) else None, k)), kb_is_ctrl = (\<lambda>_. False)\<rparr>"

definition list_string :: "nat \<Rightarrow> code_point list string_ops" where
  "list_string n = \<lparr>hs_new = [], hs_push = (\<lambda>c b. if length (utf8 (b @ [c])) \<le> n then Some (b @ [c]) else None),
     hs_pop = butlast, hs_clear = (\<lambda>_. []), hs_chars = id\<rparr>"

definition list_deque :: "nat \<Rightarrow> ('b, 'b list) deque_ops" where
  "list_deque n = \<lparr>dq_new = [], dq_is_full = (\<lambda>d. length d = n), dq_pop_back = butlast,
     dq_push_front = (\<lambda>b d. if length d < n then Some (b # d) else None), dq_iter = id\<rparr>"

definition example_deps :: "(unit, u8, code_point list, code_point list list) shell_deps" where
  "example_deps = \<lparr>keyboard_ops = example_keyboard, string_ops = list_string INPUT_BUFFER_LEN,
     deque_ops = list_deque HISTORY_LEN, escape_unicode = encode_utf8, port_in = (\<lambda>_. 0)\<rparr>"

lemma example_lawful: "lawful_deps example_deps" "ascii_layout (keyboard_ops example_deps)"
  by (auto simp: lawful_deps_def example_deps_def lawful_string_def list_string_def lawful_deque_def list_deque_def
      ascii_layout_def example_keyboard_def unat_arith_simps simp del: input_buffer_len split: if_splits)

lemma example_fresh: "fresh_line (screen example_kernel)"
  by (simp add: fresh_line_def example_kernel_def writer_init_def blank_screen_def writer_wf_def buffer_size blank_def)

lemma example_types:
  assumes "edit_inv example_deps sh" "\<forall>c \<in> set text. c < 128 \<and> c \<noteq> 10 \<and> c \<noteq> 8"
    "length (utf8 (line example_deps sh @ map unat text)) \<le> 65"
  shows "\<exists>sh'. handle_scancodes example_deps text sh = (Ok False, sh') \<and> line example_deps sh' = line example_deps sh @ map unat text"
  using assms
proof (induction "text" arbitrary: sh)
  case (Cons c cs)
  let ?s = "sh\<lparr>keyboard := ()\<rparr>"
  have c: "c < 128" "unat c \<noteq> 10" "unat c \<noteq> 8" using Cons.prems(2) by (auto simp: word_unat_eq_iff)
  have inv: "edit_inv example_deps ?s" using Cons.prems(1) by simp
  have "length (utf8 (line example_deps sh @ [unat c])) \<le> 65" using Cons.prems(3) by (simp add: utf8_def)
  then have push: "hs_push (string_ops example_deps) (unat c) (input_buffer ?s) = Some (input_buffer ?s @ [unat c])"
    by (simp add: example_deps_def list_string_def line_def)
  have "writer_wf (screen (kernel_state ?s))" using inv by (simp add: edit_inv_def)
  then obtain w where w: "print (encode_utf8 (unat c)) (screen (kernel_state ?s)) = (Ok (), w)" "writer_wf w"
    by (rule print_encoded)
  obtain l sh1 where s: "press_character example_deps (unat c) ?s = (Ok False, sh1)" "edit_inv example_deps sh1"
    "line example_deps sh1 = line example_deps ?s @ [unat c]"
    by (rule press_character_run [OF inv example_lawful(1) push w])
  have "handle_scancode example_deps c sh = (Ok False, sh1)"
    using c s(1) by (simp add: handle_scancode_def example_deps_def example_keyboard_def handle_key_def)
  then show ?case using Cons.IH [OF s(2)] Cons.prems s(3) by auto
qed simp

lemma example_run:
  obtains sh where "shell_run example_deps [108, 115] example_kernel = (Ok False, sh)" "line example_deps sh = [108, 115]"
proof -
  obtain l sh where s: "shell_start example_deps example_kernel = (Ok (), sh)" "edit_inv example_deps sh" "line example_deps sh = []"
    by (rule shell_start_run [OF example_fresh example_lawful(1)])
  have "\<exists>sh'. handle_scancodes example_deps [108, 115] sh = (Ok False, sh') \<and> line example_deps sh' = line example_deps sh @ map unat [108, 115 :: u8]"
    by (rule example_types [OF s(2)]) (simp_all add: s(3) utf8_def encode_utf8_def)
  then show thesis using that s(1,3) by (auto simp: shell_run_def)
qed





end
