(* ===== verification/Shell_Session.thy ===== *)
theory Shell_Session
  imports Shell_Correct
begin

text \<open>
  What the line editor means: a session over the decoded keys, without screen, cursor and buffers.
  Its state is the line, the lines entered before it and the file systems; a key edits the line, and
  Enter executes it. \<open>shell::run\<close> is shown to refine it.
\<close>

section \<open>Sessions\<close>

record edited =
  e_line :: "code_point list"
  e_history :: "code_point list list"
  e_vfs :: vfs

text \<open>
  A key, together with whether the control key is held. The result says whether the session has
  ended. A command runs on a kernel with an empty bottom row.
\<close>

inductive edit :: "(code_point \<Rightarrow> string) \<Rightarrow> decoded_key \<times> bool \<Rightarrow> edited \<Rightarrow> bool \<Rightarrow> edited \<Rightarrow> bool" for esc where
  raw: "edit esc (RawKey, ctrl) e False e"
| erase: "edit esc (Unicode 8, ctrl) e False (e\<lparr>e_line := if ctrl then [] else butlast (e_line e)\<rparr>)"
| insert: "c \<noteq> 8 \<Longrightarrow> c \<noteq> 10 \<Longrightarrow> length (utf8 (e_line e @ [c])) \<le> 65 \<Longrightarrow>
    edit esc (Unicode c, ctrl) e False (e\<lparr>e_line := e_line e @ [c]\<rparr>)"
| full: "c \<noteq> 8 \<Longrightarrow> c \<noteq> 10 \<Longrightarrow> 65 < length (utf8 (e_line e @ [c])) \<Longrightarrow> edit esc (Unicode c, ctrl) e False e"
| enter: "fresh_line (screen k) \<Longrightarrow> vfs_state k = e_vfs e \<Longrightarrow> parse_and_execute esc (e_line e) k = (Ok False, k') \<Longrightarrow>
    edit esc (Unicode 10, ctrl) e False
      \<lparr>e_line = [], e_history = e_line e # take 15 (e_history e), e_vfs = vfs_state k'\<rparr>"
| exit: "fresh_line (screen k) \<Longrightarrow> vfs_state k = e_vfs e \<Longrightarrow> parse_and_execute esc (e_line e) k = (Ok True, k') \<Longrightarrow>
    edit esc (Unicode 10, ctrl) e True (e\<lparr>e_vfs := vfs_state k'\<rparr>)"

inductive edits :: "(code_point \<Rightarrow> string) \<Rightarrow> (decoded_key \<times> bool) list \<Rightarrow> edited \<Rightarrow> bool \<Rightarrow> edited \<Rightarrow> bool" for esc where
  waits: "edits esc [] e False e"
| ends: "edit esc key e True e' \<Longrightarrow> edits esc (key # keys) e True e'"
| goes_on: "edit esc key e False e1 \<Longrightarrow> edits esc keys e1 b e' \<Longrightarrow> edits esc (key # keys) e b e'"

text \<open>The keys that scancodes stand for, as the keyboard decoder finds them.\<close>

fun decode :: "('k, 'ev) keyboard_ops \<Rightarrow> u8 list \<Rightarrow> 'k \<Rightarrow> (decoded_key \<times> bool) list" where
  "decode ops [] kb = []"
| "decode ops (scancode # rest) kb =
     (case kb_add_byte ops scancode kb of
        (Inr (Some event), kb) \<Rightarrow>
          (case kb_process_keyevent ops event kb of
             (Some key, kb) \<Rightarrow> (key, kb_is_ctrl ops kb) # decode ops rest kb
           | (None, kb) \<Rightarrow> decode ops rest kb)
      | (_, kb) \<Rightarrow> decode ops rest kb)"

section \<open>Refinement\<close>

definition edited_of :: "('k, 'ev, 'b, 'd) shell_deps \<Rightarrow> ('k, 'b, 'd) shell \<Rightarrow> edited" where
  "edited_of deps sh = \<lparr>e_line = line deps sh,
     e_history = map (hs_chars (string_ops deps)) (dq_iter (deque_ops deps) (history sh)),
     e_vfs = vfs_state (kernel_state sh)\<rparr>"

lemma edited_of_keyboard [simp]: "edited_of deps (sh\<lparr>keyboard := kb\<rparr>) = edited_of deps sh"
  by (simp add: edited_of_def line_def)

text \<open>The operations that leave the history, the decoder and the file systems alone.\<close>

definition aside :: "(('k, 'b, 'd) shell, 'e, 'a) op \<Rightarrow> bool" where
  "aside m \<longleftrightarrow> (\<forall>sh. history (snd (m sh)) = history sh \<and> keyboard (snd (m sh)) = keyboard sh
     \<and> vfs_state (kernel_state (snd (m sh))) = vfs_state (kernel_state sh))"

named_theorems aside_rules

lemma aside_run: "aside m \<Longrightarrow> m sh = (r, sh') \<Longrightarrow>
    history sh' = history sh \<and> keyboard sh' = keyboard sh \<and> vfs_state (kernel_state sh') = vfs_state (kernel_state sh)"
  unfolding aside_def by (metis snd_conv)

lemma aside_ret [aside_rules]: "aside (ret x)"
  by (simp add: aside_def ret_def)

lemma aside_bind [aside_rules]: "aside m \<Longrightarrow> (\<And>x. aside (f x)) \<Longrightarrow> aside (try_bind m f)"
  by (simp add: aside_def try_bind_def split: prod.split outcome.split) (metis snd_conv)

lemma aside_for_each [aside_rules]: "(\<And>x. aside (f x)) \<Longrightarrow> aside (for_each xs f)"
  by (induction xs) (simp_all add: aside_ret aside_bind)

lemma aside_devices [aside_rules]: "aside (on_kernel (on_screen m))" "aside (on_kernel (on_ports m'))"
  by (simp_all add: aside_def on_kernel_def on_screen_def on_ports_def split: prod.split)

lemma aside_checked [aside_rules]: "aside (checked_add_u8 a b)" "aside cursor_column" "aside (move_cursor col)"
  by (simp_all add: aside_def checked_add_u8_def cursor_column_def aside_devices [unfolded aside_def] move_cursor_def)

lemma aside_own: "(\<And>sh. aside (try_bind (m sh) (f sh))) \<Longrightarrow> aside (\<lambda>sh. try_bind (m sh) (f sh) sh)"
  by (simp add: aside_def)

lemma aside_press_backspace: "aside (press_backspace deps)"
proof -
  have "aside (erase deps)" by (simp add: aside_def erase_def)
  then show ?thesis unfolding press_backspace_def by (intro aside_rules aside_own) auto
qed

lemma aside_press_character:
  assumes "press_character deps c sh = (r, sh')"
  shows "history sh' = history sh \<and> keyboard sh' = keyboard sh \<and> vfs_state (kernel_state sh') = vfs_state (kernel_state sh)"
proof (cases "hs_push (string_ops deps) c (input_buffer sh)")
  case None
  then show ?thesis using assms by (simp add: press_character_def)
next
  case (Some b)
  have put: "aside (\<lambda>sh. (Ok (), sh\<lparr>cursor_position := p\<rparr>))" for p by (simp add: aside_def)
  have m: "try_bind (checked_add_u8 (cursor_position sh) 1) (\<lambda>p.
        try_bind (\<lambda>sh. (Ok (), sh\<lparr>cursor_position := p\<rparr>)) (\<lambda>_.
        try_bind (on_kernel (on_screen (print (encode_utf8 c)))) (\<lambda>_.
        try_bind cursor_column (\<lambda>col.
        try_bind (move_cursor col) (\<lambda>_. ret False))))) (sh\<lparr>input_buffer := b\<rparr>) = (r, sh')" (is "try_bind ?add ?rest _ = _")
    using assms Some by (simp add: press_character_def)
  have "aside (try_bind ?add ?rest)" by (intro aside_rules put)
  from aside_run [OF this m] show ?thesis by simp
qed

lemma press_backspace_edits:
  assumes inv: "edit_inv deps sh" and law: "lawful_deps deps" and run: "press_backspace deps sh = (Ok b, sh')"
  shows "edit (escape_unicode deps) (Unicode 8, kb_is_ctrl (keyboard_ops deps) (keyboard sh)) (edited_of deps sh) b (edited_of deps sh')"
proof -
  obtain l sh1 where "press_backspace deps sh = (Ok False, sh1)"
    "line deps sh1 = (if kb_is_ctrl (keyboard_ops deps) (keyboard sh) then [] else butlast (line deps sh))"
    by (rule press_backspace_run [OF inv law])
  then have b: "\<not> b" and l: "line deps sh' = (if kb_is_ctrl (keyboard_ops deps) (keyboard sh) then [] else butlast (line deps sh))"
    using run by simp_all
  have "edited_of deps sh' = (edited_of deps sh)\<lparr>e_line := if kb_is_ctrl (keyboard_ops deps) (keyboard sh) then []
      else butlast (e_line (edited_of deps sh))\<rparr>"
    using l aside_run [OF aside_press_backspace run] by (simp add: edited_of_def)
  then show ?thesis using b edit.erase by simp
qed

lemma lawful_push_fails:
  assumes "lawful_deps deps" "hs_push (string_ops deps) c b = None"
  shows "65 < length (utf8 (hs_chars (string_ops deps) b @ [c]))"
proof -
  have "case hs_push (string_ops deps) c b of
      Some b' \<Rightarrow> hs_chars (string_ops deps) b' = hs_chars (string_ops deps) b @ [c] \<and> length (utf8 (hs_chars (string_ops deps) b')) \<le> 65
    | None \<Rightarrow> 65 < length (utf8 (hs_chars (string_ops deps) b @ [c]))"
    using assms(1) unfolding lawful_deps_def lawful_string_def input_buffer_len by blast
  then show ?thesis using assms(2) by simp
qed

lemma press_character_edits:
  assumes inv: "edit_inv deps sh" and law: "lawful_deps deps" and c: "c \<noteq> 8" "c \<noteq> 10"
    and run: "press_character deps c sh = (Ok b, sh')"
  shows "edit (escape_unicode deps) (Unicode c, ctrl) (edited_of deps sh) b (edited_of deps sh')"
proof (cases "hs_push (string_ops deps) c (input_buffer sh)")
  case None
  then have "\<not> b" "sh' = sh" using run by (simp_all add: press_character_def)
  then show ?thesis using lawful_push_fails [OF law None] c by (simp add: edit.full edited_of_def line_def)
next
  case (Some buf)
  have "writer_wf (screen (kernel_state sh))" using inv by (simp add: edit_inv_def)
  then obtain w where w: "print (encode_utf8 c) (screen (kernel_state sh)) = (Ok (), w)" "writer_wf w"
    by (rule print_encoded)
  obtain l sh1 where "press_character deps c sh = (Ok False, sh1)" "edit_inv deps sh1" "line deps sh1 = line deps sh @ [c]"
    by (rule press_character_run [OF inv law Some w])
  then have b: "\<not> b" and l: "line deps sh' = line deps sh @ [c]" and fits: "length (utf8 (line deps sh @ [c])) \<le> 65"
    using run by (simp_all add: edit_inv_def)
  have "edited_of deps sh' = (edited_of deps sh)\<lparr>e_line := e_line (edited_of deps sh) @ [c]\<rparr>"
    using l aside_press_character [OF run] by (simp add: edited_of_def)
  moreover have "length (utf8 (e_line (edited_of deps sh) @ [c])) \<le> 65" using fits by (simp add: edited_of_def)
  ultimately show ?thesis using b c edit.insert by simp
qed


text \<open>Enter: the line runs on the kernel that the end of the line has left, and is then remembered.\<close>

lemma aside_print_prompt: "print_prompt k = (r, k') \<Longrightarrow> vfs_state k' = vfs_state k"
  by (auto simp: print_prompt_def try_bind_def on_screen_def on_ports_def split: prod.splits outcome.splits)

lemma press_enter_executes:
  assumes inv: "edit_inv deps sh" and run: "press_enter deps sh = (Ok b, sh')"
  obtains k k' where "fresh_line (screen k)" "vfs_state k = vfs_state (kernel_state sh)"
    "parse_and_execute (escape_unicode deps) (line deps sh) k = (Ok b, k')" "vfs_state (kernel_state sh') = vfs_state k'"
    "b \<Longrightarrow> history sh' = history sh \<and> input_buffer sh' = input_buffer sh"
    "\<not> b \<Longrightarrow> input_buffer sh' = hs_clear (string_ops deps) (input_buffer sh) \<and>
       dq_push_front (deque_ops deps) (input_buffer sh) (if dq_is_full (deque_ops deps) (history sh)
          then dq_pop_back (deque_ops deps) (history sh) else history sh) = Some (history sh')"
proof -
  have wf: "writer_wf (screen (kernel_state sh))" using inv by (simp add: edit_inv_def)
  obtain w where w: "println [] (screen (kernel_state sh)) = (Ok (), w)" "fresh_line w" using println_ok [OF wf] by blast
  let ?k = "(kernel_state sh)\<lparr>screen := w\<rparr>"
  have start: "on_kernel (on_screen (println [])) sh = (Ok (), sh\<lparr>kernel_state := ?k\<rparr>)" using w(1) by (simp add: runs_Ok)
  obtain ended k' where exec: "parse_and_execute (escape_unicode deps) (line deps sh) ?k = (Ok ended, k')"
    using run start by (auto simp: press_enter_def line_def on_kernel_def elim!: try_bind_OkE split: prod.splits)
  then have exec': "on_kernel (parse_and_execute (escape_unicode deps) (hs_chars (string_ops deps) (input_buffer sh)))
      (sh\<lparr>kernel_state := ?k\<rparr>) = (Ok ended, sh\<lparr>kernel_state := k'\<rparr>)"
    by (simp add: on_kernel_def line_def)
  show thesis
  proof (cases ended)
    case True
    then have "b" "history sh' = history sh \<and> input_buffer sh' = input_buffer sh" "vfs_state (kernel_state sh') = vfs_state k'"
      using run start exec' by (auto simp: press_enter_def on_kernel_def on_ports_def disable_cursor_def out_def)
    then show thesis using that [of ?k k'] w(2) exec True by simp
  next
    case False
    obtain rp k2 where p: "print_prompt k' = (rp, k2)" by fastforce
    have "\<not> b" "vfs_state (kernel_state sh') = vfs_state k2" "input_buffer sh' = hs_clear (string_ops deps) (input_buffer sh)"
      "dq_push_front (deque_ops deps) (input_buffer sh) (if dq_is_full (deque_ops deps) (history sh)
          then dq_pop_back (deque_ops deps) (history sh) else history sh) = Some (history sh')"
      using run start exec' False p
      by (auto simp: press_enter_def on_kernel_def Let_def unwrap_def panic_def try_bind_def split: outcome.splits option.splits)
    then show thesis using that [of ?k k'] w(2) exec False aside_print_prompt [OF p] by simp
  qed
qed

lemma press_enter_edits:
  assumes inv: "edit_inv deps sh" and law: "lawful_deps deps" and run: "press_enter deps sh = (Ok b, sh')"
  shows "edit (escape_unicode deps) (Unicode 10, ctrl) (edited_of deps sh) b (edited_of deps sh')"
proof (rule press_enter_executes [OF inv run])
  fix k k'
  assume k: "fresh_line (screen k)" "vfs_state k = vfs_state (kernel_state sh)"
    "parse_and_execute (escape_unicode deps) (line deps sh) k = (Ok b, k')" "vfs_state (kernel_state sh') = vfs_state k'"
    and yes: "b \<Longrightarrow> history sh' = history sh \<and> input_buffer sh' = input_buffer sh"
    and no: "\<not> b \<Longrightarrow> input_buffer sh' = hs_clear (string_ops deps) (input_buffer sh) \<and>
       dq_push_front (deque_ops deps) (input_buffer sh) (if dq_is_full (deque_ops deps) (history sh)
          then dq_pop_back (deque_ops deps) (history sh) else history sh) = Some (history sh')"
  show ?thesis
  proof (cases b)
    case True
    then have "edited_of deps sh' = (edited_of deps sh)\<lparr>e_vfs := vfs_state k'\<rparr>"
      using yes k(4) by (simp add: edited_of_def line_def)
    then show ?thesis using True k edit.exit [of k "edited_of deps sh" "escape_unicode deps" k'] by (simp add: edited_of_def)
  next
    case False
    have "length (dq_iter (deque_ops deps) (history sh)) \<le> 16" using inv by (simp add: edit_inv_def)
    then have "dq_iter (deque_ops deps) (history sh') = input_buffer sh # take 15 (dq_iter (deque_ops deps) (history sh))"
      using history_push [OF law, of "history sh" "input_buffer sh"] no [OF False] by fastforce
    then have "edited_of deps sh' = \<lparr>e_line = [], e_history = e_line (edited_of deps sh) # take 15 (e_history (edited_of deps sh)),
        e_vfs = vfs_state k'\<rparr>"
      using no [OF False] k(4) lawful_shrink(2) [OF law] by (simp add: edited_of_def line_def take_map)
    then show ?thesis using False k edit.enter [of k "edited_of deps sh" "escape_unicode deps" k'] by (simp add: edited_of_def)
  qed
qed

lemma handle_key_keyboard: "handle_key deps key sh = (r, sh') \<Longrightarrow> keyboard sh' = keyboard sh"
proof -
  assume run: "handle_key deps key sh = (r, sh')"
  have "press_enter deps sh = (r, sh') \<Longrightarrow> keyboard sh' = keyboard sh"
    by (auto simp: press_enter_def try_bind_def on_kernel_def Let_def unwrap_def panic_def ret_def
        split: prod.splits outcome.splits option.splits if_splits)
  then show ?thesis
    using run
    by (auto simp: handle_key_def split: decoded_key.splits if_splits
        dest: aside_run [OF aside_press_backspace] aside_press_character)
qed

lemma handle_key_edits:
  assumes inv: "edit_inv deps sh" and law: "lawful_deps deps" and run: "handle_key deps key sh = (Ok b, sh')"
  shows "edit (escape_unicode deps) (key, kb_is_ctrl (keyboard_ops deps) (keyboard sh)) (edited_of deps sh) b (edited_of deps sh')"
proof (cases key)
  case (Unicode c)
  then show ?thesis
    using run press_enter_edits [OF inv law] press_backspace_edits [OF inv law] press_character_edits [OF inv law]
    by (auto simp: handle_key_def split: if_splits)
next
  case RawKey
  then show ?thesis using run edit.raw by (simp add: handle_key_def)
qed


lemma scancodes_edit:
  assumes "edit_inv deps sh" "lawful_deps deps" "handle_scancodes deps scancodes sh = (Ok b, sh')"
  shows "edits (escape_unicode deps) (decode (keyboard_ops deps) scancodes (keyboard sh)) (edited_of deps sh) b (edited_of deps sh')"
  using assms
proof (induction scancodes arbitrary: sh)
  case Nil
  then show ?case by (auto intro: edits.waits)
next
  case (Cons scancode rest)
  obtain ended sh1 where one: "handle_scancode deps scancode sh = (Ok ended, sh1)"
    and more: "(if ended then ret True else handle_scancodes deps rest) sh1 = (Ok b, sh')"
    using Cons.prems(3) by (auto elim: try_bind_OkE)
  show ?case
  proof (cases "\<exists>kb. ended = False \<and> sh1 = sh\<lparr>keyboard := kb\<rparr> \<and>
      decode (keyboard_ops deps) (scancode # rest) (keyboard sh) = decode (keyboard_ops deps) rest kb")
    case True
    then show ?thesis using Cons.IH [of sh1] Cons.prems more by auto
  next
    case False
    then obtain key kb where keys: "decode (keyboard_ops deps) (scancode # rest) (keyboard sh) =
        (key, kb_is_ctrl (keyboard_ops deps) kb) # decode (keyboard_ops deps) rest kb"
      and run: "handle_key deps key (sh\<lparr>keyboard := kb\<rparr>) = (Ok ended, sh1)"
      using one by (auto simp: handle_scancode_def split: prod.splits sum.splits option.splits)
    have inv: "edit_inv deps (sh\<lparr>keyboard := kb\<rparr>)" using Cons.prems(1) by simp
    have step: "edit (escape_unicode deps) (key, kb_is_ctrl (keyboard_ops deps) kb) (edited_of deps sh) ended (edited_of deps sh1)"
      using handle_key_edits [OF inv Cons.prems(2) run] by simp
    show ?thesis
    proof (cases ended)
      case True
      then show ?thesis using step more keys by (auto intro: edits.ends)
    next
      case False
      have "edit_inv deps sh1" using handle_key_inv [OF inv Cons.prems(2) run] False by auto
      moreover have "keyboard sh1 = kb" using handle_key_keyboard [OF run] by simp
      ultimately show ?thesis using Cons.IH [of sh1] Cons.prems(2) more False step keys by (auto intro: edits.goes_on)
    qed
  qed
qed


lemma shell_start_edited:
  assumes "lawful_deps deps" "shell_start deps k = (r, sh)"
  shows "edited_of deps sh = \<lparr>e_line = [], e_history = [], e_vfs = vfs_state k\<rparr> \<and> keyboard sh = kb_new (keyboard_ops deps)"
proof -
  have "dq_iter (deque_ops deps) (dq_new (deque_ops deps)) = []"
    using assms(1) by (simp add: lawful_deps_def lawful_deque_def)
  moreover have "history sh = dq_new (deque_ops deps)" "input_buffer sh = hs_new (string_ops deps)"
    "keyboard sh = kb_new (keyboard_ops deps)" "vfs_state (kernel_state sh) = vfs_state k"
    using assms(2) aside_print_prompt
    by (auto simp: shell_start_def try_bind_def on_kernel_def on_ports_def split: prod.splits outcome.splits)
  ultimately show ?thesis using lawful_shrink(3) [OF assms(1)] by (simp add: edited_of_def line_def)
qed

text \<open>
  C14: the shell does what is typed. Whatever the keyboard sends, the line editor - with its screen,
  hardware cursor and fixed-capacity buffers - refines a session over the decoded keys: a character
  is appended to the line as long as 65 bytes suffice, a backspace removes the last one and with the
  control key the whole line, and Enter executes exactly the line that has been typed, on the file
  systems as the commands before left them, and then puts it in front of the last 15 lines. The shell
  returns exactly when a command ends it, and later keys then have no effect.
\<close>

theorem shell_refines_session:
  assumes "lawful_deps deps" "fresh_line (screen k)" "shell_run deps scancodes k = (Ok ended, sh)"
  shows "edits (escape_unicode deps) (decode (keyboard_ops deps) scancodes (kb_new (keyboard_ops deps)))
    \<lparr>e_line = [], e_history = [], e_vfs = vfs_state k\<rparr> ended (edited_of deps sh)"
proof -
  obtain l sh0 where s: "shell_start deps k = (Ok (), sh0)" "edit_inv deps sh0"
    by (rule shell_start_run [OF assms(2,1)])
  have "handle_scancodes deps scancodes sh0 = (Ok ended, sh)" using assms(3) s(1) by (simp add: shell_run_def)
  from scancodes_edit [OF s(2) assms(1) this] show ?thesis using shell_start_edited [OF assms(1) s(1)] by simp
qed

theorem shell_refines_session_witness:
  "\<exists>sh. shell_run example_deps [108, 115] example_kernel = (Ok False, sh)
     \<and> edits encode_utf8 [(Unicode 108, False), (Unicode 115, False)] \<lparr>e_line = [], e_history = [], e_vfs = booted\<rparr>
         False (edited_of example_deps sh)
     \<and> e_line (edited_of example_deps sh) = [108, 115]"
proof (rule example_run)
  fix sh assume sh: "shell_run example_deps [108, 115] example_kernel = (Ok False, sh)" "line example_deps sh = [108, 115]"
  have "decode (keyboard_ops example_deps) [108, 115] (kb_new (keyboard_ops example_deps)) =
      [(Unicode 108, False), (Unicode 115, False)]" "escape_unicode example_deps = encode_utf8" "vfs_state example_kernel = booted"
    by (simp_all add: example_deps_def example_keyboard_def example_kernel_def)
  then show ?thesis
    using shell_refines_session [OF example_lawful(1) example_fresh sh(1)] sh by (auto simp: edited_of_def)
qed

end
