(* ===== verification/Task_Executor.thy ===== *)
theory Task_Executor
  imports BTree_Map
begin

text \<open>
  Cooperative tasks, \<open>task/mod.rs\<close> and \<open>task/executor.rs\<close>. The lock-free queue of task identifiers is
  \<open>crossbeam_queue::ArrayQueue\<close>, a parameter with the behaviour that its documentation gives it; a
  future is a parameter too, through its \<open>poll\<close>. Interrupts are left out here: \<open>Wakeup\<close> interleaves
  them.
\<close>

section \<open>The queue\<close>

record ('a, 'q) queue_ops =
  q_new :: "nat \<Rightarrow> 'q"
  q_push :: "'a \<Rightarrow> 'q \<Rightarrow> 'q option"
  q_pop :: "'q \<Rightarrow> ('a \<times> 'q) option"
  q_is_empty :: "'q \<Rightarrow> bool"
  q_list :: "'q \<Rightarrow> 'a list"
  q_capacity :: "'q \<Rightarrow> nat"

text \<open>A bounded queue, first in first out; \<open>q_list\<close> is its content. A push to a full queue fails.\<close>

definition lawful_queue :: "('a, 'q) queue_ops \<Rightarrow> bool" where
  "lawful_queue ops \<longleftrightarrow>
     (\<forall>n > 0. q_list ops (q_new ops n) = [] \<and> q_capacity ops (q_new ops n) = n)
     \<and> (\<forall>a q. if length (q_list ops q) < q_capacity ops q
          then (\<exists>q'. q_push ops a q = Some q' \<and> q_list ops q' = q_list ops q @ [a] \<and> q_capacity ops q' = q_capacity ops q)
          else q_push ops a q = None)
     \<and> (\<forall>q. case q_list ops q of
           [] \<Rightarrow> q_pop ops q = None
         | a # as \<Rightarrow> (\<exists>q'. q_pop ops q = Some (a, q') \<and> q_list ops q' = as \<and> q_capacity ops q' = q_capacity ops q))
     \<and> (\<forall>q. q_is_empty ops q \<longleftrightarrow> q_list ops q = [])"

lemma queue_new: "lawful_queue ops \<Longrightarrow> 0 < n \<Longrightarrow> q_list ops (q_new ops n) = [] \<and> q_capacity ops (q_new ops n) = n"
  by (simp add: lawful_queue_def)

lemma queue_empty: "lawful_queue ops \<Longrightarrow> q_is_empty ops q \<longleftrightarrow> q_list ops q = []"
  by (simp add: lawful_queue_def)

lemma queue_pop:
  assumes "lawful_queue ops"
  obtains "q_list ops q = []" "q_pop ops q = None"
  | a q' where "q_pop ops q = Some (a, q')" "q_list ops q = a # q_list ops q'" "q_capacity ops q' = q_capacity ops q"
proof -
  have "case q_list ops q of [] \<Rightarrow> q_pop ops q = None
      | a # as \<Rightarrow> (\<exists>q'. q_pop ops q = Some (a, q') \<and> q_list ops q' = as \<and> q_capacity ops q' = q_capacity ops q)"
    using assms unfolding lawful_queue_def by blast
  then show thesis using that by (cases "q_list ops q") auto
qed

lemma queue_push:
  assumes "lawful_queue ops"
  obtains q' where "q_push ops a q = Some q'" "q_list ops q' = q_list ops q @ [a]" "q_capacity ops q' = q_capacity ops q"
    "length (q_list ops q) < q_capacity ops q"
  | "q_push ops a q = None" "q_capacity ops q \<le> length (q_list ops q)"
proof -
  have "if length (q_list ops q) < q_capacity ops q
      then \<exists>q'. q_push ops a q = Some q' \<and> q_list ops q' = q_list ops q @ [a] \<and> q_capacity ops q' = q_capacity ops q
      else q_push ops a q = None"
    using assms unfolding lawful_queue_def by blast
  then show thesis using that by (auto split: if_splits)
qed

section \<open>Tasks\<close>

record 'f task =
  task_id :: u64
  future :: 'f

text \<open>\<open>TaskId::new\<close> takes its number from a counter that all tasks share.\<close>

definition task_new :: "'f \<Rightarrow> nat \<Rightarrow> 'f task \<times> nat" where
  "task_new f next_id = (case fetch_add next_id of (i, n) \<Rightarrow> (\<lparr>task_id = i, future = f\<rparr>, n))"

text \<open>
  \<open>poll\<close> of a future: it gets the waker of its task, here the task's number, and may work on the
  queue, through wakers, and on the rest of the kernel. Its result says whether the future is ready.
\<close>

type_synonym ('f, 'q, 'env) poll = "u64 \<Rightarrow> 'f \<Rightarrow> 'q \<times> 'env \<Rightarrow> (infallible, bool \<times> 'f) outcome \<times> 'q \<times> 'env"

section \<open>The executor\<close>

record ('f, 'q) executor =
  tasks :: "(u64, 'f task) btree_map"
  task_queue :: 'q
  waker_cache :: "(u64, u64) btree_map"

definition executor_new :: "(u64, 'q) queue_ops \<Rightarrow> ('f, 'q) executor" where
  "executor_new ops = \<lparr>tasks = bt_empty, task_queue = q_new ops 100, waker_cache = bt_empty\<rparr>"

text \<open>\<open>TaskWaker::wake_task\<close>: \<open>self.task_queue.push(self.task_id).expect("task_queue full")\<close>.\<close>

definition wake_task :: "(u64, 'q) queue_ops \<Rightarrow> u64 \<Rightarrow> ('q, infallible, unit) op" where
  "wake_task ops i = (\<lambda>q. case q_push ops i q of Some q' \<Rightarrow> (Ok (), q') | None \<Rightarrow> (Panic Unwrap, q))"

definition spawn :: "(u64, 'q) queue_ops \<Rightarrow> 'f task \<Rightarrow> (('f, 'q) executor, infallible, unit) op" where
  "spawn ops t = (\<lambda>ex.
     let ex' = ex\<lparr>tasks := bt_insert (task_id t) t (tasks ex)\<rparr> in
     if bt_contains_key (task_id t) (tasks ex) then (Panic Explicit, ex')
     else (case wake_task ops (task_id t) (task_queue ex') of (r, q) \<Rightarrow> (r, ex'\<lparr>task_queue := q\<rparr>)))"

text \<open>\<open>waker_cache.entry(task_id).or_insert_with(..)\<close>: the waker of the task, and the cache.\<close>

definition cached_waker :: "u64 \<Rightarrow> (u64, u64) btree_map \<Rightarrow> u64 \<times> (u64, u64) btree_map" where
  "cached_waker i cache = (case bt_get i cache of Some w \<Rightarrow> (w, cache) | None \<Rightarrow> (i, bt_insert i i cache))"

text \<open>The body of the loop of \<open>run_ready_tasks\<close>, for the identifier that was popped.\<close>

definition poll_task :: "('f, 'q, 'env) poll \<Rightarrow> u64 \<Rightarrow> (('f, 'q) executor \<times> 'env, infallible, unit) op" where
  "poll_task poll i = (\<lambda>(ex, env). case bt_get i (tasks ex) of
      None \<Rightarrow> (Ok (), ex, env)
    | Some t \<Rightarrow>
        (case cached_waker i (waker_cache ex) of (waker, cache) \<Rightarrow>
         case poll waker (future t) (task_queue ex, env) of
           (Ok (ready, f), q, env') \<Rightarrow>
             if ready then
               (Ok (), ex\<lparr>tasks := bt_remove i (tasks ex), task_queue := q, waker_cache := bt_remove i cache\<rparr>, env')
             else
               (Ok (), ex\<lparr>tasks := bt_insert i (t\<lparr>future := f\<rparr>) (tasks ex), task_queue := q, waker_cache := cache\<rparr>, env')
         | (Err e, q, env') \<Rightarrow> (Err e, ex\<lparr>task_queue := q, waker_cache := cache\<rparr>, env')
         | (Panic p, q, env') \<Rightarrow> (Panic p, ex\<lparr>task_queue := q, waker_cache := cache\<rparr>, env')))"

text \<open>The loop ends when the queue is empty; it may also never end, which is \<open>None\<close>.\<close>

partial_function (option) run_ready_tasks :: "(u64, 'q) queue_ops \<Rightarrow> ('f, 'q, 'env) poll \<Rightarrow>
    ('f, 'q) executor \<times> 'env \<Rightarrow> ((infallible, unit) outcome \<times> ('f, 'q) executor \<times> 'env) option" where
  "run_ready_tasks ops poll s = (case q_pop ops (task_queue (fst s)) of
      None \<Rightarrow> Some (Ok (), s)
    | Some (i, q) \<Rightarrow>
        (case poll_task poll i ((fst s)\<lparr>task_queue := q\<rparr>, snd s) of
           (Ok _, s') \<Rightarrow> run_ready_tasks ops poll s'
         | (Err e, s') \<Rightarrow> Some (Err e, s')
         | (Panic p, s') \<Rightarrow> Some (Panic p, s')))"

declare run_ready_tasks.simps [code]

text \<open>\<open>sleep_if_idle\<close>: with interrupts off the queue is tested; the processor halts or goes on.\<close>

datatype idle = Halts | Continues

definition sleep_if_idle :: "(u64, 'q) queue_ops \<Rightarrow> ('f, 'q) executor \<Rightarrow> idle" where
  "sleep_if_idle ops ex = (if q_is_empty ops (task_queue ex) then Halts else Continues)"

text \<open>One round of the endless loop of \<open>run\<close>.\<close>

definition executor_round :: "(u64, 'q) queue_ops \<Rightarrow> ('f, 'q, 'env) poll \<Rightarrow> ('f, 'q) executor \<times> 'env \<Rightarrow>
    ((infallible, idle) outcome \<times> ('f, 'q) executor \<times> 'env) option" where
  "executor_round ops poll s = (case run_ready_tasks ops poll s of
      None \<Rightarrow> None
    | Some (Ok _, s') \<Rightarrow> Some (Ok (sleep_if_idle ops (fst s')), s')
    | Some (Err e, s') \<Rightarrow> Some (Err e, s')
    | Some (Panic p, s') \<Rightarrow> Some (Panic p, s'))"

section \<open>Invariant\<close>

text \<open>
  Tasks are filed under their identifiers, and the cache holds wakers of existing tasks only, each
  the task's own: a task that has finished leaves nothing behind.
\<close>

definition executor_inv :: "('f, 'q) executor \<Rightarrow> bool" where
  "executor_inv ex \<longleftrightarrow>
     (\<forall>i t. bt_get i (tasks ex) = Some t \<longrightarrow> task_id t = i)
     \<and> (\<forall>i w. bt_get i (waker_cache ex) = Some w \<longrightarrow> w = i \<and> bt_get i (tasks ex) \<noteq> None)"

lemma executor_new_inv: "executor_inv (executor_new ops)"
  by (simp add: executor_inv_def executor_new_def)

lemma spawn_inv:
  assumes "executor_inv ex" "spawn ops t ex = (Ok (), ex')"
  shows "executor_inv ex'"
  using assms
  by (auto simp: spawn_def Let_def executor_inv_def bt_contains_key_iff split: if_splits prod.splits)

lemma executor_inv_queue [simp]: "executor_inv (ex\<lparr>task_queue := q\<rparr>) = executor_inv ex"
  by (simp add: executor_inv_def)

lemma poll_task_inv:
  assumes "executor_inv ex" "poll_task poll i (ex, env) = (Ok (), ex', env')"
  shows "executor_inv ex' \<and> (\<forall>j. bt_get j (tasks ex') \<noteq> None \<longrightarrow> bt_get j (tasks ex) \<noteq> None)"
  using assms
  by (auto simp: poll_task_def cached_waker_def executor_inv_def split: if_splits prod.splits option.splits outcome.splits)

section \<open>A round ends\<close>

text \<open>
  \<open>settling poll \<mu>\<close>: a poll wakes tasks only while it makes progress, by a measure \<open>\<mu>\<close> of the rest of
  the kernel, such as the input still to be read.
\<close>

definition settling :: "(u64, 'q) queue_ops \<Rightarrow> ('f, 'q, 'env) poll \<Rightarrow> ('env \<Rightarrow> nat) \<Rightarrow> bool" where
  "settling ops poll \<mu> \<longleftrightarrow> (\<forall>w f q env r q' env'. poll w f (q, env) = (r, q', env') \<longrightarrow>
     \<mu> env' < \<mu> env \<or> \<mu> env' = \<mu> env \<and> q_list ops q' = q_list ops q)"

lemma poll_task_progress:
  assumes "settling ops poll \<mu>" "poll_task poll i (ex, env) = (r, ex', env')"
  shows "\<mu> env' < \<mu> env \<or> \<mu> env' = \<mu> env \<and> q_list ops (task_queue ex') = q_list ops (task_queue ex)"
proof (cases "bt_get i (tasks ex)")
  case None
  then show ?thesis using assms(2) by (simp add: poll_task_def)
next
  case (Some t)
  obtain w cache where c: "cached_waker i (waker_cache ex) = (w, cache)" by fastforce
  obtain r1 q1 env1 where p: "poll w (future t) (task_queue ex, env) = (r1, q1, env1)" by (metis prod.collapse)
  have "env' = env1 \<and> task_queue ex' = q1"
    using assms(2) Some p c unfolding poll_task_def by (auto split: outcome.splits if_splits)
  then show ?thesis using assms(1) p unfolding settling_def by blast
qed


text \<open>A queue on lists, and a task that needs two polls to finish.\<close>

definition list_queue :: "('a, 'a list \<times> nat) queue_ops" where
  "list_queue = \<lparr>q_new = (\<lambda>n. ([], n)), q_push = (\<lambda>a (xs, n). if length xs < n then Some (xs @ [a], n) else None),
     q_pop = (\<lambda>(xs, n). case xs of [] \<Rightarrow> None | x # xs \<Rightarrow> Some (x, xs, n)), q_is_empty = (\<lambda>(xs, n). xs = []),
     q_list = fst, q_capacity = snd\<rparr>"

lemma list_queue_lawful: "lawful_queue list_queue"
  by (auto simp: lawful_queue_def list_queue_def split: list.split)

definition countdown_poll :: "(nat, (u64 list \<times> nat), nat) poll" where
  "countdown_poll w f = (\<lambda>(q, work). if work = 0 then (Ok (True, f), q, work)
     else (case q_push list_queue w q of Some q' \<Rightarrow> (Ok (False, f), q', work - 1) | None \<Rightarrow> (Panic Unwrap, q, work)))"

lemma countdown_settling: "settling list_queue countdown_poll (\<lambda>work. work)"
  by (auto simp: settling_def countdown_poll_def split: if_splits option.splits)


end
