(* ===== verification/Keyboard_Queue.thy ===== *)
theory Keyboard_Queue
  imports Task_Executor Vga
begin

text \<open>
  The way of a scancode from the keyboard interrupt to the shell, \<open>shell/keyboard.rs\<close>: a queue that
  the interrupt handler fills and a stream that the shell reads, with a waker that puts the shell's
  task back into the executor's queue. \<open>ArrayQueue\<close> and \<open>AtomicWaker\<close> (\<open>futures_util\<close>) are parameters.
\<close>

section \<open>Parameters\<close>

record 'w waker_ops =
  aw_new :: 'w
  aw_register :: "u64 \<Rightarrow> 'w \<Rightarrow> 'w"
  aw_wake :: "'w \<Rightarrow> u64 option \<times> 'w"
  aw_take :: "'w \<Rightarrow> u64 option \<times> 'w"
  aw_stored :: "'w \<Rightarrow> u64 option"

text \<open>
  The cell of an \<open>AtomicWaker\<close> holds the waker registered last until it is woken or taken;
  \<open>aw_wake\<close> and \<open>aw_take\<close> say which waker that was.
\<close>

definition lawful_waker :: "'w waker_ops \<Rightarrow> bool" where
  "lawful_waker ops \<longleftrightarrow> aw_stored ops (aw_new ops) = None
     \<and> (\<forall>i w. aw_stored ops (aw_register ops i w) = Some i)
     \<and> (\<forall>w. fst (aw_wake ops w) = aw_stored ops w \<and> aw_stored ops (snd (aw_wake ops w)) = None)
     \<and> (\<forall>w. fst (aw_take ops w) = aw_stored ops w \<and> aw_stored ops (snd (aw_take ops w)) = None)"

record ('q, 't, 'w) input_deps =
  scancode_ops :: "(u8, 'q) queue_ops"
  ready_ops :: "(u64, 't) queue_ops"
  waker_ops :: "'w waker_ops"

definition lawful_input :: "('q, 't, 'w) input_deps \<Rightarrow> bool" where
  "lawful_input deps \<longleftrightarrow> lawful_queue (scancode_ops deps) \<and> lawful_queue (ready_ops deps) \<and> lawful_waker (waker_ops deps)"

section \<open>The statics\<close>

text \<open>\<open>SCANCODE_QUEUE\<close>, \<open>WAKER\<close>, the queue of the executor that a waker pushes to, and the screen.\<close>

record ('q, 't, 'w) input_state =
  scancode_queue :: "'q option"
  waker :: 'w
  ready_queue :: 't
  console :: writer

text \<open>\<open>WAKER.wake()\<close>.\<close>

definition wake :: "('q, 't, 'w) input_deps \<Rightarrow> (('q, 't, 'w) input_state, infallible, unit) op" where
  "wake deps = (\<lambda>s. case aw_wake (waker_ops deps) (waker s) of
      (None, w) \<Rightarrow> (Ok (), s\<lparr>waker := w\<rparr>)
    | (Some i, w) \<Rightarrow>
        (case wake_task (ready_ops deps) i (ready_queue s) of (r, q) \<Rightarrow> (r, s\<lparr>waker := w, ready_queue := q\<rparr>)))"

definition on_console :: "(writer, infallible, 'a) op \<Rightarrow> (('q, 't, 'w) input_state, infallible, 'a) op" where
  "on_console m = (\<lambda>s. case m (console s) of (r, w) \<Rightarrow> (r, s\<lparr>console := w\<rparr>))"

definition add_scancode :: "('q, 't, 'w) input_deps \<Rightarrow> u8 \<Rightarrow> (('q, 't, 'w) input_state, infallible, unit) op" where
  "add_scancode deps scancode = (\<lambda>s. case scancode_queue s of
      None \<Rightarrow> on_console (println ''WARNING: scancode queue uninitialized'') s
    | Some q \<Rightarrow>
        (case q_push (scancode_ops deps) scancode q of
           None \<Rightarrow> on_console (println ''WARNING: scancode queue full; dropping keyboard input'') s
         | Some q' \<Rightarrow> wake deps (s\<lparr>scancode_queue := Some q'\<rparr>)))"

definition scancode_stream_new :: "('q, 't, 'w) input_deps \<Rightarrow> (('q, 't, 'w) input_state, infallible, unit) op" where
  "scancode_stream_new deps = (\<lambda>s. case scancode_queue s of
      None \<Rightarrow> (Ok (), s\<lparr>scancode_queue := Some (q_new (scancode_ops deps) 100)\<rparr>)
    | Some _ \<Rightarrow> (Panic Unwrap, s))"

text \<open>\<open>queue.pop()\<close> on the initialised queue.\<close>

definition pop_scancode :: "('q, 't, 'w) input_deps \<Rightarrow> (('q, 't, 'w) input_state, infallible, u8 option) op" where
  "pop_scancode deps = (\<lambda>s. case scancode_queue s of
      None \<Rightarrow> (Panic Unwrap, s)
    | Some q \<Rightarrow> (case q_pop (scancode_ops deps) q of
         None \<Rightarrow> (Ok None, s)
       | Some (c, q') \<Rightarrow> (Ok (Some c), s\<lparr>scancode_queue := Some q'\<rparr>)))"

definition register_waker :: "('q, 't, 'w) input_deps \<Rightarrow> u64 \<Rightarrow> (('q, 't, 'w) input_state, infallible, unit) op" where
  "register_waker deps i = (\<lambda>s. (Ok (), s\<lparr>waker := aw_register (waker_ops deps) i (waker s)\<rparr>))"

definition take_waker :: "('q, 't, 'w) input_deps \<Rightarrow> (('q, 't, 'w) input_state, infallible, unit) op" where
  "take_waker deps = (\<lambda>s. (Ok (), s\<lparr>waker := snd (aw_take (waker_ops deps) (waker s))\<rparr>))"

text \<open>\<open>poll_next\<close> for the task with the given waker; \<open>None\<close> is \<open>Poll::Pending\<close>.\<close>

definition poll_next :: "('q, 't, 'w) input_deps \<Rightarrow> u64 \<Rightarrow> (('q, 't, 'w) input_state, infallible, u8 option) op" where
  "poll_next deps i =
     try_bind (pop_scancode deps) (\<lambda>r. case r of
       Some c \<Rightarrow> ret (Some c)
     | None \<Rightarrow>
         try_bind (register_waker deps i) (\<lambda>_.
         try_bind (pop_scancode deps) (\<lambda>r. case r of
           Some c \<Rightarrow> try_bind (take_waker deps) (\<lambda>_. ret (Some c))
         | None \<Rightarrow> ret None)))"

section \<open>Lemmas\<close>

definition pending :: "('q, 't, 'w) input_deps \<Rightarrow> ('q, 't, 'w) input_state \<Rightarrow> u8 list" where
  "pending deps s = (case scancode_queue s of None \<Rightarrow> [] | Some q \<Rightarrow> q_list (scancode_ops deps) q)"

definition ready :: "('q, 't, 'w) input_deps \<Rightarrow> ('q, 't, 'w) input_state \<Rightarrow> u64 list" where
  "ready deps s = q_list (ready_ops deps) (ready_queue s)"

definition registered :: "('q, 't, 'w) input_deps \<Rightarrow> ('q, 't, 'w) input_state \<Rightarrow> u64 option" where
  "registered deps s = aw_stored (waker_ops deps) (waker s)"

definition ready_room :: "('q, 't, 'w) input_deps \<Rightarrow> ('q, 't, 'w) input_state \<Rightarrow> nat" where
  "ready_room deps s = q_capacity (ready_ops deps) (ready_queue s)"

definition scancode_room :: "('q, 't, 'w) input_deps \<Rightarrow> ('q, 't, 'w) input_state \<Rightarrow> nat" where
  "scancode_room deps s = (case scancode_queue s of None \<Rightarrow> 100 | Some q \<Rightarrow> q_capacity (scancode_ops deps) q)"

lemmas input_abs = pending_def ready_def registered_def ready_room_def scancode_room_def

lemma pop_scancode_run:
  assumes "lawful_input deps" "scancode_queue s \<noteq> None"
  obtains "pending deps s = []" "pop_scancode deps s = (Ok None, s)"
  | c s' where "pop_scancode deps s = (Ok (Some c), s')" "pending deps s = c # pending deps s'"
      "registered deps s' = registered deps s" "ready deps s' = ready deps s" "ready_room deps s' = ready_room deps s"
      "console s' = console s" "scancode_queue s' \<noteq> None" "scancode_room deps s' = scancode_room deps s"
proof -
  obtain q where q: "scancode_queue s = Some q" using assms(2) by blast
  have "lawful_queue (scancode_ops deps)" using assms(1) by (simp add: lawful_input_def)
  then show thesis
  proof (cases rule: queue_pop [where q = q])
    case 1
    then show thesis using that(1) q by (simp add: pop_scancode_def pending_def)
  next
    case (2 c q')
    show thesis
      by (rule that(2) [of c "s\<lparr>scancode_queue := Some q'\<rparr>"])
        (use 2 q in \<open>simp_all add: pop_scancode_def input_abs\<close>)
  qed
qed

text \<open>
  The three cases of \<open>add_scancode\<close> on the initialised queue: the scancode is dropped with a
  warning, it is queued and the waker, if any, is woken, or the executor's queue has no room.
\<close>

lemma add_scancode_run:
  assumes "lawful_input deps" "scancode_queue s \<noteq> None" "writer_wf (console s)"
  obtains (dropped) s' where "add_scancode deps c s = (Ok (), s')" "pending deps s' = pending deps s"
      "registered deps s' = registered deps s" "ready deps s' = ready deps s" "pending deps s \<noteq> [] \<or> scancode_room deps s = 0"
      "writer_wf (console s')" "scancode_queue s' \<noteq> None" "ready_room deps s' = ready_room deps s"
      "scancode_room deps s' = scancode_room deps s"
  | (queued) s' where "add_scancode deps c s = (Ok (), s')" "pending deps s' = pending deps s @ [c]"
      "registered deps s' = None"
      "ready deps s' = ready deps s @ (case registered deps s of None \<Rightarrow> [] | Some i \<Rightarrow> [i])"
      "writer_wf (console s')" "scancode_queue s' \<noteq> None" "ready_room deps s' = ready_room deps s"
      "scancode_room deps s' = scancode_room deps s" "registered deps s = None \<or> length (ready deps s) < ready_room deps s"
  | (full) s' where "add_scancode deps c s = (Panic Unwrap, s')" "registered deps s \<noteq> None" "ready_room deps s \<le> length (ready deps s)"
proof -
  obtain q where q: "scancode_queue s = Some q" using assms(2) by blast
  have lq: "lawful_queue (scancode_ops deps)" and lr: "lawful_queue (ready_ops deps)" and lw: "lawful_waker (waker_ops deps)"
    using assms(1) by (simp_all add: lawful_input_def)
  show thesis
  proof (cases rule: queue_push [OF lq, where a = c and q = q])
    case 2
    obtain w where w: "println ''WARNING: scancode queue full; dropping keyboard input'' (console s) = (Ok (), w)" "writer_wf w"
      using println_ok [OF assms(3)] fresh_line_def by metis
    show thesis
      by (rule dropped [of "s\<lparr>console := w\<rparr>"])
        (use 2 q w in \<open>auto simp: add_scancode_def on_console_def input_abs\<close>)
  next
    case (1 q')
    let ?s = "s\<lparr>scancode_queue := Some q'\<rparr>"
    obtain r w where aw: "aw_wake (waker_ops deps) (waker s) = (r, w)" by fastforce
    then have w: "r = registered deps s" "aw_stored (waker_ops deps) w = None"
      using lw unfolding lawful_waker_def registered_def by (metis fst_conv, metis snd_conv)
    have add: "add_scancode deps c s = wake deps ?s" using 1(1) q by (simp add: add_scancode_def)
    show thesis
    proof (cases r)
      case None
      show thesis
        by (rule queued [of "?s\<lparr>waker := w\<rparr>"])
          (use None 1 q aw w add assms(3) in \<open>simp_all add: wake_def input_abs\<close>)
    next
      case (Some i)
      show thesis
      proof (cases rule: queue_push [OF lr, where a = i and q = "ready_queue s"])
        case (1 t)
        show thesis
          by (rule queued [of "?s\<lparr>waker := w, ready_queue := t\<rparr>"])
            (use Some 1 \<open>q_list (scancode_ops deps) q' = q_list (scancode_ops deps) q @ [c]\<close>
              \<open>q_capacity (scancode_ops deps) q' = q_capacity (scancode_ops deps) q\<close> q aw w add assms(3)
              in \<open>simp_all add: wake_def wake_task_def input_abs\<close>)
      next
        case 2
        show thesis
          by (rule full [of "?s\<lparr>waker := w, ready_queue := ready_queue s\<rparr>"])
            (use Some 2 aw w add in \<open>simp_all add: wake_def wake_task_def input_abs\<close>)
      qed
    qed
  qed
qed
end
