(* ===== verification/Wakeup.thy ===== *)
theory Wakeup
  imports Keyboard_Queue
begin

text \<open>
  The executor and the shell's stream of scancodes against the keyboard interrupt. The kernel has one
  task, the shell. Its part of the loop is cut where an interrupt can come in between: at every
  operation on a queue or on the waker. The test of \<open>sleep_if_idle\<close> and the halt are one step, since
  interrupts are off from the test on and are turned on by the halting instruction.
\<close>

section \<open>The machine\<close>

text \<open>
  Where the processor is: popping a task in \<open>run_ready_tasks\<close>; at one of the operations of
  \<open>poll_next\<close>; handling a scancode in the shell; in \<open>sleep_if_idle\<close>; or halted. \<open>Start\<close> is the first
  poll of the shell, which makes the stream.
\<close>

datatype location =
    Start | PopTask | Polling | Registering | Rechecking | Taking u8 | Handling u8
  | CheckIdle | Halted | Ended | Panicked

record ('q, 't, 'w) machine =
  at :: location
  input :: "('q, 't, 'w) input_state"

text \<open>The task identifier of the shell, the first one that \<open>TaskId::new\<close> gives.\<close>

definition shell_id :: u64 where
  "shell_id = task_id (fst (task_new () 0))"

text \<open>A step of the processor, and where it goes with the result of an operation.\<close>

definition goes :: "(infallible, 'a) outcome \<times> ('q, 't, 'w) input_state \<Rightarrow> ('a \<Rightarrow> location) \<Rightarrow> ('q, 't, 'w) machine" where
  "goes rs next = (case rs of
      (Ok x, s) \<Rightarrow> \<lparr>at = next x, input = s\<rparr>
    | (Err e, s) \<Rightarrow> \<lparr>at = Panicked, input = s\<rparr>
    | (Panic p, s) \<Rightarrow> \<lparr>at = Panicked, input = s\<rparr>)"

fun cpu_step :: "('q, 't, 'w) input_deps \<Rightarrow> ('q, 't, 'w) machine \<Rightarrow> ('q, 't, 'w) machine option" where
  "cpu_step deps m = (let s = input m in case at m of
      Start \<Rightarrow> Some (goes (scancode_stream_new deps s) (\<lambda>_. Polling))
    | PopTask \<Rightarrow>
        (case q_pop (ready_ops deps) (ready_queue s) of
           None \<Rightarrow> Some (m\<lparr>at := CheckIdle\<rparr>)
         | Some (i, q) \<Rightarrow> Some \<lparr>at = (if i = shell_id then Polling else PopTask), input = s\<lparr>ready_queue := q\<rparr>\<rparr>)
    | Polling \<Rightarrow> Some (goes (pop_scancode deps s) (\<lambda>r. case r of Some c \<Rightarrow> Handling c | None \<Rightarrow> Registering))
    | Registering \<Rightarrow> Some (goes (register_waker deps shell_id s) (\<lambda>_. Rechecking))
    | Rechecking \<Rightarrow> Some (goes (pop_scancode deps s) (\<lambda>r. case r of Some c \<Rightarrow> Taking c | None \<Rightarrow> PopTask))
    | Taking c \<Rightarrow> Some (goes (take_waker deps s) (\<lambda>_. Handling c))
    | CheckIdle \<Rightarrow> Some (m\<lparr>at := if q_is_empty (ready_ops deps) (ready_queue s) then Halted else PopTask\<rparr>)
    | _ \<Rightarrow> None)"

declare cpu_step.simps [simp del]

definition cpu_goes :: "('q, 't, 'w) input_deps \<Rightarrow> ('q, 't, 'w) machine \<Rightarrow> ('q, 't, 'w) machine \<Rightarrow> bool" where
  "cpu_goes deps m m' \<longleftrightarrow> cpu_step deps m = Some m'"

text \<open>
  The steps of the machine: of the processor; of the shell, which has handled a scancode and asks for
  the next one, has written to the screen, or has ended; and the two interrupts, which also end a halt. The handler of the timer
  prints a dot.
\<close>

definition resume :: "location \<Rightarrow> location" where
  "resume l = (if l = Halted then PopTask else l)"

inductive wake_step :: "('q, 't, 'w) input_deps \<Rightarrow> ('q, 't, 'w) machine \<Rightarrow> ('q, 't, 'w) machine \<Rightarrow> bool"
  for deps where
  cpu: "cpu_step deps m = Some m' \<Longrightarrow> wake_step deps m m'"
| handled: "at m = Handling c \<Longrightarrow> wake_step deps m (m\<lparr>at := Polling\<rparr>)"
| prints: "at m \<in> {Start, Handling c} \<Longrightarrow> writer_wf w \<Longrightarrow> wake_step deps m (m\<lparr>input := (input m)\<lparr>console := w\<rparr>\<rparr>)"
| ended: "at m = Handling c \<Longrightarrow> wake_step deps m (m\<lparr>at := Ended\<rparr>)"
| key: "at m \<notin> {Ended, Panicked} \<Longrightarrow> wake_step deps m (goes (add_scancode deps c (input m)) (\<lambda>_. resume (at m)))"
| timer: "at m \<notin> {Ended, Panicked} \<Longrightarrow> wake_step deps m (goes (on_console (print ''.'') (input m)) (\<lambda>_. resume (at m)))"

text \<open>The kernel's first poll of the shell: the task is popped, the stream is not there yet.\<close>

definition machine_init :: "('q, 't, 'w) input_deps \<Rightarrow> writer \<Rightarrow> ('q, 't, 'w) machine" where
  "machine_init deps w = \<lparr>at = Start, input = \<lparr>scancode_queue = None, waker = aw_new (waker_ops deps),
     ready_queue = q_new (ready_ops deps) 100, console = w\<rparr>\<rparr>"

text \<open>Without interrupts the steps from \<open>Polling\<close> on are those of \<open>poll_next\<close>.\<close>

lemma poll_next_steps:
  assumes "poll_next deps shell_id s = (Ok r, s')" "at m = Polling" "input m = s"
  shows "(cpu_goes deps)\<^sup>*\<^sup>* m \<lparr>at = (case r of Some c \<Rightarrow> Handling c | None \<Rightarrow> PopTask), input = s'\<rparr>"
proof -
  let ?R = "cpu_goes deps"
  obtain r1 s1 where p1: "pop_scancode deps s = (Ok r1, s1)"
    and rest: "(case r1 of Some c \<Rightarrow> ret (Some c) | None \<Rightarrow> try_bind (register_waker deps shell_id) (\<lambda>_.
      try_bind (pop_scancode deps) (\<lambda>r. case r of Some c \<Rightarrow> try_bind (take_waker deps) (\<lambda>_. ret (Some c))
         | None \<Rightarrow> ret None))) s1 = (Ok r, s')"
    using assms(1) unfolding poll_next_def by (auto elim!: try_bind_OkE)
  have st1: "?R m \<lparr>at = (case r1 of Some c \<Rightarrow> Handling c | None \<Rightarrow> Registering), input = s1\<rparr>"
    using assms(2,3) p1 by (simp add: cpu_goes_def cpu_step.simps Let_def goes_def)
  show ?thesis
  proof (cases r1)
    case (Some c)
    then show ?thesis using st1 rest by auto
  next
    case None
    obtain s2 r2 s3 where p2: "register_waker deps shell_id s1 = (Ok (), s2)" "pop_scancode deps s2 = (Ok r2, s3)"
      and rest2: "(case r2 of Some c \<Rightarrow> try_bind (take_waker deps) (\<lambda>_. ret (Some c)) | None \<Rightarrow> ret None) s3 = (Ok r, s')"
      using rest None by (auto elim!: try_bind_OkE)
    have st2: "?R \<lparr>at = Registering, input = s1\<rparr> \<lparr>at = Rechecking, input = s2\<rparr>"
      "?R \<lparr>at = Rechecking, input = s2\<rparr> \<lparr>at = (case r2 of Some c \<Rightarrow> Taking c | None \<Rightarrow> PopTask), input = s3\<rparr>"
      using p2 by (simp_all add: cpu_goes_def cpu_step.simps Let_def goes_def)
    have st3: "?R\<^sup>*\<^sup>* m \<lparr>at = (case r2 of Some c \<Rightarrow> Taking c | None \<Rightarrow> PopTask), input = s3\<rparr>"
      using st1 st2 None by (simp add: rtranclp.rtrancl_into_rtrancl r_into_rtranclp)
    show ?thesis
    proof (cases r2)
      case None
      then show ?thesis using st3 rest2 by simp
    next
      case (Some c)
      then have "take_waker deps s3 = (Ok (), s')" "r = Some c" using rest2 by (auto elim!: try_bind_OkE)
      then have "?R \<lparr>at = Taking c, input = s3\<rparr> \<lparr>at = Handling c, input = s'\<rparr>" by (simp add: cpu_goes_def cpu_step.simps Let_def goes_def)
      then show ?thesis using st3 Some \<open>r = Some c\<close> by (simp add: rtranclp.rtrancl_into_rtrancl)
    qed
  qed
qed

section \<open>No wake-up is lost\<close>

text \<open>
  What holds between the queue of scancodes, the waker and the queue of the executor at each
  location: when the shell is not running, it will be polled before the processor sleeps, or there is
  nothing to read and the next scancode will wake it.
\<close>

definition covered :: "location \<Rightarrow> u8 list \<Rightarrow> u64 option \<Rightarrow> u64 list \<Rightarrow> bool" where
  "covered l codes reg rdy \<longleftrightarrow> set rdy \<subseteq> {shell_id} \<and> reg \<in> {None, Some shell_id}
     \<and> (case l of
          Start \<Rightarrow> reg = None
        | PopTask \<Rightarrow> rdy \<noteq> [] \<or> reg \<noteq> None \<and> codes = []
        | CheckIdle \<Rightarrow> rdy \<noteq> [] \<or> reg \<noteq> None \<and> codes = []
        | Halted \<Rightarrow> rdy = [] \<and> reg \<noteq> None \<and> codes = []
        | Rechecking \<Rightarrow> rdy \<noteq> [] \<or> reg \<noteq> None
        | _ \<Rightarrow> True)"

definition covered_state :: "('q, 't, 'w) input_deps \<Rightarrow> location \<Rightarrow> ('q, 't, 'w) input_state \<Rightarrow> bool" where
  "covered_state deps l s \<longleftrightarrow> covered l (pending deps s) (registered deps s) (ready deps s)
     \<and> (l = Start \<longleftrightarrow> scancode_queue s = None) \<and> writer_wf (console s)
     \<and> scancode_room deps s = 100 \<and> ready_room deps s = 100"

definition wake_inv :: "('q, 't, 'w) input_deps \<Rightarrow> ('q, 't, 'w) machine \<Rightarrow> bool" where
  "wake_inv deps m \<longleftrightarrow> at m = Panicked \<or> covered_state deps (at m) (input m)"

lemma covered_key:
  assumes "covered l codes reg rdy" "l \<noteq> Start"
  shows "covered (resume l) (codes @ [c]) None (rdy @ (case reg of None \<Rightarrow> [] | Some i \<Rightarrow> [i]))"
  using assms by (cases l; cases reg) (auto simp: covered_def resume_def)

lemma covered_resume: "covered l codes reg rdy \<Longrightarrow> covered (resume l) codes reg rdy"
  by (cases l) (auto simp: covered_def resume_def)

lemma resume_Start [simp]: "resume l = Start \<longleftrightarrow> l = Start" "resume Start = Start"
  by (simp_all add: resume_def)

lemma machine_init_inv:
  assumes "lawful_input deps" "writer_wf w"
  shows "wake_inv deps (machine_init deps w)"
  using assms queue_new [of "ready_ops deps" 100]
  by (simp add: wake_inv_def covered_state_def covered_def machine_init_def input_abs lawful_input_def lawful_waker_def)

text \<open>The effect of each operation of the processor, case by case.\<close>

lemma pop_scancode_inv:
  assumes "lawful_input deps" "covered_state deps l s" "l \<in> {Polling, Rechecking}"
  shows "wake_inv deps (goes (pop_scancode deps s) (\<lambda>r. case r of Some c \<Rightarrow> if l = Polling then Handling c else Taking c
      | None \<Rightarrow> if l = Polling then Registering else PopTask))"
proof -
  have q: "scancode_queue s \<noteq> None" using assms(2,3) by (auto simp: covered_state_def)
  show ?thesis
  proof (cases rule: pop_scancode_run [OF assms(1) q])
    case 1
    then show ?thesis using assms(2,3) by (auto simp: goes_def wake_inv_def covered_state_def covered_def)
  next
    case (2 c s')
    then show ?thesis using assms(2) by (auto simp: goes_def wake_inv_def covered_state_def covered_def)
  qed
qed

lemma pop_task_inv:
  assumes "lawful_input deps" "covered_state deps PopTask s" "cpu_step deps \<lparr>at = PopTask, input = s\<rparr> = Some m'"
  shows "wake_inv deps m'"
proof -
  have "lawful_queue (ready_ops deps)" using assms(1) by (simp add: lawful_input_def)
  then show ?thesis
  proof (cases rule: queue_pop [where q = "ready_queue s"])
    case 1
    then show ?thesis using assms(2,3) by (auto simp: cpu_step.simps wake_inv_def covered_state_def covered_def ready_def)
  next
    case (2 i q)
    then show ?thesis using assms(2,3) by (auto simp: cpu_step.simps wake_inv_def covered_state_def covered_def input_abs Let_def)
  qed
qed

lemma cpu_step_inv:
  assumes law: "lawful_input deps" and inv: "wake_inv deps m" and step: "cpu_step deps m = Some m'"
  shows "wake_inv deps m'"
proof -
  obtain l s where m: "m = \<lparr>at = l, input = s\<rparr>" by (cases m) simp
  have lq: "lawful_queue (scancode_ops deps)" and lr: "lawful_queue (ready_ops deps)" and lw: "lawful_waker (waker_ops deps)"
    using law by (simp_all add: lawful_input_def)
  have cov: "covered_state deps l s" using inv step m by (auto simp: wake_inv_def cpu_step.simps)
  show ?thesis
  proof (cases l)
    case Start
    then show ?thesis
      using step cov m queue_new [OF lq, of 100]
      by (auto simp: cpu_step.simps wake_inv_def covered_state_def covered_def scancode_stream_new_def goes_def input_abs)
  next
    case PopTask
    then show ?thesis using pop_task_inv [OF law] cov step m by simp
  next
    case Polling
    then show ?thesis using pop_scancode_inv [OF law cov] step m by (auto simp: cpu_step.simps)
  next
    case Registering
    then show ?thesis
      using step cov m lw
      by (auto simp: cpu_step.simps wake_inv_def covered_state_def covered_def goes_def register_waker_def input_abs lawful_waker_def)
  next
    case Rechecking
    then show ?thesis using pop_scancode_inv [OF law cov] step m by (auto simp: cpu_step.simps)
  next
    case Taking
    then show ?thesis
      using step cov m lw
      by (auto simp: cpu_step.simps wake_inv_def covered_state_def covered_def goes_def take_waker_def input_abs lawful_waker_def)
  next
    case CheckIdle
    then show ?thesis
      using step cov m queue_empty [OF lr, of "ready_queue s"]
      by (auto simp: cpu_step.simps wake_inv_def covered_state_def covered_def ready_def)
  qed (use step m in \<open>simp_all add: cpu_step.simps\<close>)
qed

lemma key_inv:
  assumes law: "lawful_input deps" and cov: "covered_state deps l s"
  shows "wake_inv deps (goes (add_scancode deps c s) (\<lambda>_. resume l))"
proof (cases "l = Start")
  case True
  then have s: "scancode_queue s = None" "writer_wf (console s)" using cov by (simp_all add: covered_state_def)
  obtain w where "println ''WARNING: scancode queue uninitialized'' (console s) = (Ok (), w)" "writer_wf w"
    using println_ok [OF s(2)] fresh_line_def by metis
  then show ?thesis
    using cov s True by (simp add: add_scancode_def on_console_def goes_def wake_inv_def covered_state_def input_abs)
next
  case False
  then have q: "scancode_queue s \<noteq> None" "writer_wf (console s)" using cov by (simp_all add: covered_state_def)
  show ?thesis
  proof (cases rule: add_scancode_run [OF law q, where c = c])
    case (1 s')
    then show ?thesis
      using cov False by (auto simp: goes_def wake_inv_def covered_state_def covered_resume)
  next
    case (2 s')
    then show ?thesis
      using cov False by (auto simp: goes_def wake_inv_def covered_state_def covered_key)
  next
    case (3 s')
    then show ?thesis by (simp add: goes_def wake_inv_def)
  qed
qed

lemma timer_inv:
  assumes "covered_state deps l s"
  shows "wake_inv deps (goes (on_console (print ''.'') s) (\<lambda>_. resume l))"
proof -
  have "writer_wf (console s)" using assms by (simp add: covered_state_def)
  then obtain w where "print ''.'' (console s) = (Ok (), w)" "writer_wf w" by (rule print_ok)
  then show ?thesis
    using assms covered_resume by (simp add: on_console_def goes_def wake_inv_def covered_state_def input_abs)
qed

lemma wake_inv_step:
  assumes "lawful_input deps" "wake_step deps m m'" "wake_inv deps m"
  shows "wake_inv deps m'"
  using assms(2,3)
proof cases
  case cpu
  then show ?thesis using cpu_step_inv [OF assms(1,3)] by blast
next
  case handled
  then show ?thesis using assms(3) by (auto simp: wake_inv_def covered_state_def covered_def)
next
  case prints
  then show ?thesis using assms(3) by (auto simp: wake_inv_def covered_state_def covered_def input_abs)
next
  case ended
  then show ?thesis using assms(3) by (auto simp: wake_inv_def covered_state_def covered_def)
next
  case (key c)
  then show ?thesis using key_inv [OF assms(1)] assms(3) by (simp add: wake_inv_def)
next
  case timer
  then show ?thesis using timer_inv assms(3) by (simp add: wake_inv_def)
qed

interpretation wake_system: counted_system "wake_step deps" "\<lambda>m. lawful_input deps \<longrightarrow> wake_inv deps m" "\<lambda>_. True" for deps
  by unfold_locales (auto dest: wake_inv_step)

lemma wake_inv_reachable:
  assumes "lawful_input deps" "writer_wf w" "(wake_step deps)\<^sup>*\<^sup>* (machine_init deps w) m"
  shows "wake_inv deps m"
  using wake_system.reach_inv [OF assms(3)] machine_init_inv [OF assms(1,2)] assms(1) by blast


text \<open>A queue of the executor that holds the shell has it in front.\<close>

lemma shell_is_next:
  assumes "lawful_input deps" "wake_inv deps m" "at m = PopTask" "pending deps (input m) = c # rest"
  obtains m' where "cpu_goes deps m m'" "at m' = Polling" "pending deps (input m') = c # rest" "scancode_queue (input m') \<noteq> None"
proof -
  have lr: "lawful_queue (ready_ops deps)" using assms(1) by (simp add: lawful_input_def)
  have inv: "ready deps (input m) \<noteq> []" "set (ready deps (input m)) \<subseteq> {shell_id}" "scancode_queue (input m) \<noteq> None"
    using assms(2-4) by (auto simp: wake_inv_def covered_state_def covered_def)
  show thesis
  proof (cases rule: queue_pop [OF lr, where q = "ready_queue (input m)"])
    case 1
    then show thesis using inv(1) by (simp add: ready_def)
  next
    case (2 i q)
    show thesis
      by (rule that [of "\<lparr>at = Polling, input = (input m)\<lparr>ready_queue := q\<rparr>\<rparr>"])
        (use 2 inv assms(3,4) in \<open>auto simp: cpu_goes_def cpu_step.simps Let_def input_abs\<close>)
  qed
qed

lemma polling_handles:
  assumes "lawful_input deps" "scancode_queue (input m) \<noteq> None" "at m = Polling" "pending deps (input m) = c # rest"
  obtains m' where "cpu_goes deps m m'" "at m' = Handling c" "pending deps (input m') = rest"
proof (cases rule: pop_scancode_run [OF assms(1,2)])
  case 1
  then show thesis using assms(4) by simp
next
  case (2 d s')
  show thesis
    by (rule that [of "\<lparr>at = Handling c, input = s'\<rparr>"])
      (use 2 assms(3,4) in \<open>auto simp: cpu_goes_def cpu_step.simps Let_def goes_def\<close>)
qed

lemma rechecking_handles:
  assumes "lawful_input deps" "scancode_queue (input m) \<noteq> None" "at m = Rechecking" "pending deps (input m) = c # rest"
  obtains m' m'' where "cpu_goes deps m m'" "cpu_goes deps m' m''" "at m'' = Handling c" "pending deps (input m'') = rest"
proof (cases rule: pop_scancode_run [OF assms(1,2)])
  case 1
  then show thesis using assms(4) by simp
next
  case (2 d s')
  show thesis
    by (rule that [of "\<lparr>at = Taking c, input = s'\<rparr>"
        "\<lparr>at = Handling c, input = s'\<lparr>waker := snd (aw_take (waker_ops deps) (waker s'))\<rparr>\<rparr>"])
      (use 2 assms(3,4) in \<open>auto simp: cpu_goes_def cpu_step.simps Let_def goes_def take_waker_def pending_def\<close>)
qed

lemma registering_handles:
  assumes "lawful_input deps" "scancode_queue (input m) \<noteq> None" "at m = Registering" "pending deps (input m) = c # rest"
  obtains m1 m2 m3 where "cpu_goes deps m m1" "cpu_goes deps m1 m2" "cpu_goes deps m2 m3"
    "at m3 = Handling c" "pending deps (input m3) = rest"
proof -
  let ?m1 = "\<lparr>at = Rechecking, input = (input m)\<lparr>waker := aw_register (waker_ops deps) shell_id (waker (input m))\<rparr>\<rparr>"
  have m1: "cpu_goes deps m ?m1" using assms(3) by (simp add: cpu_goes_def cpu_step.simps Let_def goes_def register_waker_def)
  obtain m2 m3 where "cpu_goes deps ?m1 m2" "cpu_goes deps m2 m3" "at m3 = Handling c" "pending deps (input m3) = rest"
    by (rule rechecking_handles [OF assms(1), where m = ?m1 and c = c and rest = rest])
      (use assms(2,4) in \<open>simp_all add: pending_def\<close>)
  then show thesis using that [OF m1] by blast
qed

lemma busy_not_idle:
  assumes "lawful_input deps" "wake_inv deps m" "at m = CheckIdle" "pending deps (input m) = c # rest"
  obtains m1 where "cpu_goes deps m m1" "wake_inv deps m1" "at m1 = PopTask" "pending deps (input m1) = c # rest"
proof (rule that [of "m\<lparr>at := PopTask\<rparr>"])
  have "q_list (ready_ops deps) (ready_queue (input m)) \<noteq> []"
    using assms(2-4) by (auto simp: wake_inv_def covered_state_def covered_def ready_def)
  then show "cpu_goes deps m (m\<lparr>at := PopTask\<rparr>)"
    using assms(1,3) queue_empty [of "ready_ops deps" "ready_queue (input m)"]
    by (simp add: cpu_goes_def cpu_step.simps Let_def lawful_input_def)
qed (use assms in \<open>auto simp: wake_inv_def covered_state_def covered_def\<close>)

lemma relpowp_steps:
  "R a b \<Longrightarrow> \<exists>n \<le> 3. (R ^^ n) a b"
  "R a b \<Longrightarrow> R b c \<Longrightarrow> \<exists>n \<le> 3. (R ^^ n) a c"
  "R a b \<Longrightarrow> R b c \<Longrightarrow> R c d \<Longrightarrow> \<exists>n \<le> 3. (R ^^ n) a d"
proof -
  show "R a b \<Longrightarrow> \<exists>n \<le> 3. (R ^^ n) a b" by (rule exI [of _ 1]) (simp add: eq_OO)
  show "R a b \<Longrightarrow> R b c \<Longrightarrow> \<exists>n \<le> 3. (R ^^ n) a c"
    by (rule exI [of _ 2]) (auto simp: numeral_2_eq_2 eq_OO)
  show "R a b \<Longrightarrow> R b c \<Longrightarrow> R c d \<Longrightarrow> \<exists>n \<le> 3. (R ^^ n) a d"
    by (rule exI [of _ 3]) (auto simp: numeral_3_eq_3 eq_OO)
qed


section \<open>A run of the machine\<close>

text \<open>The parameters as lists and an optional waker, an empty screen, and a run up to the first halt.\<close>

definition slot_waker :: "u64 option waker_ops" where
  "slot_waker = \<lparr>aw_new = None, aw_register = (\<lambda>i _. Some i), aw_wake = (\<lambda>w. (w, None)), aw_take = (\<lambda>w. (w, None)), aw_stored = id\<rparr>"

definition list_input :: "(u8 list \<times> nat, u64 list \<times> nat, u64 option) input_deps" where
  "list_input = \<lparr>scancode_ops = list_queue, ready_ops = list_queue, waker_ops = slot_waker\<rparr>"

definition empty_screen :: writer where
  "empty_screen = writer_init blank_screen"

lemma list_input_lawful: "lawful_input list_input"
  by (simp add: lawful_input_def list_input_def list_queue_lawful lawful_waker_def slot_waker_def)

lemma empty_screen_wf: "writer_wf empty_screen"
  using displays_init by (simp add: empty_screen_def displays_def)

fun cpu_run :: "('q, 't, 'w) input_deps \<Rightarrow> nat \<Rightarrow> ('q, 't, 'w) machine \<Rightarrow> ('q, 't, 'w) machine option" where
  "cpu_run deps 0 m = Some m"
| "cpu_run deps (Suc n) m = (case cpu_step deps m of None \<Rightarrow> None | Some m' \<Rightarrow> cpu_run deps n m')"

lemma cpu_run_steps: "cpu_run deps n m = Some m' \<Longrightarrow> (wake_step deps)\<^sup>*\<^sup>* m m'"
proof (induction n arbitrary: m)
  case (Suc n)
  then obtain m1 where "cpu_step deps m = Some m1" "cpu_run deps n m1 = Some m'" by (auto split: option.splits)
  then show ?case using Suc.IH wake_step.cpu by (metis converse_rtranclp_into_rtranclp)
qed simp

definition first_halt :: "(u8 list \<times> nat, u64 list \<times> nat, u64 option) machine" where
  "first_halt = \<lparr>at = Halted, input = \<lparr>scancode_queue = Some ([], 100), waker = Some shell_id,
     ready_queue = ([], 100), console = empty_screen\<rparr>\<rparr>"

lemma first_halt_reachable: "(wake_step list_input)\<^sup>*\<^sup>* (machine_init list_input empty_screen) first_halt"
  by (rule cpu_run_steps [where n = 6])
    (simp add: eval_nat_numeral cpu_step.simps machine_init_def first_halt_def list_input_def list_queue_def slot_waker_def
      scancode_stream_new_def pop_scancode_def register_waker_def goes_def)


text \<open>The key with scancode 30 is pressed while the processor is halted.\<close>

definition key_down :: "(u8 list \<times> nat, u64 list \<times> nat, u64 option) machine" where
  "key_down = \<lparr>at = PopTask, input = \<lparr>scancode_queue = Some ([30], 100), waker = None,
     ready_queue = ([shell_id], 100), console = empty_screen\<rparr>\<rparr>"

lemma key_down_reachable: "(wake_step list_input)\<^sup>*\<^sup>* (machine_init list_input empty_screen) key_down"
proof -
  have "add_scancode list_input 30 (input first_halt) = (Ok (), input key_down)"
    by (simp add: add_scancode_def wake_def wake_task_def first_halt_def key_down_def list_input_def list_queue_def slot_waker_def)
  then have "wake_step list_input first_halt key_down"
    using wake_step.key [of first_halt list_input 30] by (simp add: goes_def resume_def first_halt_def key_down_def)
  then show ?thesis using first_halt_reachable by (rule rtranclp.rtrancl_into_rtrancl [rotated])
qed


end
