(* ===== verification/Wakeup_Overflow.thy ===== *)
theory Wakeup_Overflow
  imports Wakeup
begin

text \<open>
  The one way in which the path from the keyboard to the shell brings the kernel down.
\<close>

section \<open>The executor's queue can fill\<close>

text \<open>
  Each scancode that comes in between the registration and the second look at the queue puts the
  shell into the executor's queue while it is running. \<open>window n\<close>: this has happened \<open>n\<close> times.
\<close>

definition window :: "('q, 't, 'w) input_deps \<Rightarrow> nat \<Rightarrow> ('q, 't, 'w) machine \<Rightarrow> bool" where
  "window deps n m \<longleftrightarrow> (let s = input m in at m = Polling \<and> scancode_queue s \<noteq> None \<and> writer_wf (console s)
     \<and> pending deps s = [] \<and> length (ready deps s) = n \<and> ready_room deps s = 100 \<and> scancode_room deps s = 100)"

lemma window_start:
  assumes "lawful_input deps" "writer_wf w"
  obtains m where "wake_step deps (machine_init deps w) m" "window deps 0 m"
proof -
  have "lawful_queue (scancode_ops deps)" "lawful_queue (ready_ops deps)" using assms(1) by (simp_all add: lawful_input_def)
  then have q: "q_list (scancode_ops deps) (q_new (scancode_ops deps) 100) = []" "q_capacity (scancode_ops deps) (q_new (scancode_ops deps) 100) = 100"
     "q_list (ready_ops deps) (q_new (ready_ops deps) 100) = []" "q_capacity (ready_ops deps) (q_new (ready_ops deps) 100) = 100"
    by (simp_all add: queue_new)
  show thesis
    by (rule that [of "\<lparr>at = Polling, input = \<lparr>scancode_queue = Some (q_new (scancode_ops deps) 100), waker = aw_new (waker_ops deps),
         ready_queue = q_new (ready_ops deps) 100, console = w\<rparr>\<rparr>"], rule wake_step.cpu)
      (use q assms(2) in \<open>simp_all add: cpu_step.simps machine_init_def scancode_stream_new_def goes_def window_def input_abs Let_def\<close>)
qed

text \<open>The registration, with the queue still empty.\<close>

lemma window_registered:
  assumes "lawful_input deps" "window deps n m"
  obtains m' where "(wake_step deps)\<^sup>*\<^sup>* m m'" "at m' = Rechecking" "scancode_queue (input m') \<noteq> None"
    "writer_wf (console (input m'))" "pending deps (input m') = []" "length (ready deps (input m')) = n"
    "ready_room deps (input m') = 100" "scancode_room deps (input m') = 100" "registered deps (input m') = Some shell_id"
proof -
  let ?m1 = "\<lparr>at = Registering, input = input m\<rparr>"
  let ?m2 = "\<lparr>at = Rechecking, input = (input m)\<lparr>waker := aw_register (waker_ops deps) shell_id (waker (input m))\<rparr>\<rparr>"
  have w: "at m = Polling" "scancode_queue (input m) \<noteq> None" "pending deps (input m) = []"
    using assms(2) by (simp_all add: window_def Let_def)
  have "pop_scancode deps (input m) = (Ok None, input m)"
    by (rule pop_scancode_run [OF assms(1) w(2)]) (use w(3) in simp_all)
  then have "wake_step deps m ?m1" using w(1) by (intro wake_step.cpu) (simp add: cpu_step.simps Let_def goes_def)
  moreover have "wake_step deps ?m1 ?m2" by (rule wake_step.cpu) (simp add: cpu_step.simps Let_def goes_def register_waker_def)
  ultimately have "(wake_step deps)\<^sup>*\<^sup>* m ?m2" by (meson r_into_rtranclp rtranclp.rtrancl_into_rtrancl)
  then show thesis
    by (rule that) (use assms in \<open>simp_all add: window_def input_abs lawful_input_def lawful_waker_def Let_def\<close>)
qed

lemma window_again:
  assumes "lawful_input deps" "window deps n m" "n < 100"
  obtains m' where "(wake_step deps)\<^sup>*\<^sup>* m m'" "window deps (Suc n) m'"
proof -
  obtain m1 where m1: "(wake_step deps)\<^sup>*\<^sup>* m m1" "at m1 = Rechecking" "scancode_queue (input m1) \<noteq> None"
    "writer_wf (console (input m1))" "pending deps (input m1) = []" "length (ready deps (input m1)) = n"
    "ready_room deps (input m1) = 100" "scancode_room deps (input m1) = 100" "registered deps (input m1) = Some shell_id"
    by (rule window_registered [OF assms(1,2)])
  obtain s2 where s2: "add_scancode deps 0 (input m1) = (Ok (), s2)" "pending deps s2 = [0]" "length (ready deps s2) = Suc n"
    "writer_wf (console s2)" "scancode_queue s2 \<noteq> None" "ready_room deps s2 = 100" "scancode_room deps s2 = 100"
    by (rule add_scancode_run [OF assms(1) m1(3,4), where c = 0]) (use m1 assms(3) in simp_all)
  obtain s3 where s3: "pop_scancode deps s2 = (Ok (Some 0), s3)" "pending deps s3 = []" "ready deps s3 = ready deps s2"
    "console s3 = console s2" "scancode_queue s3 \<noteq> None" "ready_room deps s3 = 100" "scancode_room deps s3 = 100"
    by (rule pop_scancode_run [OF assms(1) s2(5)]) (use s2 in simp_all)
  let ?s4 = "s3\<lparr>waker := snd (aw_take (waker_ops deps) (waker s3))\<rparr>"
  have st: "wake_step deps m1 \<lparr>at = Rechecking, input = s2\<rparr>"
    using wake_step.key [of m1 deps 0] m1(2) s2(1) by (simp add: goes_def resume_def)
  have "wake_step deps \<lparr>at = Rechecking, input = s2\<rparr> \<lparr>at = Taking 0, input = s3\<rparr>"
    "wake_step deps \<lparr>at = Taking 0, input = s3\<rparr> \<lparr>at = Handling 0, input = ?s4\<rparr>"
    by (rule wake_step.cpu, simp add: cpu_step.simps goes_def take_waker_def s3(1))+
  moreover have "wake_step deps \<lparr>at = Handling 0, input = ?s4\<rparr> \<lparr>at = Polling, input = ?s4\<rparr>"
    using wake_step.handled [of "\<lparr>at = Handling 0, input = ?s4\<rparr>" 0 deps] by simp
  ultimately have "(wake_step deps)\<^sup>*\<^sup>* m \<lparr>at = Polling, input = ?s4\<rparr>"
    using m1(1) st by (meson rtranclp.rtrancl_into_rtrancl)
  then show thesis
    by (rule that) (use s2 s3 in \<open>simp add: window_def input_abs Let_def\<close>)
qed

lemma window_reachable:
  assumes "lawful_input deps" "writer_wf w" "n \<le> 100"
  shows "\<exists>m. (wake_step deps)\<^sup>*\<^sup>* (machine_init deps w) m \<and> window deps n m"
  using assms(3)
proof (induction n)
  case 0
  obtain m where "wake_step deps (machine_init deps w) m" "window deps 0 m" by (rule window_start [OF assms(1,2)])
  then show ?case by blast
next
  case (Suc n)
  then obtain m where m: "(wake_step deps)\<^sup>*\<^sup>* (machine_init deps w) m" "window deps n m" by auto
  obtain m' where "(wake_step deps)\<^sup>*\<^sup>* m m'" "window deps (Suc n) m'"
    by (rule window_again [OF assms(1) m(2)]) (use Suc.prems in simp)
  then show ?case using m(1) by (meson rtranclp_trans)
qed

text \<open>Nothing else panics here: neither the statics nor the screen.\<close>

lemma cpu_no_panic:
  assumes law: "lawful_input deps" and inv: "wake_inv deps m" and step: "cpu_step deps m = Some m'" and "at m \<noteq> Panicked"
  shows "at m' \<noteq> Panicked"
proof -
  have q: "at m = Start \<longleftrightarrow> scancode_queue (input m) = None" using inv assms(4) by (simp add: wake_inv_def covered_state_def)
  have pop: "\<exists>r s'. pop_scancode deps (input m) = (Ok r, s')" if "at m \<noteq> Start"
    using pop_scancode_run [OF law, of "input m"] q that by metis
  show ?thesis
    using step q pop
    by (auto simp: cpu_step.simps goes_def scancode_stream_new_def register_waker_def take_waker_def Let_def
        split: location.splits option.splits if_splits)
qed

lemma panic_when_full:
  assumes law: "lawful_input deps" and inv: "wake_inv deps m" and step: "wake_step deps m m'" and p: "at m' = Panicked" "at m \<noteq> Panicked"
  shows "100 \<le> length (ready deps (input m)) \<and> registered deps (input m) = Some shell_id"
  using step
proof cases
  case cpu
  then show ?thesis using cpu_no_panic [OF law inv _ p(2)] p(1) by blast
next
  case (key c)
  show ?thesis
  proof (cases "scancode_queue (input m)")
    case None
    obtain w where "println ''WARNING: scancode queue uninitialized'' (console (input m)) = (Ok (), w)"
      using println_ok inv p(2) unfolding wake_inv_def covered_state_def by metis
    then show ?thesis
      using None key p by (auto simp: add_scancode_def on_console_def goes_def resume_def split: if_splits)
  next
    case (Some q)
    have wf: "writer_wf (console (input m))" using inv p(2) by (simp add: wake_inv_def covered_state_def)
    show ?thesis
      by (rule add_scancode_run [OF law _ wf, where c = c])
        (use Some key p inv in \<open>auto simp: goes_def resume_def wake_inv_def covered_state_def covered_def split: if_splits\<close>)
  qed
next
  case timer
  obtain w where "print ''.'' (console (input m)) = (Ok (), w)"
    using print_ok inv p(2) unfolding wake_inv_def covered_state_def by metis
  then show ?thesis using timer p by (auto simp: on_console_def goes_def resume_def split: if_splits)
qed (use p in auto)

text \<open>
  C35: when the kernel goes down here. The kernel can panic in the keyboard interrupt, at
  \<open>expect("task_queue full")\<close>: a hundred scancodes that each come in while the shell has registered
  its waker and not yet looked again leave a hundred entries for the shell in the executor's queue.
  This is the only panic of the path from the keyboard to the shell: whenever it panics, the queue
  of the executor was full and the waker of the shell registered.
\<close>

theorem task_queue_overflow:
  assumes "lawful_input deps" "writer_wf w"
  shows "(\<exists>m. (wake_step deps)\<^sup>*\<^sup>* (machine_init deps w) m \<and> at m = Panicked)
    \<and> (\<forall>m m'. (wake_step deps)\<^sup>*\<^sup>* (machine_init deps w) m \<and> wake_step deps m m' \<and> at m' = Panicked \<and> at m \<noteq> Panicked
        \<longrightarrow> 100 \<le> length (ready deps (input m)) \<and> registered deps (input m) = Some shell_id)"
proof
  obtain m where m: "(wake_step deps)\<^sup>*\<^sup>* (machine_init deps w) m" "window deps 100 m"
    using window_reachable [OF assms] by blast
  obtain m1 where m1: "(wake_step deps)\<^sup>*\<^sup>* m m1" "at m1 = Rechecking" "scancode_queue (input m1) \<noteq> None"
    "writer_wf (console (input m1))" "pending deps (input m1) = []" "length (ready deps (input m1)) = 100"
    "ready_room deps (input m1) = 100" "scancode_room deps (input m1) = 100" "registered deps (input m1) = Some shell_id"
    by (rule window_registered [OF assms(1) m(2)])
  have "\<exists>s. add_scancode deps 0 (input m1) = (Panic Unwrap, s)" 
    by (rule add_scancode_run [OF assms(1) m1(3,4), where c = 0]) (use m1 in auto)
  then have "\<exists>m2. wake_step deps m1 m2 \<and> at m2 = Panicked"
    using wake_step.key [of m1 deps 0] m1(2) by (force simp: goes_def)
  then show "\<exists>m. (wake_step deps)\<^sup>*\<^sup>* (machine_init deps w) m \<and> at m = Panicked"
    using m(1) m1(1) by (meson rtranclp.rtrancl_into_rtrancl rtranclp_trans)
  show "\<forall>m m'. (wake_step deps)\<^sup>*\<^sup>* (machine_init deps w) m \<and> wake_step deps m m' \<and> at m' = Panicked \<and> at m \<noteq> Panicked
      \<longrightarrow> 100 \<le> length (ready deps (input m)) \<and> registered deps (input m) = Some shell_id"
    using panic_when_full [OF assms(1) wake_inv_reachable [OF assms]] by blast
qed

theorem task_queue_overflow_witness: "\<exists>m. (wake_step list_input)\<^sup>*\<^sup>* (machine_init list_input empty_screen) m \<and> at m = Panicked"
  using task_queue_overflow [OF list_input_lawful empty_screen_wf] by simp

end
