(* ===== verification/Block_Device.thy ===== *)
theory Block_Device
  imports Prelude
begin

text \<open>
  Block devices, \<open>device/block.rs\<close>, and the floppy disk driver, \<open>drivers/block/floppy.rs\<close>. The trait
  has default methods for reading and writing; the driver overrides both with code that is still to
  be written. Nothing in the kernel uses a block device yet.
\<close>

record block_device_metadata =
  block_size :: usize
  total_blocks :: usize

datatype block_device_io_error = OperationNotSupported | UnalignedOffset | OffsetOutOfBounds | MismatchedBlockSize

text \<open>The trait: a device of type \<open>'d\<close>; \<open>read\<close> fills the buffer it is given.\<close>

record 'd block_device =
  bd_metadata :: "'d \<Rightarrow> block_device_metadata"
  bd_read :: "usize \<Rightarrow> u8 list \<Rightarrow> ('d, block_device_io_error, usize \<times> u8 list) op"
  bd_write :: "usize \<Rightarrow> u8 list \<Rightarrow> ('d, block_device_io_error, usize) op"

definition default_block_device :: "('d \<Rightarrow> block_device_metadata) \<Rightarrow> 'd block_device" where
  "default_block_device meta = \<lparr>bd_metadata = meta,
     bd_read = (\<lambda>offset buf. fail OperationNotSupported),
     bd_write = (\<lambda>offset buf. fail OperationNotSupported)\<rparr>"

section \<open>The floppy disk\<close>

record floppy_disk =
  drive_id :: u8
  direction :: bool
  step_index :: u8

definition floppy_new :: "u8 \<Rightarrow> floppy_disk" where
  "floppy_new drive = \<lparr>drive_id = drive, direction = False, step_index = 0\<rparr>"

definition floppy_reset :: "(floppy_disk, 'e, unit) op" where
  "floppy_reset = ret ()"

definition floppy_metadata :: "floppy_disk \<Rightarrow> block_device_metadata" where
  "floppy_metadata d = \<lparr>block_size = 512, total_blocks = 2880\<rparr>"

definition floppy_block_device :: "floppy_disk block_device" where
  "floppy_block_device = (default_block_device floppy_metadata)\<lparr>
     bd_read := (\<lambda>offset buf. panic Todo), bd_write := (\<lambda>offset buf. panic Todo)\<rparr>"

text \<open>
  The geometry is that of a disk of 1440 KiB, whatever the drive. A driver that implements only what
  the trait requires refuses to read and write; the floppy driver panics instead.
\<close>

lemma floppy_capacity:
  "block_size (bd_metadata floppy_block_device d) * total_blocks (bd_metadata floppy_block_device d) = 1440 * 1024"
  by (simp add: floppy_block_device_def default_block_device_def floppy_metadata_def)

lemma default_refuses:
  "bd_read (default_block_device meta) offset buf d = (Err OperationNotSupported, d)"
  "bd_write (default_block_device meta) offset buf d = (Err OperationNotSupported, d)"
  by (simp_all add: default_block_device_def fail_def)

lemma floppy_io_panics:
  "bd_read floppy_block_device offset buf (floppy_new drive) = (Panic Todo, floppy_new drive)"
  "bd_write floppy_block_device offset buf (floppy_new drive) = (Panic Todo, floppy_new drive)"
  by (simp_all add: floppy_block_device_def default_block_device_def panic_def)

end
