(* ===== verification/Virt_Addr.thy ===== *)
theory Virt_Addr
  imports Prelude
begin

text \<open>
  Virtual addresses, as numbers. The type \<open>VirtAddr\<close> belongs to the crate \<open>x86_64\<close>; the two operations on
  it that the kernel's set-up uses are parameters.
\<close>

text \<open>
  \<open>VirtAddr::new\<close> and the addition on \<open>VirtAddr\<close> panic, here \<open>None\<close>, on an address that is not canonical.
  Addresses below \<open>2^47\<close> are.
\<close>

record virt_ops =
  virt_new :: "nat \<Rightarrow> nat option"
  virt_add :: "nat \<Rightarrow> nat \<Rightarrow> nat option"

definition lawful_virt :: "virt_ops \<Rightarrow> bool" where
  "lawful_virt ops \<longleftrightarrow> (\<forall>a < 2 ^ 47. virt_new ops a = Some a) \<and> (\<forall>a b. a + b < 2 ^ 47 \<longrightarrow> virt_add ops a b = Some (a + b))"

text \<open>The lower half of the address space, as an instance.\<close>

definition lower_half :: virt_ops where
  "lower_half = (let canonical = (\<lambda>a. if a < 2 ^ 47 then Some a else None) in
     \<lparr>virt_new = canonical, virt_add = (\<lambda>a b. canonical (a + b))\<rparr>)"

lemma lower_half_lawful: "lawful_virt lower_half"
  by (simp add: lawful_virt_def lower_half_def Let_def)

end
