(* ===== verification/Frame_Allocator.thy ===== *)
theory Frame_Allocator
  imports Virt_Addr
begin

text \<open>
  Physical frames and the kernel heap, \<open>memory.rs\<close> and \<open>allocator.rs\<close>: the allocator that hands out
  the usable frames of the bootloader's memory map one after the other, and the mapping of the heap.
  The memory map, the address types and the page table mapper belong to the crates \<open>bootloader\<close> and
  \<open>x86_64\<close>. Of their types the model keeps what the code reads; the functions it calls are
  parameters.
\<close>

section \<open>The page table\<close>

text \<open>
  \<open>active_level_4_table\<close> finds the table that \<open>CR3\<close> points to in the mapping of the physical memory.
  \<open>Cr3::read\<close> gives the physical address \<open>cr3\<close> of its frame; \<open>table_at\<close> stands for \<open>OffsetPageTable::new\<close>
  on the table at an address and the offset of the mapping.
\<close>

definition active_level_4_table :: "virt_ops \<Rightarrow> nat \<Rightarrow> nat \<Rightarrow> ('s, 'e, nat) op" where
  "active_level_4_table virt cr3 physical_memory_offset =
     (case virt_add virt physical_memory_offset cr3 of None \<Rightarrow> panic Explicit | Some a \<Rightarrow> ret a)"

definition memory_init :: "virt_ops \<Rightarrow> (nat \<Rightarrow> nat \<Rightarrow> 'm) \<Rightarrow> nat \<Rightarrow> nat \<Rightarrow> ('s, 'e, 'm) op" where
  "memory_init virt table_at cr3 physical_memory_offset =
     try_bind (active_level_4_table virt cr3 physical_memory_offset) (\<lambda>level_4_table.
     ret (table_at level_4_table physical_memory_offset))"

section \<open>The frame allocator\<close>

text \<open>What the code reads of a region of the memory map: whether its type is \<open>Usable\<close>, and its range.\<close>

record memory_region =
  usable :: bool
  start_addr :: nat
  end_addr :: nat

type_synonym memory_map = "memory_region list"

record frame_allocator =
  memory_map :: memory_map
  next_frame :: usize

definition allocator_init :: "memory_map \<Rightarrow> frame_allocator" where
  "allocator_init m = \<lparr>memory_map = m, next_frame = 0\<rparr>"

text \<open>\<open>(start..end).step_by(4096)\<close>.\<close>

function step_by_4096 :: "nat \<Rightarrow> nat \<Rightarrow> nat list" where
  "step_by_4096 lo hi = (if lo < hi then lo # step_by_4096 (lo + 4096) hi else [])"
  by auto
termination by (relation "measure (\<lambda>(lo, hi). hi - lo)") auto

declare step_by_4096.simps [simp del]

text \<open>The addresses that \<open>usable_frames\<close> iterates over, before they are made into frames.\<close>

definition frame_addresses :: "memory_map \<Rightarrow> nat list" where
  "frame_addresses m = concat (map (\<lambda>r. step_by_4096 (start_addr r) (end_addr r)) (filter usable m))"

text \<open>
  \<open>PhysAddr::new\<close> and \<open>PhysFrame::containing_address\<close> are the parameter \<open>frame_of\<close>: the frame that
  contains an address, or nothing where \<open>PhysAddr::new\<close> panics. \<open>nth\<close> makes the frames of all
  addresses up to the one it returns.
\<close>

definition allocate_frame :: "(nat \<Rightarrow> 'f option) \<Rightarrow> (frame_allocator, 'e, 'f option) op" where
  "allocate_frame frame_of = (\<lambda>al.
     let made = map frame_of (take (Suc (next_frame al)) (frame_addresses (memory_map al))) in
     if None \<in> set made then (Panic Explicit, al)
     else
       try_bind (checked_add (next_frame al) 1) (\<lambda>n al.
         (Ok (if next_frame al < length made then made ! next_frame al else None), al\<lparr>next_frame := n\<rparr>)) al)"

section \<open>The heap\<close>

definition HEAP_START :: nat where
  "HEAP_START = 0x444444440000"

definition HEAP_SIZE :: nat where
  "HEAP_SIZE = 128 * 1024"

text \<open>
  Pages by their number. \<open>Page::range_inclusive\<close> runs from the page that contains the first byte of
  the heap to the one that contains the last.
\<close>

definition heap_pages :: "nat list" where
  "heap_pages = [HEAP_START div 4096..<Suc ((HEAP_START + HEAP_SIZE - 1) div 4096)]"

datatype 'e heap_error = FrameAllocationFailed | MapError 'e

text \<open>
  \<open>map_to page frame\<close> stands for \<open>Mapper::map_to\<close> with the flags \<open>PRESENT | WRITABLE\<close> and the flush
  of the page; it may take frames for page tables from the allocator. \<open>heap\<close> is the region the
  global allocator manages.
\<close>

record 'm memory =
  mapper :: 'm
  frames :: frame_allocator
  heap :: "(nat \<times> nat) option"

definition allocate_for_heap :: "(nat \<Rightarrow> 'f option) \<Rightarrow> ('m memory, 'e heap_error, 'f) op" where
  "allocate_for_heap frame_of = (\<lambda>s. case allocate_frame frame_of (frames s) of
      (Ok (Some f), al) \<Rightarrow> (Ok f, s\<lparr>frames := al\<rparr>)
    | (Ok None, al) \<Rightarrow> (Err FrameAllocationFailed, s\<lparr>frames := al\<rparr>)
    | (Err e, al) \<Rightarrow> (Err e, s\<lparr>frames := al\<rparr>)
    | (Panic p, al) \<Rightarrow> (Panic p, s\<lparr>frames := al\<rparr>))"

definition map_page :: "(nat \<Rightarrow> 'f \<Rightarrow> ('m \<times> frame_allocator, 'e, unit) op) \<Rightarrow> nat \<Rightarrow> 'f \<Rightarrow>
    ('m memory, 'e heap_error, unit) op" where
  "map_page map_to page f = (\<lambda>s. case map_to page f (mapper s, frames s) of
      (Ok _, m, al) \<Rightarrow> (Ok (), s\<lparr>mapper := m, frames := al\<rparr>)
    | (Err e, m, al) \<Rightarrow> (Err (MapError e), s\<lparr>mapper := m, frames := al\<rparr>)
    | (Panic p, m, al) \<Rightarrow> (Panic p, s\<lparr>mapper := m, frames := al\<rparr>))"

definition init_heap :: "(nat \<Rightarrow> 'f option) \<Rightarrow> (nat \<Rightarrow> 'f \<Rightarrow> ('m \<times> frame_allocator, 'e, unit) op) \<Rightarrow>
    ('m memory, 'e heap_error, unit) op" where
  "init_heap frame_of map_to =
     try_bind (for_each heap_pages (\<lambda>page.
       try_bind (allocate_for_heap frame_of) (\<lambda>f.
       map_page map_to page f))) (\<lambda>_ s.
     (Ok (), s\<lparr>heap := Some (HEAP_START, HEAP_SIZE)\<rparr>))"

section \<open>What the parameters are relied on for\<close>

text \<open>
  An address below \<open>2^52\<close> is valid, and the frame that contains it starts at the multiple of 4096 at
  or below it. The usable regions of a memory map consist of whole frames and do not overlap.
\<close>

definition frame_law :: "(nat \<Rightarrow> 'f option) \<Rightarrow> ('f \<Rightarrow> nat) \<Rightarrow> bool" where
  "frame_law frame_of start \<longleftrightarrow> (\<forall>a < 2 ^ 52. \<exists>f. frame_of a = Some f \<and> start f = 4096 * (a div 4096))"

definition region_wf :: "memory_region \<Rightarrow> bool" where
  "region_wf r \<longleftrightarrow> 4096 dvd start_addr r \<and> 4096 dvd end_addr r \<and> end_addr r \<le> 2 ^ 52"

definition regions_apart :: "memory_region \<Rightarrow> memory_region \<Rightarrow> bool" where
  "regions_apart a b \<longleftrightarrow> end_addr a \<le> start_addr b \<or> end_addr b \<le> start_addr a"

definition map_wf :: "memory_map \<Rightarrow> bool" where
  "map_wf m \<longleftrightarrow> list_all region_wf (filter usable m) \<and> sorted_wrt regions_apart (filter usable m)"

section \<open>The usable frames\<close>

lemma step_by_4096_iff:
  assumes "4096 dvd lo"
  shows "a \<in> set (step_by_4096 lo hi) \<longleftrightarrow> 4096 dvd a \<and> lo \<le> a \<and> a < hi"
  using assms
proof (induction lo hi rule: step_by_4096.induct)
  case (1 lo hi)
  have "lo = a \<or> lo + 4096 \<le> a \<longleftrightarrow> lo \<le> a" if "4096 dvd a"
    using 1(2) that by (auto elim!: dvdE)
  then show ?case using 1 by (subst step_by_4096.simps) auto
qed

lemma step_by_4096_distinct: "4096 dvd lo \<Longrightarrow> distinct (step_by_4096 lo hi)"
proof (induction lo hi rule: step_by_4096.induct)
  case (1 lo hi)
  then show ?case by (subst step_by_4096.simps) (auto simp: step_by_4096_iff)
qed

lemma frame_addresses_iff:
  assumes "map_wf m"
  shows "a \<in> set (frame_addresses m) \<longleftrightarrow> 4096 dvd a \<and> (\<exists>r \<in> set m. usable r \<and> start_addr r \<le> a \<and> a < end_addr r)"
  using assms by (auto simp: frame_addresses_def map_wf_def list_all_iff region_wf_def step_by_4096_iff)

lemma frame_addresses_distinct:
  assumes "map_wf m"
  shows "distinct (frame_addresses m)"
proof -
  define rs where "rs = filter usable m"
  have "list_all region_wf rs" "sorted_wrt regions_apart rs" using assms by (simp_all add: map_wf_def rs_def)
  then have "distinct (concat (map (\<lambda>r. step_by_4096 (start_addr r) (end_addr r)) rs))"
  proof (induction rs)
    case (Cons r rs)
    have "set (step_by_4096 (start_addr r) (end_addr r)) \<inter> set (step_by_4096 (start_addr q) (end_addr q)) = {}"
      if "q \<in> set rs" for q
      using Cons.prems that by (auto simp: step_by_4096_iff region_wf_def regions_apart_def list_all_iff)
    then show ?case using Cons by (auto simp: step_by_4096_distinct region_wf_def)
  qed simp
  then show ?thesis by (simp add: frame_addresses_def rs_def)
qed

lemma frame_addresses_bound: "map_wf m \<Longrightarrow> a \<in> set (frame_addresses m) \<Longrightarrow> a < 2 ^ 52 \<and> 4096 dvd a"
  by (fastforce simp: frame_addresses_iff map_wf_def list_all_iff region_wf_def)

text \<open>Every call of the allocator gives the next usable frame, as long as there is one.\<close>

lemma allocate_frame_eq:
  assumes "frame_law frame_of start" "map_wf (memory_map al)" "Suc (next_frame al) < usize_limit"
  shows "\<exists>r. (allocate_frame frame_of al :: ('e, 'f option) outcome \<times> frame_allocator) = (Ok r, al\<lparr>next_frame := Suc (next_frame al)\<rparr>)
    \<and> map_option start r = (if next_frame al < length (frame_addresses (memory_map al))
         then Some (frame_addresses (memory_map al) ! next_frame al) else None)"
proof -
  let ?as = "frame_addresses (memory_map al)"
  have made: "\<exists>f. frame_of a = Some f \<and> start f = a" if "a \<in> set ?as" for a
    using frame_addresses_bound [OF assms(2) that] assms(1) by (auto simp: frame_law_def)
  then have "None \<notin> set (map frame_of (take (Suc (next_frame al)) ?as))" by (auto dest!: in_set_takeD) force
  moreover have "\<exists>f. frame_of (?as ! next_frame al) = Some f \<and> start f = ?as ! next_frame al" if "next_frame al < length ?as"
    using made that by simp
  ultimately show ?thesis
    using assms(3) by (auto simp: allocate_frame_def Let_def checked_add_def)
qed

fun allocate_frames :: "(nat \<Rightarrow> 'f option) \<Rightarrow> nat \<Rightarrow> (frame_allocator, infallible, 'f option list) op" where
  "allocate_frames frame_of 0 = ret []"
| "allocate_frames frame_of (Suc n) =
     try_bind (allocate_frame frame_of) (\<lambda>f. try_bind (allocate_frames frame_of n) (\<lambda>fs. ret (f # fs)))"

lemma allocate_frames_eq:
  assumes law: "frame_law frame_of start"
  shows "map_wf (memory_map al) \<Longrightarrow> next_frame al + n < usize_limit \<Longrightarrow>
    \<exists>rs. allocate_frames frame_of n al = (Ok rs, al\<lparr>next_frame := next_frame al + n\<rparr>)
      \<and> map (map_option start) rs = map Some (take n (drop (next_frame al) (frame_addresses (memory_map al))))
          @ replicate (next_frame al + n - max (next_frame al) (length (frame_addresses (memory_map al)))) None"
proof (induction n arbitrary: al)
  case (Suc n)
  let ?as = "frame_addresses (memory_map al)" and ?i = "next_frame al"
  let ?al = "al\<lparr>next_frame := Suc ?i\<rparr>"
  obtain r where r: "(allocate_frame frame_of al :: (infallible, _) outcome \<times> _) = (Ok r, ?al)"
    "map_option start r = (if ?i < length ?as then Some (?as ! ?i) else None)"
    using allocate_frame_eq [OF law Suc.prems(1)] Suc.prems(2) by auto
  obtain rs where rs: "allocate_frames frame_of n ?al = (Ok rs, ?al\<lparr>next_frame := Suc ?i + n\<rparr>)"
    "map (map_option start) rs = map Some (take n (drop (Suc ?i) ?as)) @ replicate (Suc ?i + n - max (Suc ?i) (length ?as)) None"
    using Suc.IH [of ?al] Suc.prems by auto
  have "allocate_frames frame_of (Suc n) al = (Ok (r # rs), al\<lparr>next_frame := ?i + Suc n\<rparr>)" using r(1) rs(1) by simp
  moreover have "map_option start r # map Some (take n (drop (Suc ?i) ?as)) @ replicate (Suc ?i + n - max (Suc ?i) (length ?as)) None =
      map Some (take (Suc n) (drop ?i ?as)) @ replicate (?i + Suc n - max ?i (length ?as)) None"
  proof (cases "?i < length ?as")
    case True
    then show ?thesis using r(2) by (simp add: Cons_nth_drop_Suc [symmetric] max_def)
  next
    case False
    then have "?i + Suc n - max ?i (length ?as) = Suc n" "Suc ?i + n - max (Suc ?i) (length ?as) = n" by auto
    then show ?thesis using r(2) False by simp
  qed
  ultimately show ?case using rs(2) by simp
qed simp

text \<open>
  C19: the frame allocator gives out the usable frames of the memory map one by one: a sequence of
  \<open>n\<close> calls returns the first \<open>n\<close> of them, each lying inside a usable region and no frame twice, and
  nothing once they are used up. All whole frames of the usable regions are among them.
\<close>

theorem frames_correct:
  assumes "frame_law frame_of start" "map_wf m" "n < usize_limit"
  shows "\<exists>rs al. allocate_frames frame_of n (allocator_init m) = (Ok rs, al)
    \<and> map (map_option start) rs = map Some (take n (frame_addresses m)) @ replicate (n - length (frame_addresses m)) None
    \<and> distinct (frame_addresses m)
    \<and> set (frame_addresses m) = {a. 4096 dvd a \<and> (\<exists>r \<in> set m. usable r \<and> start_addr r \<le> a \<and> a + 4096 \<le> end_addr r)}"
proof -
  have "a + 4096 \<le> end_addr r \<longleftrightarrow> a < end_addr r" if "4096 dvd a" "r \<in> set m" "usable r" for a r
  proof -
    have "4096 dvd end_addr r" using assms(2) that by (auto simp: map_wf_def list_all_iff region_wf_def)
    then show ?thesis using that(1) by (auto elim!: dvdE)
  qed
  then have "(\<exists>r \<in> set m. usable r \<and> start_addr r \<le> a \<and> a < end_addr r) \<longleftrightarrow>
      (\<exists>r \<in> set m. usable r \<and> start_addr r \<le> a \<and> a + 4096 \<le> end_addr r)" if "4096 dvd a" for a
    using that by blast
  then have "set (frame_addresses m) = {a. 4096 dvd a \<and> (\<exists>r \<in> set m. usable r \<and> start_addr r \<le> a \<and> a + 4096 \<le> end_addr r)}"
    using frame_addresses_iff [OF assms(2)] by (simp add: set_eq_iff) blast
  then show ?thesis
    using allocate_frames_eq [OF assms(1), of "allocator_init m" n] frame_addresses_distinct [OF assms(2)] assms(2,3)
    by (auto simp: allocator_init_def)
qed

definition example_map :: memory_map where
  "example_map = [\<lparr>usable = True, start_addr = 0x1000, end_addr = 0x3000\<rparr>, \<lparr>usable = False, start_addr = 0x3000, end_addr = 0x9000\<rparr>,
     \<lparr>usable = True, start_addr = 0x9000, end_addr = 0xA000\<rparr>]"

definition frame_number :: "nat \<Rightarrow> nat option" where
  "frame_number a = (if a < 2 ^ 52 then Some (a div 4096) else None)"

lemma frame_number_law: "frame_law frame_number (\<lambda>f. 4096 * f)"
  by (simp add: frame_law_def frame_number_def)

theorem frames_correct_witness:
  "\<exists>rs al. allocate_frames frame_number 4 (allocator_init example_map) = (Ok rs, al)
     \<and> map (map_option (\<lambda>f. 4096 * f)) rs = [Some 0x1000, Some 0x2000, Some 0x9000, None]"
proof -
  have m: "map_wf example_map" "4 < usize_limit" "frame_addresses example_map = [0x1000, 0x2000, 0x9000]" by code_simp+
  show ?thesis using frames_correct [OF frame_number_law m(1,2)] m(3) by auto
qed

section \<open>The heap is mapped\<close>

text \<open>
  \<open>Mapper::map_to\<close>: when it succeeds the page is mapped to the frame and the other pages are mapped
  as before. From the frame allocator it can only take frames.
\<close>

definition mapper_law :: "(nat \<Rightarrow> 'f \<Rightarrow> ('m \<times> frame_allocator, 'e, unit) op) \<Rightarrow> ('m \<Rightarrow> nat \<Rightarrow> 'f option) \<Rightarrow> bool" where
  "mapper_law map_to lookup \<longleftrightarrow> (\<forall>page f m al r m' al'. map_to page f (m, al) = (r, m', al') \<longrightarrow>
     memory_map al' = memory_map al \<and> next_frame al \<le> next_frame al'
     \<and> (r = Ok () \<longrightarrow> lookup m' = (lookup m)(page \<mapsto> f)))"

lemma allocate_for_heap_Ok:
  assumes law: "frame_law frame_of start" and wf: "map_wf (memory_map (frames s))"
    and run: "(allocate_for_heap frame_of s :: ('e heap_error, 'f) outcome \<times> 'm memory) = (Ok f, s')"
  shows "next_frame (frames s) < length (frame_addresses (memory_map (frames s)))"
    "start f = frame_addresses (memory_map (frames s)) ! next_frame (frames s)"
    "s' = s\<lparr>frames := (frames s)\<lparr>next_frame := Suc (next_frame (frames s))\<rparr>\<rparr>"
proof -
  let ?al = "frames s"
  obtain al where al: "(allocate_frame frame_of ?al :: ('e heap_error, 'f option) outcome \<times> _) = (Ok (Some f), al)" "s' = s\<lparr>frames := al\<rparr>"
    using run by (auto simp: allocate_for_heap_def split: prod.splits outcome.splits option.splits)
  then have "Suc (next_frame ?al) < usize_limit"
    by (auto simp: allocate_frame_def Let_def checked_add_def split: if_splits)
  from allocate_frame_eq [OF law wf this, where ?'e = "'e heap_error"] al
  show "next_frame ?al < length (frame_addresses (memory_map ?al))" "start f = frame_addresses (memory_map ?al) ! next_frame ?al"
    "s' = s\<lparr>frames := ?al\<lparr>next_frame := Suc (next_frame ?al)\<rparr>\<rparr>"
    by (auto split: if_splits)
qed

lemma map_page_Ok:
  assumes "mapper_law map_to lookup" "map_page map_to page f s = (Ok (), s')"
  shows "lookup (mapper s') = (lookup (mapper s))(page \<mapsto> f)" "memory_map (frames s') = memory_map (frames s)"
    "next_frame (frames s) \<le> next_frame (frames s')"
proof -
  obtain m al where "map_to page f (mapper s, frames s) = (Ok (), m, al)" "s' = s\<lparr>mapper := m, frames := al\<rparr>"
    using assms(2) by (auto simp: map_page_def split: prod.splits outcome.splits)
  then show "lookup (mapper s') = (lookup (mapper s))(page \<mapsto> f)" "memory_map (frames s') = memory_map (frames s)"
    "next_frame (frames s) \<le> next_frame (frames s')"
    using assms(1) unfolding mapper_law_def by fastforce+
qed

text \<open>\<open>mapped lookup start as lo s p i\<close>: page \<open>p\<close> is mapped to the usable frame number \<open>i\<close>, given out since \<open>lo\<close>.\<close>

definition mapped :: "('m \<Rightarrow> nat \<Rightarrow> 'f option) \<Rightarrow> ('f \<Rightarrow> nat) \<Rightarrow> nat list \<Rightarrow> nat \<Rightarrow> 'm memory \<Rightarrow> nat \<Rightarrow> nat \<Rightarrow> bool" where
  "mapped lookup start as lo s p i \<longleftrightarrow>
     lo \<le> i \<and> i < next_frame (frames s) \<and> i < length as \<and> map_option start (lookup (mapper s) p) = Some (as ! i)"

lemma heap_loop:
  fixes map_to :: "nat \<Rightarrow> 'f \<Rightarrow> ('m \<times> frame_allocator, 'e, unit) op"
  assumes law: "frame_law frame_of start" and ml: "mapper_law map_to lookup"
  shows "distinct pages \<Longrightarrow> map_wf (memory_map (frames s)) \<Longrightarrow>
    for_each pages (\<lambda>page. try_bind (allocate_for_heap frame_of) (\<lambda>f. map_page map_to page f)) s = (Ok (), s') \<Longrightarrow>
    next_frame (frames s) \<le> next_frame (frames s') \<and> memory_map (frames s') = memory_map (frames s)
    \<and> (\<forall>p. p \<notin> set pages \<longrightarrow> lookup (mapper s') p = lookup (mapper s) p)
    \<and> (\<exists>idx. inj_on idx (set pages) \<and>
         (\<forall>p \<in> set pages. mapped lookup start (frame_addresses (memory_map (frames s))) (next_frame (frames s)) s' p (idx p)))"
proof (induction pages arbitrary: s)
  case (Cons p pages)
  let ?as = "frame_addresses (memory_map (frames s))" and ?n = "next_frame (frames s)"
  obtain f s1 s2 where run: "(allocate_for_heap frame_of s :: ('e heap_error, 'f) outcome \<times> 'm memory) = (Ok f, s1)" "map_page map_to p f s1 = (Ok (), s2)"
    "for_each pages (\<lambda>page. try_bind (allocate_for_heap frame_of) (\<lambda>f. map_page map_to page f)) s2 = (Ok (), s')"
    using Cons.prems(3) by (auto elim!: try_bind_OkE)
  note al = allocate_for_heap_Ok [OF law Cons.prems(2) run(1)]
  note mp = map_page_Ok [OF ml run(2)]
  have s2: "memory_map (frames s2) = memory_map (frames s)" "Suc ?n \<le> next_frame (frames s2)" using al(3) mp by simp_all
  from Cons.IH [OF _ _ run(3)] obtain idx where ih: "next_frame (frames s2) \<le> next_frame (frames s')"
    "memory_map (frames s') = memory_map (frames s)"
    "\<forall>q. q \<notin> set pages \<longrightarrow> lookup (mapper s') q = lookup (mapper s2) q"
    "inj_on idx (set pages)" "\<forall>q \<in> set pages. mapped lookup start ?as (next_frame (frames s2)) s' q (idx q)"
    using Cons.prems(1,2) s2(1) by auto
  let ?idx = "idx(p := ?n)"
  have p: "p \<notin> set pages" using Cons.prems(1) by simp
  have "mapped lookup start ?as ?n s' p ?n"
    using al(1,2) mp(1) ih(1,3) p s2(2) by (simp add: mapped_def)
  moreover have rest: "mapped lookup start ?as ?n s' q (idx q)" "idx q \<noteq> ?n" if "q \<in> set pages" for q
    using ih(5) that s2(2) by (auto simp: mapped_def)
  ultimately have "\<forall>q \<in> set (p # pages). mapped lookup start ?as ?n s' q (?idx q)"
    using p by auto
  moreover have "inj_on ?idx (set (p # pages))"
    using ih(4) rest(2) by (fastforce simp: inj_on_def)
  moreover have "lookup (mapper s') q = lookup (mapper s) q" if "q \<notin> set (p # pages)" for q
    using ih(3) mp(1) al(3) that by simp
  moreover have "?n \<le> next_frame (frames s')" using ih(1) s2(2) by simp
  ultimately show ?case using ih(2) by blast
qed simp

lemma heap_pages_range:
  "set heap_pages = {HEAP_START div 4096..<(HEAP_START + HEAP_SIZE) div 4096}" "distinct heap_pages"
proof -
  have "Suc ((HEAP_START + HEAP_SIZE - 1) div 4096) = (HEAP_START + HEAP_SIZE) div 4096"
    by (simp add: HEAP_START_def HEAP_SIZE_def)
  then show "set heap_pages = {HEAP_START div 4096..<(HEAP_START + HEAP_SIZE) div 4096}"
    by (simp only: heap_pages_def set_upt)
qed (simp only: heap_pages_def distinct_upt)

lemma heap_page_iff: "a div 4096 \<in> set heap_pages \<longleftrightarrow> HEAP_START \<le> a \<and> a < HEAP_START + HEAP_SIZE"
  unfolding heap_pages_range by (auto simp: HEAP_START_def HEAP_SIZE_def less_eq_div_iff_mult_less_eq div_less_iff_less_mult)

text \<open>
  C20: when the initialisation of the heap succeeds, every address of the heap lies in a page that is
  mapped to a usable frame; different pages have different frames; these frames were not given out
  before and will not be given out again, being among those that the allocator has passed; and the
  mapping of all other pages is as before.
\<close>

theorem heap_mapped:
  assumes "frame_law frame_of start" "mapper_law map_to lookup" "map_wf (memory_map (frames s))"
    "init_heap frame_of map_to s = (Ok (), s')"
  shows "heap s' = Some (HEAP_START, HEAP_SIZE)
    \<and> (\<exists>idx. inj_on idx {HEAP_START div 4096..<(HEAP_START + HEAP_SIZE) div 4096}
        \<and> (\<forall>a. HEAP_START \<le> a \<and> a < HEAP_START + HEAP_SIZE \<longrightarrow>
             map_option start (lookup (mapper s') (a div 4096)) = Some (frame_addresses (memory_map (frames s)) ! idx (a div 4096))
             \<and> idx (a div 4096) < length (frame_addresses (memory_map (frames s)))
             \<and> next_frame (frames s) \<le> idx (a div 4096) \<and> idx (a div 4096) < next_frame (frames s')))
    \<and> (\<forall>a. a < HEAP_START \<or> HEAP_START + HEAP_SIZE \<le> a \<longrightarrow> lookup (mapper s') (a div 4096) = lookup (mapper s) (a div 4096))"
proof -
  obtain s1 where run: "for_each heap_pages (\<lambda>page. try_bind (allocate_for_heap frame_of) (\<lambda>f. map_page map_to page f)) s = (Ok (), s1)"
    and s': "s' = s1\<lparr>heap := Some (HEAP_START, HEAP_SIZE)\<rparr>"
    using assms(4) by (auto simp: init_heap_def elim!: try_bind_OkE)
  have "a < HEAP_START \<or> HEAP_START + HEAP_SIZE \<le> a \<longleftrightarrow> a div 4096 \<notin> set heap_pages" for a
    using heap_page_iff [of a] by auto
  then show ?thesis
    using heap_loop [OF assms(1,2) heap_pages_range(2) assms(3) run] s'
    unfolding heap_pages_range(1) [symmetric] heap_page_iff [symmetric] by (auto simp: mapped_def)
qed

definition example_map_to :: "nat \<Rightarrow> nat \<Rightarrow> ((nat \<rightharpoonup> nat) \<times> frame_allocator, unit, unit) op" where
  "example_map_to page f = (\<lambda>(m, al). (Ok (), m(page \<mapsto> f), al))"

definition example_memory :: "(nat \<rightharpoonup> nat) memory" where
  "example_memory = \<lparr>mapper = Map.empty,
     frames = allocator_init [\<lparr>usable = True, start_addr = 0x100000, end_addr = 0x120000\<rparr>], heap = None\<rparr>"

lemma example_mapper_law: "mapper_law example_map_to id"
  by (simp add: mapper_law_def example_map_to_def)

lemma example_loop:
  "map_wf (memory_map (frames s)) \<Longrightarrow> next_frame (frames s) + length pages \<le> length (frame_addresses (memory_map (frames s))) \<Longrightarrow>
    length (frame_addresses (memory_map (frames s))) < usize_limit \<Longrightarrow>
    fst (for_each pages (\<lambda>page. try_bind (allocate_for_heap frame_number) (\<lambda>f. map_page example_map_to page f)) s) = Ok ()"
proof (induction pages arbitrary: s)
  case (Cons p pages)
  obtain f where "(allocate_frame frame_number (frames s) :: (unit heap_error, _) outcome \<times> _) =
      (Ok (Some f), (frames s)\<lparr>next_frame := Suc (next_frame (frames s))\<rparr>)"
    using allocate_frame_eq [OF frame_number_law Cons.prems(1), where ?'e = "unit heap_error"] Cons.prems(2,3)
    by (auto split: if_splits)
  then have al: "(allocate_for_heap frame_number s :: (unit heap_error, _) outcome \<times> _) =
      (Ok f, s\<lparr>frames := (frames s)\<lparr>next_frame := Suc (next_frame (frames s))\<rparr>\<rparr>)"
    by (simp add: allocate_for_heap_def)
  let ?s = "s\<lparr>mapper := (mapper s)(p \<mapsto> f), frames := (frames s)\<lparr>next_frame := Suc (next_frame (frames s))\<rparr>\<rparr>"
  have "map_page example_map_to p f (s\<lparr>frames := (frames s)\<lparr>next_frame := Suc (next_frame (frames s))\<rparr>\<rparr>) = (Ok (), ?s)"
    by (simp add: map_page_def example_map_to_def)
  then show ?case using al Cons.IH [of ?s] Cons.prems by simp
qed simp

lemma example_heap: "fst (init_heap frame_number example_map_to example_memory) = Ok ()"
proof -
  have "map_wf (memory_map (frames example_memory))"
    "next_frame (frames example_memory) + length heap_pages \<le> length (frame_addresses (memory_map (frames example_memory)))"
    "length (frame_addresses (memory_map (frames example_memory))) < usize_limit"
    by code_simp+
  from example_loop [OF this]
  have "\<exists>s1. for_each heap_pages (\<lambda>page. try_bind (allocate_for_heap frame_number) (\<lambda>f. map_page example_map_to page f)) example_memory = (Ok (), s1)"
    by (metis prod.collapse)
  then show ?thesis by (auto simp: init_heap_def)
qed

theorem heap_mapped_witness:
  "\<exists>s'. init_heap frame_number example_map_to example_memory = (Ok (), s') \<and> heap s' = Some (0x444444440000, 0x20000)
     \<and> (\<exists>f. mapper s' 0x444444440 = Some f)"
proof -
  obtain s' where s': "init_heap frame_number example_map_to example_memory = (Ok (), s')"
    using example_heap by (cases "init_heap frame_number example_map_to example_memory") auto
  have wf: "map_wf (memory_map (frames example_memory))" by code_simp
  have a: "HEAP_START \<le> HEAP_START \<and> HEAP_START < HEAP_START + HEAP_SIZE" "HEAP_START div 4096 = 0x444444440"
    "HEAP_START = 0x444444440000" "HEAP_SIZE = 0x20000"
    by (simp_all add: HEAP_START_def HEAP_SIZE_def)
  note result = heap_mapped [OF frame_number_law example_mapper_law wf s']
  from result obtain i where "map_option (\<lambda>f. 4096 * f) (id (mapper s') (HEAP_START div 4096)) = Some i"
    using a(1) by blast
  then have "\<exists>f. mapper s' 0x444444440 = Some f" unfolding a(2) by auto
  then show ?thesis using s' conjunct1 [OF result] unfolding a(3,4) by blast
qed

end
