(* ===== verification/Segment_Tables.thy ===== *)
theory Segment_Tables
  imports Virt_Addr
begin

text \<open>
  The segment tables, \<open>gdt.rs\<close>: a table with a code segment and the task state segment, which holds
  the stack that the processor switches to for a double fault. The table, the addresses and the
  registers belong to the crate \<open>x86_64\<close>. What the code does with them is modelled; the operations it
  calls are parameters.
\<close>

section \<open>Parameters\<close>

datatype descriptor = KernelCodeSegment | TssSegment

text \<open>
  \<open>GlobalDescriptorTable\<close>: \<open>append\<close> gives the selector of the new entry and panics when the table has no
  room for it, here \<open>None\<close>. A table starts with the null descriptor and has room for eight; a task
  state segment takes two places.
\<close>

record 'g gdt_ops =
  gdt_new :: 'g
  gdt_append :: "descriptor \<Rightarrow> 'g \<Rightarrow> (u16 \<times> 'g) option"
  gdt_entry :: "'g \<Rightarrow> u16 \<Rightarrow> descriptor option"
  gdt_used :: "'g \<Rightarrow> nat"

fun descriptor_size :: "descriptor \<Rightarrow> nat" where
  "descriptor_size KernelCodeSegment = 1"
| "descriptor_size TssSegment = 2"

definition lawful_gdt :: "'g gdt_ops \<Rightarrow> bool" where
  "lawful_gdt ops \<longleftrightarrow> gdt_used ops (gdt_new ops) = 1
     \<and> (\<forall>d g. gdt_used ops g + descriptor_size d \<le> 8 \<longrightarrow>
          (\<exists>i g'. gdt_append ops d g = Some (i, g') \<and> gdt_used ops g' = gdt_used ops g + descriptor_size d
             \<and> gdt_entry ops g' i = Some d \<and> (\<forall>j e. gdt_entry ops g j = Some e \<longrightarrow> gdt_entry ops g' j = Some e)))"

section \<open>The tables\<close>

definition DOUBLE_FAULT_IST_INDEX :: u16 where
  "DOUBLE_FAULT_IST_INDEX = 0"

text \<open>\<open>TaskStateSegment\<close>, of which the code sets an entry of the interrupt stack table.\<close>

record tss =
  interrupt_stack_table :: "nat list"

definition tss_new :: tss where
  "tss_new = \<lparr>interrupt_stack_table = replicate 7 0\<rparr>"

definition STACK_SIZE :: usize where
  "STACK_SIZE = 4096 * 5"

text \<open>The two static cells, whether \<open>gdt.load()\<close> has run, and the registers that select segments.\<close>

record 'g segments =
  gdt_cell :: "'g option"
  tss_cell :: "tss option"
  gdt_loaded :: bool
  cs_register :: "u16 option"
  task_register :: "u16 option"

definition segments_unset :: "'g segments" where
  "segments_unset = \<lparr>gdt_cell = None, tss_cell = None, gdt_loaded = False, cs_register = None, task_register = None\<rparr>"

text \<open>\<open>try_init(..).expect(..)\<close> on a static cell.\<close>

definition init_gdt_cell :: "'g \<Rightarrow> ('g segments, infallible, unit) op" where
  "init_gdt_cell g = (\<lambda>s. if gdt_cell s = None then (Ok (), s\<lparr>gdt_cell := Some g\<rparr>) else (Panic Unwrap, s))"

definition init_tss_cell :: "('g segments, infallible, unit) op" where
  "init_tss_cell = (\<lambda>s. if tss_cell s = None then (Ok (), s\<lparr>tss_cell := Some tss_new\<rparr>) else (Panic Unwrap, s))"

definition append_descriptor :: "'g gdt_ops \<Rightarrow> descriptor \<Rightarrow> ('g segments, infallible, u16) op" where
  "append_descriptor ops d = (\<lambda>s. case gdt_cell s of
      None \<Rightarrow> (Panic Unwrap, s)
    | Some g \<Rightarrow> (case gdt_append ops d g of
         None \<Rightarrow> (Panic Explicit, s)
       | Some (i, g') \<Rightarrow> (Ok i, s\<lparr>gdt_cell := Some g'\<rparr>)))"

definition set_double_fault_stack :: "nat \<Rightarrow> ('g segments, infallible, unit) op" where
  "set_double_fault_stack stack_end = (\<lambda>s. case tss_cell s of
      None \<Rightarrow> (Panic Unwrap, s)
    | Some t \<Rightarrow>
        if unat DOUBLE_FAULT_IST_INDEX < length (interrupt_stack_table t)
        then (Ok (), s\<lparr>tss_cell := Some (t\<lparr>interrupt_stack_table := (interrupt_stack_table t)[unat DOUBLE_FAULT_IST_INDEX := stack_end]\<rparr>)\<rparr>)
        else (Panic OutOfBounds, s))"

text \<open>\<open>stack_start\<close> is the address of the static \<open>STACK\<close>.\<close>

definition gdt_init :: "'g gdt_ops \<Rightarrow> virt_ops \<Rightarrow> nat \<Rightarrow> ('g segments, infallible, unit) op" where
  "gdt_init ops virt stack_start =
     try_bind (init_gdt_cell (gdt_new ops)) (\<lambda>_.
     try_bind (append_descriptor ops KernelCodeSegment) (\<lambda>code_segment.
     try_bind init_tss_cell (\<lambda>_.
     try_bind (case virt_add virt stack_start STACK_SIZE of None \<Rightarrow> panic Explicit | Some stack_end \<Rightarrow> ret stack_end) (\<lambda>stack_end.
     try_bind (set_double_fault_stack stack_end) (\<lambda>_.
     try_bind (append_descriptor ops TssSegment) (\<lambda>tss_segment s.
     (Ok (), s\<lparr>gdt_loaded := True, cs_register := Some code_segment, task_register := Some tss_segment\<rparr>)))))))"

section \<open>The tables are in place\<close>

text \<open>
  \<open>segments_ready\<close>: the table is loaded, its code segment is selected, and so is its task state
  segment, whose stack for double faults ends \<open>STACK_SIZE\<close> above its start.
\<close>

definition segments_ready :: "'g gdt_ops \<Rightarrow> nat \<Rightarrow> 'g segments \<Rightarrow> bool" where
  "segments_ready ops stack_start s \<longleftrightarrow> gdt_loaded s
     \<and> (\<exists>g t c i. gdt_cell s = Some g \<and> tss_cell s = Some t \<and> cs_register s = Some c \<and> task_register s = Some i
          \<and> gdt_entry ops g c = Some KernelCodeSegment \<and> gdt_entry ops g i = Some TssSegment
          \<and> interrupt_stack_table t ! unat DOUBLE_FAULT_IST_INDEX = stack_start + STACK_SIZE)"

lemma append_ok:
  assumes "lawful_gdt ops" "gdt_used ops g + descriptor_size d \<le> 8"
  obtains i g' where "gdt_append ops d g = Some (i, g')" "gdt_used ops g' = gdt_used ops g + descriptor_size d"
    "gdt_entry ops g' i = Some d" "\<And>j e. gdt_entry ops g j = Some e \<Longrightarrow> gdt_entry ops g' j = Some e"
  using assms unfolding lawful_gdt_def by blast

lemma gdt_init_ok:
  assumes "lawful_gdt ops" "lawful_virt virt" "stack_start + STACK_SIZE < 2 ^ 47"
  obtains s where "gdt_init ops virt stack_start segments_unset = (Ok (), s)" "segments_ready ops stack_start s"
proof -
  have new: "gdt_used ops (gdt_new ops) = 1" using assms(1) by (simp add: lawful_gdt_def)
  obtain c g1 where g1: "gdt_append ops KernelCodeSegment (gdt_new ops) = Some (c, g1)" "gdt_used ops g1 = 2"
    "gdt_entry ops g1 c = Some KernelCodeSegment"
    by (rule append_ok [OF assms(1), of "gdt_new ops" KernelCodeSegment]) (use new in auto)
  obtain i g2 where g2: "gdt_append ops TssSegment g1 = Some (i, g2)" "gdt_entry ops g2 i = Some TssSegment"
    "\<And>j e. gdt_entry ops g1 j = Some e \<Longrightarrow> gdt_entry ops g2 j = Some e"
    by (rule append_ok [OF assms(1), of g1 TssSegment]) (use g1(2) in auto)
  have top: "virt_add virt stack_start STACK_SIZE = Some (stack_start + STACK_SIZE)"
    using assms(2,3) by (simp add: lawful_virt_def)
  let ?s = "\<lparr>gdt_cell = Some g2, tss_cell = Some \<lparr>interrupt_stack_table = (replicate 7 0)[0 := stack_start + STACK_SIZE]\<rparr>,
    gdt_loaded = True, cs_register = Some c, task_register = Some i\<rparr>"
  have "gdt_init ops virt stack_start segments_unset = (Ok (), ?s)"
    using g1(1) g2(1) top
    by (simp add: gdt_init_def init_gdt_cell_def append_descriptor_def init_tss_cell_def set_double_fault_stack_def
        segments_unset_def tss_new_def DOUBLE_FAULT_IST_INDEX_def)
  moreover have "segments_ready ops stack_start ?s"
    using g2(2,3) g1(3) by (auto simp: segments_ready_def DOUBLE_FAULT_IST_INDEX_def)
  ultimately show thesis by (rule that)
qed

text \<open>A second call panics: the static cells are used up.\<close>

lemma gdt_init_once:
  assumes "segments_ready ops stack_start s"
  shows "gdt_init ops virt start s = (Panic Unwrap, s)"
  using assms by (auto simp: segments_ready_def gdt_init_def init_gdt_cell_def)

end
