(* ===== verification/Interrupts.thy ===== *)
theory Interrupts
  imports Wakeup Segment_Tables
begin

text \<open>
  The interrupt handlers, \<open>interrupts.rs\<close>, and how the two of the hardware are steps of the machine
  of \<open>Wakeup\<close>. The descriptor table is what \<open>init_idt\<close> enters into it; the processor's use of it, and
  the interrupt controllers except for the vectors they are told to be done, are hardware.
\<close>

section \<open>The descriptor table\<close>

datatype handler =
    BreakpointHandler | PageFaultHandler | DoubleFaultHandler | TimerInterruptHandler | KeyboardInterruptHandler

definition PIC_1_OFFSET :: u8 where
  "PIC_1_OFFSET = 32"

definition PIC_2_OFFSET :: u8 where
  "PIC_2_OFFSET = PIC_1_OFFSET + 8"

datatype interrupt_index = Timer | Keyboard

fun as_u8 :: "interrupt_index \<Rightarrow> u8" where
  "as_u8 Timer = PIC_1_OFFSET"
| "as_u8 Keyboard = PIC_1_OFFSET + 1"

text \<open>The double fault has a stack of its own, by its index in the task state segment.\<close>

record idt =
  breakpoint :: "handler option"
  page_fault :: "handler option"
  double_fault :: "(handler \<times> u16) option"
  vectors :: "u8 \<rightharpoonup> handler"

definition idt_new :: idt where
  "idt_new = \<lparr>breakpoint = None, page_fault = None, double_fault = None, vectors = Map.empty\<rparr>"

text \<open>The static cell takes a table once.\<close>

definition init_idt :: "(idt option, infallible, unit) op" where
  "init_idt = (\<lambda>cell. case cell of
      Some _ \<Rightarrow> (Panic Unwrap, cell)
    | None \<Rightarrow> (Ok (), Some (idt_new\<lparr>
        breakpoint := Some BreakpointHandler,
        page_fault := Some PageFaultHandler,
        double_fault := Some (DoubleFaultHandler, DOUBLE_FAULT_IST_INDEX),
        vectors := (vectors idt_new)(as_u8 Timer \<mapsto> TimerInterruptHandler, as_u8 Keyboard \<mapsto> KeyboardInterruptHandler)\<rparr>)))"

text \<open>Whether the interrupt controllers have been initialised, which the crate \<open>pic8259\<close> does.\<close>

definition init_pics :: "(bool, infallible, unit) op" where
  "init_pics = (\<lambda>_. (Ok (), True))"

section \<open>The handlers\<close>

text \<open>The statics of the keyboard's path, and the vectors that the controllers were told to be done.\<close>

record ('q, 't, 'w) irq_state =
  statics :: "('q, 't, 'w) input_state"
  acknowledged :: "u8 list"

definition on_statics :: "(('q, 't, 'w) input_state, infallible, 'a) op \<Rightarrow> (('q, 't, 'w) irq_state, infallible, 'a) op" where
  "on_statics m = (\<lambda>st. case m (statics st) of (r, s) \<Rightarrow> (r, st\<lparr>statics := s\<rparr>))"

definition acknowledge_interrupt :: "interrupt_index \<Rightarrow> (('q, 't, 'w) irq_state, infallible, unit) op" where
  "acknowledge_interrupt index = (\<lambda>st. (Ok (), st\<lparr>acknowledged := acknowledged st @ [as_u8 index]\<rparr>))"

definition timer_interrupt_handler :: "(('q, 't, 'w) irq_state, infallible, unit) op" where
  "timer_interrupt_handler =
     try_bind (on_statics (on_console (print ''.''))) (\<lambda>_. acknowledge_interrupt Timer)"

text \<open>The byte that port \<open>0x60\<close> reads is an argument.\<close>

definition keyboard_interrupt_handler :: "('q, 't, 'w) input_deps \<Rightarrow> u8 \<Rightarrow> (('q, 't, 'w) irq_state, infallible, unit) op" where
  "keyboard_interrupt_handler deps scancode =
     try_bind (on_statics (add_scancode deps scancode)) (\<lambda>_. acknowledge_interrupt Keyboard)"

text \<open>
  The exceptions. The stack frame, the address and the error code come formatted. A page fault ends
  in a loop that halts: \<open>Hangs\<close>.
\<close>

datatype continuation = Returns | Hangs

definition breakpoint_handler :: "string \<Rightarrow> (writer, infallible, continuation) op" where
  "breakpoint_handler frame =
     try_bind (println (''EXCEPTION: BREAKPOINT'' @ [CHR 0x0A] @ frame)) (\<lambda>_. ret Returns)"

definition page_fault_handler :: "string \<Rightarrow> string \<Rightarrow> string \<Rightarrow> (writer, infallible, continuation) op" where
  "page_fault_handler cr2 error_code frame =
     try_bind (println ''EXCEPTION: PAGE FAULT'') (\<lambda>_.
     try_bind (println (''Accessed Address: '' @ cr2)) (\<lambda>_.
     try_bind (println (''Error Code: '' @ error_code)) (\<lambda>_.
     try_bind (println frame) (\<lambda>_.
     ret Hangs))))"

definition double_fault_handler :: "string \<Rightarrow> (writer, infallible, continuation) op" where
  "double_fault_handler frame = panic Explicit"

text \<open>What the table does with a vector of the hardware.\<close>

definition deliver :: "('q, 't, 'w) input_deps \<Rightarrow> u8 \<Rightarrow> handler \<Rightarrow> (('q, 't, 'w) irq_state, infallible, unit) op" where
  "deliver deps port h = (case h of
      TimerInterruptHandler \<Rightarrow> timer_interrupt_handler
    | KeyboardInterruptHandler \<Rightarrow> keyboard_interrupt_handler deps port
    | _ \<Rightarrow> ret ())"

section \<open>The hardware's interrupts as steps\<close>

lemma pic_vectors: "as_u8 i \<in> {PIC_1_OFFSET..<PIC_2_OFFSET}" "as_u8 i = as_u8 j \<longleftrightarrow> i = j"
  by (cases i; cases j; simp add: PIC_1_OFFSET_def PIC_2_OFFSET_def word_le_nat_alt word_less_nat_alt)+

lemma idt_loaded:
  assumes "init_idt None = (Ok (), Some table)"
  shows "vectors table (as_u8 Timer) = Some TimerInterruptHandler" "vectors table (as_u8 Keyboard) = Some KeyboardInterruptHandler"
    "init_idt (Some table) = (Panic Unwrap, Some table)"
  using assms by (auto simp: init_idt_def PIC_1_OFFSET_def)

lemma on_statics_acknowledge:
  assumes "try_bind (on_statics m) (\<lambda>_. acknowledge_interrupt i) st = (r, st')"
  shows "fst (m (statics st)) = r" "statics st' = snd (m (statics st))"
    "acknowledged st' = acknowledged st @ (if r = Ok () then [as_u8 i] else [])"
  using assms
  by (auto simp: try_bind_def on_statics_def acknowledge_interrupt_def split: prod.splits outcome.splits)

text \<open>
  C34: the interrupts of the hardware, from the table to the shell. After \<open>init_idt\<close> the vectors of the
  timer and of the keyboard, and no other of the two controllers, have handlers. Delivering one of
  them, wherever the processor is, is a step of the machine of the keyboard's path; a handler that
  returns has acknowledged exactly its own vector, and one that panics has acknowledged nothing.
\<close>

theorem interrupts_delivered:
  assumes "init_idt None = (Ok (), Some table)" "vectors table v = Some h"
    and "at m \<notin> {Ended, Panicked}" "deliver deps port h \<lparr>statics = input m, acknowledged = done_before\<rparr> = (r, st')"
  shows "v \<in> {32, 33} \<and> wake_step deps m (goes (r, statics st') (\<lambda>_. resume (at m)))
    \<and> acknowledged st' = done_before @ (if r = Ok () then [v] else [])"
proof -
  have cases: "v = 32 \<and> h = TimerInterruptHandler \<or> v = 33 \<and> h = KeyboardInterruptHandler"
    using assms(1,2) by (auto simp: init_idt_def idt_new_def PIC_1_OFFSET_def split: if_splits)
  then show ?thesis
  proof
    assume t: "v = 32 \<and> h = TimerInterruptHandler"
    note run = on_statics_acknowledge [OF assms(4) [unfolded deliver_def t [THEN conjunct2] handler.case timer_interrupt_handler_def]]
    have "on_console (print ''.'') (input m) = (r, statics st')" using run(1,2) by (simp add: prod_eq_iff)
    then show ?thesis using wake_step.timer [OF assms(3), of deps] run(3) t by (simp add: PIC_1_OFFSET_def)
  next
    assume t: "v = 33 \<and> h = KeyboardInterruptHandler"
    note run = on_statics_acknowledge [OF assms(4) [unfolded deliver_def t [THEN conjunct2] handler.case keyboard_interrupt_handler_def]]
    have "add_scancode deps port (input m) = (r, statics st')" using run(1,2) by (simp add: prod_eq_iff)
    then show ?thesis using wake_step.key [OF assms(3), of deps port] run(3) t by (simp add: PIC_1_OFFSET_def)
  qed
qed

theorem interrupts_delivered_witness:
  "\<exists>table st'. init_idt None = (Ok (), Some table) \<and> vectors table 33 = Some KeyboardInterruptHandler
    \<and> deliver list_input 30 KeyboardInterruptHandler \<lparr>statics = input first_halt, acknowledged = [32]\<rparr> = (Ok (), st')
    \<and> wake_step list_input first_halt (goes (Ok (), statics st') (\<lambda>_. PopTask)) \<and> acknowledged st' = [32, 33]"
proof -
  obtain table where table: "init_idt None = (Ok (), Some table)" by (simp add: init_idt_def)
  then have v: "vectors table 33 = Some KeyboardInterruptHandler" using idt_loaded(2) by (simp add: PIC_1_OFFSET_def)
  have at: "at first_halt \<notin> {Ended, Panicked}" "resume (at first_halt) = PopTask" by (simp_all add: first_halt_def resume_def)
  have run: "deliver list_input 30 KeyboardInterruptHandler \<lparr>statics = input first_halt, acknowledged = [32]\<rparr> =
      (Ok (), \<lparr>statics = input key_down, acknowledged = [32, 33]\<rparr>)"
    by (simp add: deliver_def keyboard_interrupt_handler_def on_statics_def acknowledge_interrupt_def PIC_1_OFFSET_def
        add_scancode_def wake_def wake_task_def first_halt_def key_down_def list_input_def list_queue_def slot_waker_def)
  show ?thesis using interrupts_delivered [OF table v at(1) run] table v run at(2) by auto
qed

text \<open>The exceptions report on the screen; the processor goes on only after a breakpoint.\<close>

lemma exceptions_report:
  assumes "writer_wf w"
  shows "\<exists>w'. breakpoint_handler frame w = (Ok Returns, w') \<and> fresh_line w'"
    "\<exists>w'. page_fault_handler cr2 code frame w = (Ok Hangs, w') \<and> fresh_line w'"
    "double_fault_handler frame w = (Panic Explicit, w)"
proof -
  have line: "\<exists>w'. println s w = (Ok (), w') \<and> fresh_line w'" if "writer_wf w" for s w
    using println_ok [OF that] by metis
  show "\<exists>w'. breakpoint_handler frame w = (Ok Returns, w') \<and> fresh_line w'"
    using line [OF assms, of "''EXCEPTION: BREAKPOINT'' @ [CHR 0x0A] @ frame"] by (auto simp: breakpoint_handler_def)
  have wf: "writer_wf w" if "fresh_line w" for w using that by (simp add: fresh_line_def)
  obtain w1 where w1: "println ''EXCEPTION: PAGE FAULT'' w = (Ok (), w1)" "fresh_line w1" using line [OF assms] by blast
  obtain w2 where w2: "println (''Accessed Address: '' @ cr2) w1 = (Ok (), w2)" "fresh_line w2" using line [OF wf [OF w1(2)]] by blast
  obtain w3 where w3: "println (''Error Code: '' @ code) w2 = (Ok (), w3)" "fresh_line w3" using line [OF wf [OF w2(2)]] by blast
  obtain w4 where w4: "println frame w3 = (Ok (), w4)" "fresh_line w4" using line [OF wf [OF w3(2)]] by blast
  show "\<exists>w'. page_fault_handler cr2 code frame w = (Ok Hangs, w') \<and> fresh_line w'"
    using w1 w2 w3 w4 by (simp add: page_fault_handler_def)
  show "double_fault_handler frame w = (Panic Explicit, w)" by (simp add: double_fault_handler_def panic_def)
qed

end
