(* ===== verification/Panic_Handler.thy ===== *)
theory Panic_Handler
  imports Shell_Line
begin

text \<open>
  The panic handler, \<open>panic.rs\<close>: the last thing the kernel does. It reports on the screen, hides the
  cursor and hangs the processor with interrupts off. The state in which it hangs is the result of
  the model. The location and the message come formatted from \<open>PanicInfo\<close>, a parameter.
\<close>

section \<open>The handler\<close>

definition separator :: "(writer, infallible, unit) op" where
  "separator =
     try_bind (println []) (\<lambda>_.
     try_bind (for_each [0..<60] (\<lambda>_. print ''='')) (\<lambda>_.
     try_bind (println []) (\<lambda>_.
     println [])))"

definition panic_location :: "string option \<Rightarrow> string" where
  "panic_location location = (case location of
      Some loc \<Rightarrow> ''(at '' @ loc @ '')''
    | None \<Rightarrow> ''(at <unspecified>)'')"

definition panic_handler :: "string option \<Rightarrow> string \<Rightarrow> unit kernel_op" where
  "panic_handler location message =
     try_bind (on_screen (set_color_code (color_code_new White Black))) (\<lambda>_.
     try_bind (on_screen (with_color (color_into_code DarkGray) separator)) (\<lambda>_.
     try_bind (on_screen (with_color (color_into_code LightRed) (print ''ERROR: ''))) (\<lambda>_.
     try_bind (on_screen (print ''kernel panicked '')) (\<lambda>_.
     try_bind (on_screen (with_color (color_into_code LightGray) (print (panic_location location)))) (\<lambda>_.
     try_bind (on_screen (println '':'')) (\<lambda>_.
     try_bind (on_screen (println [])) (\<lambda>_.
     try_bind (on_screen (with_color (color_into_code LightGray) (println message))) (\<lambda>_.
     on_ports disable_cursor))))))))"

section \<open>The rows of the screen as text\<close>

text \<open>
  \<open>shown w rows row\<close>: the screen ends with the given rows and, below them, a bottom row that holds
  the text \<open>row\<close> and blanks, with the next character to go behind it.
\<close>

definition row_of :: "u8 list \<Rightarrow> u8 list" where
  "row_of bs = bs @ replicate (80 - length bs) (of_char (CHR '' ''))"

definition shown :: "writer \<Rightarrow> u8 list list \<Rightarrow> u8 list \<Rightarrow> bool" where
  "shown w rows row \<longleftrightarrow> writer_wf w \<and> column_position w = length row \<and> length row \<le> 80
     \<and> (\<exists>above. map (map ascii_character) (chars w) = above @ rows @ [row_of row])"

definition text_bytes :: "string \<Rightarrow> u8 list" where
  "text_bytes text = map (glyph \<circ> of_char) text"

lemma shown_color [simp]: "shown (w\<lparr>color_code := c\<rparr>) rows row \<longleftrightarrow> shown w rows row"
  by (simp add: shown_def writer_wf_def)

lemma shown_byte:
  assumes "shown w rows row" "length row < 80" "b \<noteq> line_feed"
  shows "\<exists>w'. write_byte b w = (Ok (), w') \<and> color_code w' = color_code w \<and> shown w' rows (row @ [b])"
proof -
  let ?c = "\<lparr>ascii_character = b, char_color = color_code w\<rparr>"
  let ?w = "w\<lparr>chars := (chars w)[24 := (chars w ! 24)[column_position w := ?c]], column_position := Suc (column_position w)\<rparr>"
  have wf: "writer_wf w" and col: "column_position w = length row" using assms(1) by (simp_all add: shown_def)
  obtain above where above: "map (map ascii_character) (chars w) = above @ rows @ [row_of row]"
    using assms(1) by (auto simp: shown_def)
  have "write_byte b w = put_byte b w" using assms(2,3) col by (simp add: write_byte_def put_byte_def buffer_size)
  then have run: "write_byte b w = (Ok (), ?w)" using put_byte_eq [OF wf] col assms(2) by simp
  have "writer_wf ?w"
    using wf col assms(2) set_update_subset_insert [of "chars w" 24] by (fastforce simp: writer_wf_def buffer_size)
  moreover have len: "length (chars w) = 25" using wf by (simp add: writer_wf_def buffer_size)
  then have n: "length (above @ rows) = 24" using arg_cong [OF above, of length] by simp
  have "map ascii_character (chars w ! 24) = (above @ rows @ [row_of row]) ! 24" using len by (simp flip: above)
  then have last: "map ascii_character (chars w ! 24) = row_of row" using n by (metis append_assoc nth_append_length)
  have "replicate (80 - length row) x = x # replicate (80 - Suc (length row)) x" for x :: u8
    using assms(2) by (metis Suc_diff_Suc replicate_Suc)
  then have "(row_of row)[length row := b] = row_of (row @ [b])" by (simp add: row_of_def)
  then have "map (map ascii_character) (chars ?w) = (above @ rows @ [row_of row])[24 := row_of (row @ [b])]"
    using last col by (simp add: map_update above)
  then have "map (map ascii_character) (chars ?w) = above @ rows @ [row_of (row @ [b])]"
    using n by (metis append_assoc list_update_length)
  ultimately show ?thesis using run col assms(2) by (auto simp: shown_def)
qed

lemma shown_string:
  assumes "shown w rows row" "length row + length bs \<le> 80" "line_feed \<notin> set bs"
  shows "\<exists>w'. write_string bs w = (Ok (), w') \<and> color_code w' = color_code w \<and> shown w' rows (row @ map glyph bs)"
  using assms
proof (induction bs arbitrary: w row)
  case (Cons b bs)
  have "glyph b \<noteq> line_feed" using Cons.prems(3) by (auto simp: glyph_def line_feed_def)
  then obtain w1 where w1: "write_byte (glyph b) w = (Ok (), w1)" "color_code w1 = color_code w" "shown w1 rows (row @ [glyph b])"
    using shown_byte [OF Cons.prems(1), of "glyph b"] Cons.prems(2) by auto
  have eq: "(if is_printable b then write_byte b else write_byte 0xfe) = write_byte (glyph b)" by (simp add: glyph_def)
  show ?case using Cons.IH [OF w1(3)] Cons.prems w1 by (simp add: write_string_def eq)
qed (simp add: write_string_def)

lemma shown_print:
  assumes "shown w rows row" "length row + length str \<le> 80" "CHR 0x0A \<notin> set str"
  obtains w' where "print str w = (Ok (), w')" "color_code w' = color_code w" "shown w' rows (row @ text_bytes str)"
  using shown_string [OF assms(1), of "map of_char str"] assms(2) line_feed_text [OF assms(3)]
  by (auto simp: print_def text_bytes_def)

lemma shown_println:
  assumes "shown w rows row" "length row + length str \<le> 80" "CHR 0x0A \<notin> set str" "length rows < 24"
  obtains w' where "println str w = (Ok (), w')" "color_code w' = color_code w"
    "shown w' (rows @ [row_of (row @ text_bytes str)]) []"
proof -
  obtain w1 where w1: "print str w = (Ok (), w1)" "color_code w1 = color_code w" "shown w1 rows (row @ text_bytes str)"
    by (rule shown_print [OF assms(1-3)])
  let ?w = "w1\<lparr>chars := tl (chars w1) @ [replicate BUFFER_WIDTH (blank (color_code w1))], column_position := 0\<rparr>"
  have wf: "writer_wf w1" using w1(3) by (simp add: shown_def)
  obtain above where above: "map (map ascii_character) (chars w1) = above @ rows @ [row_of (row @ text_bytes str)]"
    using w1(3) by (auto simp: shown_def)
  have "length (chars w1) = 25" using wf by (simp add: writer_wf_def buffer_size)
  then have "above \<noteq> []" using arg_cong [OF above, of length] assms(4) by auto
  then have "map (map ascii_character) (tl (chars w1)) = tl above @ rows @ [row_of (row @ text_bytes str)]"
    using above by (simp add: map_tl)
  then have "shown ?w (rows @ [row_of (row @ text_bytes str)]) []"
    using writer_wf_scrolled [OF wf] by (simp add: shown_def row_of_def buffer_size blank_def)
  then show thesis using that [of ?w] w1(1,2) new_line_eq [OF wf] by (simp add: println_eq)
qed

lemma shown_fresh: "fresh_line w \<longleftrightarrow> shown w [] []"
proof -
  have "(\<exists>above. map (map ascii_character) (chars w) = above @ [r]) \<longleftrightarrow> chars w \<noteq> [] \<and> map ascii_character (last (chars w)) = r" for r
    by (cases "chars w" rule: rev_cases) auto
  moreover have "chars w \<noteq> []" if "writer_wf w" using that by (auto simp: writer_wf_def buffer_size)
  ultimately show ?thesis by (auto simp: fresh_line_def shown_def row_of_def)
qed

section \<open>The report\<close>

lemma print_repeat: "for_each xs (\<lambda>_. print s) = print (concat (replicate (length xs) s))"
proof (induction xs)
  case Nil
  show ?case by (simp add: fun_eq_iff print_def write_string_def)
next
  case (Cons x xs)
  show ?case by (rule ext) (simp add: print_append Cons.IH)
qed

lemma separator_eq: "separator = try_bind (println []) (\<lambda>_. try_bind (print (replicate 60 (CHR ''=''))) (\<lambda>_. try_bind (println []) (\<lambda>_. println [])))"
proof -
  have "concat (replicate n [c]) = replicate n c" for n and c :: char by (induction n) simp_all
  then show ?thesis by (simp add: separator_def print_repeat)
qed

lemma separator_ok:
  assumes "writer_wf w"
  obtains w' where "separator w = (Ok (), w')" "color_code w' = color_code w"
    "shown w' [row_of (text_bytes (replicate 60 (CHR ''=''))), row_of []] []"
proof -
  obtain w1 where w1: "println [] w = (Ok (), w1)" "fresh_line w1" "color_code w1 = color_code w"
    by (rule println_ok [OF assms])
  then have "shown w1 [] []" by (simp add: shown_fresh)
  then obtain w2 where w2: "print (replicate 60 (CHR ''='')) w1 = (Ok (), w2)" "color_code w2 = color_code w1"
    "shown w2 [] (text_bytes (replicate 60 (CHR ''='')))"
    by (rule shown_print [where str = "replicate 60 (CHR ''='')"]) auto
  obtain w3 where w3: "println [] w2 = (Ok (), w3)" "color_code w3 = color_code w2" "shown w3 [row_of (text_bytes (replicate 60 (CHR ''='')))] []"
    by (rule shown_println [OF w2(3), where str = "[]"]) (auto simp: text_bytes_def)
  obtain w4 where w4: "println [] w3 = (Ok (), w4)" "color_code w4 = color_code w3"
    "shown w4 [row_of (text_bytes (replicate 60 (CHR ''=''))), row_of []] []"
    by (rule shown_println [OF w3(3), where str = "[]"]) (auto simp: text_bytes_def)
  show thesis by (rule that [of w4]) (use w1 w2 w3 w4 in \<open>simp_all add: separator_eq\<close>)
qed

text \<open>\<open>with_color\<close> around an operation that keeps the colour.\<close>

lemma shown_color_print:
  assumes "shown w rows row" "length row + length str \<le> 80" "CHR 0x0A \<notin> set str"
  obtains w' where "with_color c (print str) w = (Ok (), w')" "color_code w' = color_code w" "shown w' rows (row @ text_bytes str)"
proof -
  obtain w1 where "print str (w\<lparr>color_code := c\<rparr>) = (Ok (), w1)" "shown w1 rows (row @ text_bytes str)"
    by (rule shown_print [where w = "w\<lparr>color_code := c\<rparr>"]) (use assms in auto)
  then show thesis using that by (auto simp: with_color_def)
qed

lemma shown_color_println:
  assumes "shown w rows row" "length row + length str \<le> 80" "CHR 0x0A \<notin> set str" "length rows < 24"
  obtains w' where "with_color c (println str) w = (Ok (), w')" "color_code w' = color_code w"
    "shown w' (rows @ [row_of (row @ text_bytes str)]) []"
proof -
  obtain w1 where "println str (w\<lparr>color_code := c\<rparr>) = (Ok (), w1)" "shown w1 (rows @ [row_of (row @ text_bytes str)]) []"
    by (rule shown_println [where w = "w\<lparr>color_code := c\<rparr>"]) (use assms in auto)
  then show thesis using that by (auto simp: with_color_def)
qed

lemma panic_handler_shows:
  assumes wf: "writer_wf (screen k)" and loc: "length (panic_location location) \<le> 56" "CHR 0x0A \<notin> set (panic_location location)"
    and msg: "length message \<le> 80" "CHR 0x0A \<notin> set message"
  obtains k' where "panic_handler location message k = (Ok (), k')"
    "shown (screen k') [row_of (text_bytes (replicate 60 (CHR ''=''))), row_of [],
        row_of (text_bytes (''ERROR: kernel panicked '' @ panic_location location @ '':'')), row_of [], row_of (text_bytes message)] []"
proof -
  let ?sep = "row_of (text_bytes (replicate 60 (CHR ''='')))"
  let ?w0 = "screen k\<lparr>color_code := color_code_new White Black\<rparr>"
  let ?dg = "color_into_code DarkGray"
  obtain w where w: "separator (?w0\<lparr>color_code := ?dg\<rparr>) = (Ok (), w)" "shown w [?sep, row_of []] []"
    by (rule separator_ok [of "?w0\<lparr>color_code := ?dg\<rparr>"]) (use wf in \<open>auto simp: writer_wf_def\<close>)
  let ?w1 = "w\<lparr>color_code := color_code_new White Black\<rparr>"
  have w1: "with_color ?dg separator ?w0 = (Ok (), ?w1)" using w(1) by (simp add: with_color_def)
  have "shown ?w1 [?sep, row_of []] []" using w(2) by simp
  then obtain w2 where w2: "with_color (color_into_code LightRed) (print ''ERROR: '') ?w1 = (Ok (), w2)"
    "shown w2 [?sep, row_of []] (text_bytes ''ERROR: '')"
    by (rule shown_color_print [where str = "''ERROR: ''"]) auto
  obtain w3 where w3: "print ''kernel panicked '' w2 = (Ok (), w3)"
    "shown w3 [?sep, row_of []] (text_bytes ''ERROR: '' @ text_bytes ''kernel panicked '')"
    by (rule shown_print [OF w2(2), where str = "''kernel panicked ''"]) (auto simp: text_bytes_def)
  obtain w4 where w4: "with_color (color_into_code LightGray) (print (panic_location location)) w3 = (Ok (), w4)"
    "shown w4 [?sep, row_of []] ((text_bytes ''ERROR: '' @ text_bytes ''kernel panicked '') @ text_bytes (panic_location location))"
    by (rule shown_color_print [OF w3(2), where str = "panic_location location"]) (use loc in \<open>auto simp: text_bytes_def\<close>)
  let ?line = "row_of (text_bytes (''ERROR: kernel panicked '' @ panic_location location @ '':''))"
  have line: "row_of (((text_bytes ''ERROR: '' @ text_bytes ''kernel panicked '') @ text_bytes (panic_location location)) @ text_bytes '':'') = ?line"
    by (simp add: text_bytes_def)
  obtain w5 where w5: "println '':'' w4 = (Ok (), w5)" "shown w5 [?sep, row_of [], ?line] []"
    by (rule shown_println [OF w4(2), where str = "'':''"]) (use loc(1) line in \<open>auto simp: text_bytes_def\<close>)
  obtain w6 where w6: "println [] w5 = (Ok (), w6)" "shown w6 [?sep, row_of [], ?line, row_of []] []"
    by (rule shown_println [OF w5(2), where str = "[]"]) (auto simp: text_bytes_def)
  obtain w7 where w7: "with_color (color_into_code LightGray) (println message) w6 = (Ok (), w7)"
    "shown w7 [?sep, row_of [], ?line, row_of [], row_of (text_bytes message)] []"
    by (rule shown_color_println [OF w6(2) _ msg(2)]) (use msg(1) in auto)
  show thesis
    by (rule that [of "k\<lparr>screen := w7, ports := snd (disable_cursor (ports k))\<rparr>"])
      (use w1 w2(1) w3(1) w4(1) w5(1) w6(1) w7 in
        \<open>simp_all add: panic_handler_def on_screen_Ok set_color_code_def on_ports_def disable_cursor_def out_def\<close>)
qed

text \<open>Whatever it is given to print, the handler comes to its end.\<close>

lemma prints_color:
  assumes "prints (on_screen m)"
  shows "prints (on_screen (with_color c m))"
  unfolding prints_def
proof (intro allI impI)
  fix k :: kernel assume "writer_wf (screen k)"
  then have "writer_wf (screen (k\<lparr>screen := screen k\<lparr>color_code := c\<rparr>\<rparr>))" by (simp add: writer_wf_def)
  then obtain x k1 where "on_screen m (k\<lparr>screen := screen k\<lparr>color_code := c\<rparr>\<rparr>) = (Ok x, k1)" "writer_wf (screen k1)"
    using assms unfolding prints_def by blast
  then show "\<exists>x k'. on_screen (with_color c m) k = (Ok x, k') \<and> writer_wf (screen k') \<and> screen_only k k'"
    by (auto simp: on_screen_def with_color_def screen_only_def writer_wf_def split: prod.splits)
qed

lemma prints_separator: "prints (on_screen separator)"
  unfolding prints_def
proof (intro allI impI)
  fix k :: kernel assume "writer_wf (screen k)"
  then obtain w where "separator (screen k) = (Ok (), w)" "color_code w = color_code (screen k)" "writer_wf w"
    by (rule separator_ok) (simp add: shown_def)
  then show "\<exists>x k'. on_screen separator k = (Ok x, k') \<and> writer_wf (screen k') \<and> screen_only k k'"
    by (simp add: on_screen_def screen_only_def)
qed

lemma panic_handler_ends:
  assumes "writer_wf (screen k)"
  obtains k' where "panic_handler location message k = (Ok (), k')" "writer_wf (screen k')"
    "color_code (screen k') = color_code_new White Black" "vfs_state k' = vfs_state k" "cursor_hidden (crtc_after d (ports k'))"
proof -
  let ?report = "try_bind (on_screen (with_color (color_into_code DarkGray) separator)) (\<lambda>_.
     try_bind (on_screen (with_color (color_into_code LightRed) (print ''ERROR: ''))) (\<lambda>_.
     try_bind (on_screen (print ''kernel panicked '')) (\<lambda>_.
     try_bind (on_screen (with_color (color_into_code LightGray) (print (panic_location location)))) (\<lambda>_.
     try_bind (on_screen (println '':'')) (\<lambda>_.
     try_bind (on_screen (println [])) (\<lambda>_.
     on_screen (with_color (color_into_code LightGray) (println message))))))))"
  let ?k = "k\<lparr>screen := screen k\<lparr>color_code := color_code_new White Black\<rparr>\<rparr>"
  have "prints ?report"
    by (intro prints_bind prints_color prints_separator prints_print settles_prints settles_println)
  moreover have "writer_wf (screen ?k)" using assms by (simp add: writer_wf_def)
  ultimately obtain u k1 where k1: "?report ?k = (Ok u, k1)" "writer_wf (screen k1)" "screen_only ?k k1"
    unfolding prints_def by blast
  obtain log where log: "disable_cursor (ports k1) = (Ok (), log)" "cursor_hidden (crtc_after d log)"
    using disable_cursor_hides by blast
  have "panic_handler location message k = try_bind ?report (\<lambda>_. on_ports disable_cursor) ?k"
    by (simp add: panic_handler_def set_color_code_def on_screen_Ok try_bind_assoc)
  then show thesis
    using that [of "k1\<lparr>ports := log\<rparr>"] k1 log by (simp add: on_ports_Ok screen_only_def)
qed

text \<open>
  C36: a panic is reported. Whatever state the screen is in, the panic handler does not fail itself; it
  leaves the colours reset, the cursor hidden and the file system as it is. When the location and
  the message fit into a row each, the screen then ends with the separator, the line with the
  location and the message, whatever was on it before.
\<close>

theorem panic_is_reported:
  assumes "writer_wf (screen k)"
  shows "\<exists>k'. panic_handler location message k = (Ok (), k') \<and> vfs_state k' = vfs_state k
    \<and> color_code (screen k') = color_code_new White Black \<and> cursor_hidden (crtc_after d (ports k'))
    \<and> (length (panic_location location) \<le> 56 \<and> CHR 0x0A \<notin> set (panic_location location) \<and> length message \<le> 80 \<and> CHR 0x0A \<notin> set message
        \<longrightarrow> shown (screen k') [row_of (text_bytes (replicate 60 (CHR ''=''))), row_of [],
              row_of (text_bytes (''ERROR: kernel panicked '' @ panic_location location @ '':'')), row_of [],
              row_of (text_bytes message)] [])"
proof -
  obtain k' where k': "panic_handler location message k = (Ok (), k')"
    "color_code (screen k') = color_code_new White Black" "vfs_state k' = vfs_state k" "cursor_hidden (crtc_after d (ports k'))"
    by (rule panic_handler_ends [OF assms])
  show ?thesis
  proof (intro exI conjI impI; (elim conjE)?)
    assume fits: "length (panic_location location) \<le> 56" "CHR 0x0A \<notin> set (panic_location location)"
      "length message \<le> 80" "CHR 0x0A \<notin> set message"
    show "shown (screen k') [row_of (text_bytes (replicate 60 (CHR ''=''))), row_of [],
        row_of (text_bytes (''ERROR: kernel panicked '' @ panic_location location @ '':'')), row_of [], row_of (text_bytes message)] []"
      by (rule panic_handler_shows [OF assms fits]) (use k'(1) in simp)
  qed (use k' in simp_all)
qed

definition panic_example :: kernel where
  "panic_example = \<lparr>screen = writer_init blank_screen, ports = [], vfs_state = vfs_new bt_empty bt_empty\<rparr>"

theorem panic_is_reported_witness:
  "\<exists>k'. panic_handler (Some ''src/task/executor.rs:91:40'') ''task_queue full: 0'' panic_example = (Ok (), k')
    \<and> (\<exists>above. length above = 24 \<and> map (map ascii_character) (chars (screen k')) ! 23 = row_of (text_bytes ''task_queue full: 0'')
         \<and> map (map ascii_character) (chars (screen k')) = above @ [row_of []])"
proof -
  have wf: "writer_wf (screen panic_example)" using displays_init by (simp add: panic_example_def displays_def)
  obtain k' where k': "panic_handler (Some ''src/task/executor.rs:91:40'') ''task_queue full: 0'' panic_example = (Ok (), k')"
    "shown (screen k') [row_of (text_bytes (replicate 60 (CHR ''=''))), row_of [],
       row_of (text_bytes (''ERROR: kernel panicked '' @ panic_location (Some ''src/task/executor.rs:91:40'') @ '':'')), row_of [],
       row_of (text_bytes ''task_queue full: 0'')] []"
    using panic_is_reported [OF wf, of "Some ''src/task/executor.rs:91:40''" "''task_queue full: 0''"]
    by (auto simp: panic_location_def)
  then obtain above where above: "map (map ascii_character) (chars (screen k')) = above @ [row_of (text_bytes (replicate 60 (CHR ''=''))), row_of [],
       row_of (text_bytes (''ERROR: kernel panicked '' @ panic_location (Some ''src/task/executor.rs:91:40'') @ '':'')), row_of [],
       row_of (text_bytes ''task_queue full: 0''), row_of []]" "writer_wf (screen k')"
    by (auto simp: shown_def)
  have n: "length above = 19"
    using arg_cong [OF above(1), of length] above(2) by (simp add: writer_wf_def buffer_size)
  show ?thesis
    by (rule exI [of _ k'], rule conjI [OF k'(1)],
        rule exI [of _ "above @ [row_of (text_bytes (replicate 60 (CHR ''=''))), row_of [],
       row_of (text_bytes (''ERROR: kernel panicked '' @ panic_location (Some ''src/task/executor.rs:91:40'') @ '':'')), row_of [],
       row_of (text_bytes ''task_queue full: 0'')]"])
      (simp add: above(1) n nth_append)
qed

end
