(* ===== verification/Kernel_Main.thy ===== *)
theory Kernel_Main
  imports Frame_Allocator Interrupts Panic_Handler
begin

text \<open>
  The entry point, \<open>main.rs\<close>: the kernel's parts are set up one after the other and the executor gets
  its only task, the shell. The state is what \<open>kernel_main\<close> has made when it calls \<open>executor.run()\<close>;
  interrupts that come in before are left out.
\<close>

section \<open>The statics and locals of the boot\<close>

text \<open>What the boot uses of other crates, and the address of the stack for double faults.\<close>

record ('g, 'm, 'f, 'e, 'q) boot_deps =
  hw_gdt :: "'g gdt_ops"
  hw_virt :: virt_ops
  hw_stack :: nat
  hw_table_at :: "nat \<Rightarrow> nat \<Rightarrow> 'm"
  hw_frame_of :: "nat \<Rightarrow> 'f option"
  hw_map_to :: "nat \<Rightarrow> 'f \<Rightarrow> ('m \<times> frame_allocator, 'e, unit) op"
  hw_queue :: "(u64, 'q) queue_ops"

text \<open>What the code reads of \<open>BootInfo\<close>.\<close>

record boot_info =
  physical_memory_offset :: nat
  boot_memory_map :: memory_map

record ('g, 'm, 'u, 'q) boot =
  b_screen :: writer
  b_segments :: "'g segments"
  b_idt :: "idt option"
  b_pics :: bool
  b_interrupts :: bool
  b_cr3 :: nat
  b_memory :: "'m memory option"
  b_devices :: char_device_registry
  b_vfs :: "vfs option"
  b_next_task :: nat
  b_executor :: "('u, 'q) executor option"

text \<open>Before the first statement: what the bootloader left on the screen and in \<open>CR3\<close>.\<close>

definition power_on :: "screen_char list list \<Rightarrow> nat \<Rightarrow> ('g, 'm, 'u, 'q) boot" where
  "power_on video_memory cr3 = \<lparr>b_screen = writer_init video_memory, b_segments = segments_unset, b_idt = None,
     b_pics = False, b_interrupts = False, b_cr3 = cr3, b_memory = None, b_devices = bt_empty, b_vfs = None,
     b_next_task = 0, b_executor = None\<rparr>"

definition boot_screen :: "(writer, infallible, 'a) op \<Rightarrow> (('g, 'm, 'u, 'q) boot, infallible, 'a) op" where
  "boot_screen m = (\<lambda>b. case m (b_screen b) of (r, w) \<Rightarrow> (r, b\<lparr>b_screen := w\<rparr>))"

definition boot_segments :: "('g segments, infallible, 'a) op \<Rightarrow> (('g, 'm, 'u, 'q) boot, infallible, 'a) op" where
  "boot_segments m = (\<lambda>b. case m (b_segments b) of (r, c) \<Rightarrow> (r, b\<lparr>b_segments := c\<rparr>))"

definition boot_idt :: "(idt option, infallible, 'a) op \<Rightarrow> (('g, 'm, 'u, 'q) boot, infallible, 'a) op" where
  "boot_idt m = (\<lambda>b. case m (b_idt b) of (r, c) \<Rightarrow> (r, b\<lparr>b_idt := c\<rparr>))"

definition boot_pics :: "(bool, infallible, 'a) op \<Rightarrow> (('g, 'm, 'u, 'q) boot, infallible, 'a) op" where
  "boot_pics m = (\<lambda>b. case m (b_pics b) of (r, c) \<Rightarrow> (r, b\<lparr>b_pics := c\<rparr>))"

definition enable_interrupts :: "(('g, 'm, 'u, 'q) boot, infallible, unit) op" where
  "enable_interrupts = (\<lambda>b. (Ok (), b\<lparr>b_interrupts := True\<rparr>))"

definition boot_mapper :: "('g, 'm, 'f, 'e, 'q) boot_deps \<Rightarrow> boot_info \<Rightarrow> (('g, 'm, 'u, 'q) boot, infallible, unit) op" where
  "boot_mapper deps info =
     try_bind (case virt_new (hw_virt deps) (physical_memory_offset info) of None \<Rightarrow> panic Explicit | Some a \<Rightarrow> ret a)
       (\<lambda>phys_mem_offset b.
     try_bind (memory_init (hw_virt deps) (hw_table_at deps) (b_cr3 b) phys_mem_offset) (\<lambda>m b.
       (Ok (), b\<lparr>b_memory := Some \<lparr>mapper = m, frames = allocator_init (boot_memory_map info), heap = None\<rparr>\<rparr>)) b)"

definition boot_heap :: "('g, 'm, 'f, 'e, 'q) boot_deps \<Rightarrow> (('g, 'm, 'u, 'q) boot, infallible, unit) op" where
  "boot_heap deps = (\<lambda>b. case b_memory b of
      None \<Rightarrow> (Panic Unwrap, b)
    | Some mem \<Rightarrow>
        (case expect (init_heap (hw_frame_of deps) (hw_map_to deps)) mem of (r, c) \<Rightarrow> (r, b\<lparr>b_memory := Some c\<rparr>)))"

definition boot_devices :: "(char_device_registry, infallible, 'a) op \<Rightarrow> (('g, 'm, 'u, 'q) boot, infallible, 'a) op" where
  "boot_devices m = (\<lambda>b. case m (b_devices b) of (r, c) \<Rightarrow> (r, b\<lparr>b_devices := c\<rparr>))"

text \<open>\<open>fs::init()\<close>, which has no result: what goes wrong in it panics.\<close>

definition boot_fs :: "(('g, 'm, 'u, 'q) boot, infallible, unit) op" where
  "boot_fs = (\<lambda>b. case fs_init (b_devices b) of
      (Ok _, v) \<Rightarrow> (Ok (), b\<lparr>b_vfs := Some v\<rparr>)
    | (Err e, v) \<Rightarrow> (Panic Unwrap, b\<lparr>b_vfs := Some v\<rparr>)
    | (Panic p, v) \<Rightarrow> (Panic p, b\<lparr>b_vfs := Some v\<rparr>))"

definition boot_executor :: "(u64, 'q) queue_ops \<Rightarrow> 'u \<Rightarrow> (('g, 'm, 'u, 'q) boot, infallible, unit) op" where
  "boot_executor ops shell = (\<lambda>b. case task_new shell (b_next_task b) of (t, n) \<Rightarrow>
     case spawn ops t (executor_new ops) of (r, ex) \<Rightarrow> (r, b\<lparr>b_next_task := n, b_executor := Some ex\<rparr>))"

section \<open>The entry point\<close>

definition banner :: string where
  "banner = ''RiptideOS (v'' @ CARGO_PKG_VERSION @ '')''"

text \<open>Up to the point where interrupts are enabled, and from there on.\<close>

definition boot_tables :: "('g, 'm, 'f, 'e, 'q) boot_deps \<Rightarrow> (('g, 'm, 'u, 'q) boot, infallible, unit) op" where
  "boot_tables deps =
     try_bind (boot_screen (println banner)) (\<lambda>_.
     try_bind (boot_segments (gdt_init (hw_gdt deps) (hw_virt deps) (hw_stack deps))) (\<lambda>_.
     try_bind (boot_idt init_idt) (\<lambda>_.
     try_bind (boot_pics init_pics) (\<lambda>_.
     enable_interrupts))))"

definition boot_services :: "('g, 'm, 'f, 'e, 'q) boot_deps \<Rightarrow> boot_info \<Rightarrow> 'u \<Rightarrow> (('g, 'm, 'u, 'q) boot, infallible, unit) op" where
  "boot_services deps info shell =
     try_bind (boot_mapper deps info) (\<lambda>_.
     try_bind (boot_heap deps) (\<lambda>_.
     try_bind (boot_devices (expect char_init)) (\<lambda>_.
     try_bind boot_fs (\<lambda>_.
     boot_executor (hw_queue deps) shell))))"

definition kernel_main :: "('g, 'm, 'f, 'e, 'q) boot_deps \<Rightarrow> boot_info \<Rightarrow> 'u \<Rightarrow> (('g, 'm, 'u, 'q) boot, infallible, unit) op" where
  "kernel_main deps info shell = try_bind (boot_tables deps) (\<lambda>_. boot_services deps info shell)"

section \<open>The boot\<close>

lemma expect_char_init: "(expect char_init bt_empty :: (infallible, unit) outcome \<times> _) = (Ok (), snd (char_init bt_empty))"
  by code_simp

text \<open>The executor has the shell as its only task, ready to be polled.\<close>

lemma boot_executor_run:
  assumes "lawful_queue ops" "b_next_task b = 0"
  obtains ex where "boot_executor ops shell b = (Ok (), b\<lparr>b_next_task := 1, b_executor := Some ex\<rparr>)"
    "tasks ex = [(shell_id, \<lparr>task_id = shell_id, future = shell\<rparr>)]" "q_list ops (task_queue ex) = [shell_id]"
    "q_capacity ops (task_queue ex) = 100" "waker_cache ex = bt_empty"
proof -
  have new: "q_list ops (q_new ops 100) = []" "q_capacity ops (q_new ops 100) = 100"
    using queue_new [OF assms(1)] by simp_all
  have t: "task_new shell 0 = (\<lparr>task_id = 0, future = shell\<rparr>, 1)" "shell_id = 0"
    by (simp_all add: task_new_def shell_id_def fetch_add_def atomic_value_def)
  show thesis
  proof (cases rule: queue_push [OF assms(1), where a = "0 :: u64" and q = "q_new ops 100"])
    case (1 q)
    show thesis
      by (rule that [of "\<lparr>tasks = [(0, \<lparr>task_id = 0, future = shell\<rparr>)], task_queue = q, waker_cache = bt_empty\<rparr>"])
        (use 1 new t assms(2) in
          \<open>simp_all add: boot_executor_def spawn_def executor_new_def wake_task_def bt_contains_key_def Let_def\<close>)
  next
    case 2
    then show thesis using new by simp
  qed
qed

text \<open>The banner and the descriptor table, before the heap.\<close>

lemma boot_banner:
  assumes "writer_wf w"
  obtains w' where "println banner w = (Ok (), w')" "writer_wf w'"
    "fresh_line w \<Longrightarrow> shown w' [row_of (text_bytes ''RiptideOS (v0.1.0)'')] []"
    "fresh_line w'"
proof -
  obtain w' where w': "println banner w = (Ok (), w')" "fresh_line w'"
    by (rule println_ok [OF assms])
  moreover have "shown w' [row_of (text_bytes ''RiptideOS (v0.1.0)'')] []" if "fresh_line w"
  proof (rule shown_println [where w = w and rows = "[]" and row = "[]" and str = banner])
    show "shown w [] []" using that by (simp add: shown_fresh)
  qed (use w'(1) in \<open>auto simp: banner_def CARGO_PKG_VERSION_def\<close>)
  ultimately show thesis using that [of w'] by (simp add: fresh_line_def)
qed

text \<open>The hardware as the documentation has it, and where the bootloader has put things.\<close>

definition lawful_boot :: "('g, 'm, 'f, 'e, 'q) boot_deps \<Rightarrow> boot_info \<Rightarrow> nat \<Rightarrow> bool" where
  "lawful_boot deps info cr3 \<longleftrightarrow> lawful_gdt (hw_gdt deps) \<and> lawful_virt (hw_virt deps) \<and> lawful_queue (hw_queue deps)
     \<and> hw_stack deps + STACK_SIZE < 2 ^ 47 \<and> physical_memory_offset info + cr3 < 2 ^ 47"

lemma boot_tables_run:
  assumes "lawful_boot deps info cr3" "writer_wf (writer_init video)"
  obtains w seg table where "fresh_line w" "fresh_line (writer_init video) \<Longrightarrow> shown w [row_of (text_bytes ''RiptideOS (v0.1.0)'')] []"
    "segments_ready (hw_gdt deps) (hw_stack deps) seg" "init_idt None = (Ok (), Some table)"
    "boot_tables deps (power_on video cr3) = (Ok (), (power_on video cr3)\<lparr>b_screen := w, b_segments := seg, b_idt := Some table,
       b_pics := True, b_interrupts := True\<rparr>)"
proof -
  obtain w where w: "println banner (writer_init video) = (Ok (), w)" "fresh_line w"
    "fresh_line (writer_init video) \<Longrightarrow> shown w [row_of (text_bytes ''RiptideOS (v0.1.0)'')] []"
    using boot_banner [OF assms(2)] by metis
  obtain seg where seg: "gdt_init (hw_gdt deps) (hw_virt deps) (hw_stack deps) segments_unset = (Ok (), seg)"
    "segments_ready (hw_gdt deps) (hw_stack deps) seg"
    by (rule gdt_init_ok [of "hw_gdt deps" "hw_virt deps" "hw_stack deps"]) (use assms(1) in \<open>auto simp: lawful_boot_def\<close>)
  obtain table where table: "init_idt None = (Ok (), Some table)" by (simp add: init_idt_def)
  show thesis
    by (rule that [OF w(2) _ seg(2) table])
      (use w seg(1) table in \<open>simp_all add: boot_tables_def power_on_def boot_screen_def boot_segments_def boot_idt_def
        boot_pics_def init_pics_def enable_interrupts_def\<close>)
qed

definition first_memory :: "('g, 'm, 'f, 'e, 'q) boot_deps \<Rightarrow> boot_info \<Rightarrow> nat \<Rightarrow> 'm memory" where
  "first_memory deps info cr3 = \<lparr>mapper = hw_table_at deps (physical_memory_offset info + cr3) (physical_memory_offset info),
     frames = allocator_init (boot_memory_map info), heap = None\<rparr>"

lemma boot_mapper_run:
  assumes "lawful_boot deps info cr3" "b_cr3 b = cr3"
  shows "boot_mapper deps info b = (Ok (), b\<lparr>b_memory := Some (first_memory deps info cr3)\<rparr>)"
proof -
  have "virt_new (hw_virt deps) (physical_memory_offset info) = Some (physical_memory_offset info)"
    "virt_add (hw_virt deps) (physical_memory_offset info) cr3 = Some (physical_memory_offset info + cr3)"
    using assms(1) by (auto simp: lawful_boot_def lawful_virt_def)
  then show ?thesis
    using assms(2) by (simp add: boot_mapper_def memory_init_def active_level_4_table_def first_memory_def)
qed

text \<open>A kernel that cannot map its heap goes no further.\<close>

lemma kernel_main_panics:
  fixes deps :: "('g, 'm, 'f, 'e, 'q) boot_deps" and shell :: 'u
  assumes "lawful_boot deps info cr3" "writer_wf (writer_init video)"
    and "init_heap (hw_frame_of deps) (hw_map_to deps) (first_memory deps info cr3) = (r, mem)" "r \<noteq> Ok ()"
  shows "\<exists>p b. kernel_main deps info shell (power_on video cr3) = (Panic p, b)
    \<and> fresh_line (b_screen b) \<and> b_vfs b = None \<and> b_executor b = None"
proof (rule boot_tables_run [OF assms(1,2)])
  fix w seg table
  assume w: "fresh_line w"
    and run: "boot_tables deps (power_on video cr3 :: ('g, 'm, 'u, 'q) boot) = (Ok (), (power_on video cr3)\<lparr>b_screen := w, b_segments := seg,
       b_idt := Some table, b_pics := True, b_interrupts := True\<rparr>)"
  show ?thesis
    using w run assms(3,4)
    by (cases r) (auto simp: boot_mapper_run [OF assms(1)] kernel_main_def boot_services_def boot_heap_def expect_def power_on_def)
qed

lemma kernel_main_boots:
  fixes deps :: "('g, 'm, 'f, 'e, 'q) boot_deps" and shell :: 'u
  assumes "lawful_boot deps info cr3" "writer_wf (writer_init video)"
    and "init_heap (hw_frame_of deps) (hw_map_to deps) (first_memory deps info cr3) = (Ok (), mem)"
  obtains b ex where "kernel_main deps info shell (power_on video cr3) = (Ok (), b)"
    "fresh_line (b_screen b)" "fresh_line (writer_init video) \<Longrightarrow> shown (b_screen b) [row_of (text_bytes ''RiptideOS (v0.1.0)'')] []"
    "b_memory b = Some mem" "b_vfs b = Some booted" "b_executor b = Some ex"
    "tasks ex = [(shell_id, \<lparr>task_id = shell_id, future = shell\<rparr>)]" "q_list (hw_queue deps) (task_queue ex) = [shell_id]"
proof (rule boot_tables_run [OF assms(1,2)])
  fix w seg table
  assume w: "fresh_line w" "fresh_line (writer_init video) \<Longrightarrow> shown w [row_of (text_bytes ''RiptideOS (v0.1.0)'')] []"
    and run: "boot_tables deps (power_on video cr3 :: ('g, 'm, 'u, 'q) boot) = (Ok (), (power_on video cr3)\<lparr>b_screen := w, b_segments := seg,
       b_idt := Some table, b_pics := True, b_interrupts := True\<rparr>)"
  let ?b = "(power_on video cr3)\<lparr>b_screen := w, b_segments := seg, b_idt := Some table, b_pics := True, b_interrupts := True,
    b_memory := Some mem, b_devices := snd (char_init bt_empty), b_vfs := Some booted\<rparr>"
  have q: "lawful_queue (hw_queue deps)" using assms(1) by (simp add: lawful_boot_def)
  obtain ex where ex: "boot_executor (hw_queue deps) shell ?b = (Ok (), ?b\<lparr>b_next_task := 1, b_executor := Some ex\<rparr>)"
    "tasks ex = [(shell_id, \<lparr>task_id = shell_id, future = shell\<rparr>)]" "q_list (hw_queue deps) (task_queue ex) = [shell_id]"
    by (rule boot_executor_run [OF q, of ?b]) (auto simp: power_on_def)
  have "expect (init_heap (hw_frame_of deps) (hw_map_to deps)) (first_memory deps info cr3) =
      ((Ok (), mem) :: (infallible, unit) outcome \<times> _)"
    using assms(3) by (simp add: expect_def)
  then have run': "kernel_main deps info shell (power_on video cr3) = (Ok (), ?b\<lparr>b_next_task := 1, b_executor := Some ex\<rparr>)"
    using run ex(1) boot
    by (simp add: boot_mapper_run [OF assms(1)] kernel_main_def boot_services_def boot_heap_def boot_devices_def boot_fs_def expect_char_init power_on_def)
  show thesis by (rule that [OF run' _ _ _ _ _ ex(2,3)]) (use w in simp_all)
qed

section \<open>Interrupts wait for the tables\<close>

text \<open>\<open>keeps_tables m\<close>: \<open>m\<close> leaves the tables and the interrupt flag alone.\<close>

definition tables :: "('g, 'm, 'u, 'q) boot \<Rightarrow> 'g segments \<times> idt option \<times> bool \<times> bool" where
  "tables b = (b_segments b, b_idt b, b_pics b, b_interrupts b)"

definition keeps_tables :: "(('g, 'm, 'u, 'q) boot, infallible, 'a) op \<Rightarrow> bool" where
  "keeps_tables m \<longleftrightarrow> (\<forall>b. tables (snd (m b)) = tables b)"

lemma keeps_tables_bind: "keeps_tables m \<Longrightarrow> (\<And>x. keeps_tables (f x)) \<Longrightarrow> keeps_tables (try_bind m f)"
  unfolding keeps_tables_def
proof
  fix b
  assume m: "\<forall>b. tables (snd (m b)) = tables b" and f: "\<And>x. \<forall>b. tables (snd (f x b)) = tables b"
  show "tables (snd (try_bind m f b)) = tables b"
    using m [rule_format, of b] f by (cases "m b"; cases "fst (m b)") (auto simp: try_bind_def)
qed

lemma keeps_tables_parts:
  "keeps_tables (boot_mapper deps info)" "keeps_tables (boot_heap deps)" "keeps_tables (boot_devices m)"
  "keeps_tables boot_fs" "keeps_tables (boot_executor ops shell)"
proof -
  show "keeps_tables (boot_mapper deps info)"
    by (simp add: keeps_tables_def tables_def boot_mapper_def memory_init_def active_level_4_table_def try_bind_def
        ret_def panic_def split: option.split)
  show "keeps_tables (boot_heap deps)"
    by (simp add: keeps_tables_def tables_def boot_heap_def split: option.split prod.split)
  show "keeps_tables (boot_devices m)"
    by (simp add: keeps_tables_def tables_def boot_devices_def split: prod.split)
  show "keeps_tables boot_fs"
    by (simp add: keeps_tables_def tables_def boot_fs_def split: prod.split outcome.split)
  show "keeps_tables (boot_executor ops shell)"
    by (simp add: keeps_tables_def tables_def boot_executor_def split: prod.split)
qed

lemma keeps_tables_services: "keeps_tables (boot_services deps info shell)"
  unfolding boot_services_def by (intro keeps_tables_bind keeps_tables_parts)

text \<open>When it returns, interrupts are on.\<close>

lemma kernel_main_interrupts:
  assumes "kernel_main deps info shell b = (Ok (), b')"
  shows "b_interrupts b'"
proof -
  obtain b1 where b1: "boot_tables deps b = (Ok (), b1)" "boot_services deps info shell b1 = (Ok (), b')"
    using assms by (auto simp: kernel_main_def elim: try_bind_OkE)
  then have "b_interrupts b1" by (auto simp: boot_tables_def enable_interrupts_def elim!: try_bind_OkE)
  then show ?thesis
    using b1(2) keeps_tables_services [of deps info shell] by (auto simp: keeps_tables_def tables_def dest!: spec [of _ b1])
qed

text \<open>Whatever panics before interrupts are enabled, they stay off.\<close>

lemma boot_tables_on:
  assumes "boot_tables deps (power_on video cr3 :: ('g, 'm, 'u, 'q) boot) = (r, b)" "b_interrupts b"
  obtains seg table where "r = Ok ()" "gdt_init (hw_gdt deps) (hw_virt deps) (hw_stack deps) segments_unset = (Ok (), seg)"
    "init_idt None = (Ok (), Some table)" "tables b = (seg, Some table, True, True)"
proof -
  obtain r1 w where w: "println banner (writer_init video) = (r1, w)" by fastforce
  obtain r2 seg where seg: "gdt_init (hw_gdt deps) (hw_virt deps) (hw_stack deps) segments_unset = (r2, seg)" by fastforce
  obtain table where table: "init_idt None = (Ok (), Some table)" by (simp add: init_idt_def)
  note unfolds = boot_tables_def power_on_def boot_screen_def boot_segments_def boot_idt_def boot_pics_def init_pics_def
    enable_interrupts_def tables_def
  have "r1 = Ok ()" using assms w by (cases r1) (auto simp: unfolds try_bind_def)
  moreover have "r2 = Ok ()" using assms w seg \<open>r1 = Ok ()\<close> by (cases r2) (auto simp: unfolds try_bind_def)
  ultimately show thesis using that [of seg table] assms(1) w seg table by (auto simp: unfolds)
qed


text \<open>A machine to boot on: a table of descriptors by their place, the lower half of the addresses, plain page tables.\<close>

definition list_gdt :: "descriptor option list gdt_ops" where
  "list_gdt = \<lparr>gdt_new = [None],
     gdt_append = (\<lambda>d g. if length g + descriptor_size d \<le> 8
       then Some (of_nat (length g), g @ (case d of KernelCodeSegment \<Rightarrow> [Some d] | TssSegment \<Rightarrow> [Some d, None])) else None),
     gdt_entry = (\<lambda>g i. if unat i < length g then g ! unat i else None), gdt_used = length\<rparr>"

lemma list_gdt_lawful: "lawful_gdt list_gdt"
proof -
  have "unat (of_nat (length g) :: u16) = length g" if "length g + descriptor_size d \<le> 8" for g :: "descriptor option list" and d
    using that by (simp add: unat_of_nat)
  then show ?thesis
    by (auto simp: lawful_gdt_def list_gdt_def nth_append split: descriptor.split if_splits)
qed

definition example_boot :: "(descriptor option list, nat \<rightharpoonup> nat, nat, unit, u64 list \<times> nat) boot_deps" where
  "example_boot = \<lparr>hw_gdt = list_gdt, hw_virt = lower_half, hw_stack = 0x200000, hw_table_at = (\<lambda>_ _. Map.empty),
     hw_frame_of = frame_number, hw_map_to = example_map_to, hw_queue = list_queue\<rparr>"

definition example_info :: boot_info where
  "example_info = \<lparr>physical_memory_offset = 0x18000000000,
     boot_memory_map = [\<lparr>usable = True, start_addr = 0x100000, end_addr = 0x120000\<rparr>]\<rparr>"

lemma example_boot_lawful: "lawful_boot example_boot example_info 0x1000"
  by (simp add: lawful_boot_def example_boot_def example_info_def list_gdt_lawful lower_half_lawful list_queue_lawful STACK_SIZE_def)

lemma example_boot_heap:
  obtains mem where "init_heap (hw_frame_of example_boot) (hw_map_to example_boot) (first_memory example_boot example_info 0x1000) = (Ok (), mem)"
proof -
  have "first_memory example_boot example_info 0x1000 = example_memory"
    by (simp add: first_memory_def example_boot_def example_info_def example_memory_def)
  then show thesis
    using that example_heap by (cases "init_heap frame_number example_map_to example_memory") (auto simp: example_boot_def)
qed

lemma blank_screen_wf: "writer_wf (writer_init blank_screen)"
  using displays_init by (simp add: displays_def)


end
