(* ===== verification/Spec2Isabelle.thy ===== *)
theory Spec2Isabelle
  imports Vfs_Correct Vfs_Types Shell_Session Wakeup_Overflow Block_Device Kernel_Main
begin

text \<open>
  A verification library for the RiptideOS kernel (the Rust sources under \<open>src/kernel/src\<close>; file names
  below are relative to it).

  \<^bold>\<open>The kernel.\<close> The bootloader calls \<open>kernel_main\<close>. It prints a banner, loads the segment and
  interrupt tables, turns interrupts on, maps the heap with frames from the memory map, registers the
  character devices and the file system types, mounts the root file system and \<open>/dev\<close>, and gives a
  cooperative executor its one task, the shell. The keyboard interrupt puts scancodes into a queue and
  wakes the shell; the shell decodes them, edits a line on the VGA text screen and executes it as a
  command on the virtual file system. A panic ends in a handler that reports on the screen.

  \<^bold>\<open>How code becomes definitions.\<close> A function that changes state is an operation \<open>('s, 'e, 'a) op\<close>: it
  takes a state and gives an outcome - \<open>Ok\<close>, \<open>Err\<close> for a returned error, \<open>Panic\<close> - and the state it
  leaves. \<open>try_bind\<close> is the operator \<open>?\<close> and sequencing, so every early return and every \<open>unwrap\<close>,
  \<open>expect\<close>, \<open>assert!\<close>, \<open>todo!\<close> or checked addition is a branch of the model. The kernel is built with
  the development profile, in which arithmetic overflow panics. \<open>u8\<close> to \<open>u64\<close> are words of that width;
  \<open>usize\<close> is \<open>nat\<close> with \<open>usize_limit\<close> where it matters. Statics are fields of the state. An \<open>Arc\<close> to a
  mutable object is an index into a heap of the state, so that aliasing is explicit; the strong
  count of a directory entry is what decides whether a weak reference can be upgraded. Trait objects
  are records of functions, with the trait's default methods as a default record.

  \<^bold>\<open>Theories.\<close>
  \<^item> \<open>Prelude\<close>: outcomes, operations, the rules for them, and the locale \<open>counted_system\<close> of step
    relations whose invariant holds while counters are in range. \<open>BTree_Map\<close>: the standard library's
    ordered map as a sorted list. \<open>Sync_Util\<close>: \<open>util/sync_cell.rs\<close>, \<open>util/defer.rs\<close>.
  \<^item> \<open>Fs_Types\<close>: \<open>fs/mod.rs\<close> and the listing types of \<open>fs/vfs.rs\<close>. \<open>Fs_Path\<close>: \<open>fs/path.rs\<close>.
    \<open>Char_Devices\<close>: \<open>device/char.rs\<close>, \<open>drivers/char\<close>. \<open>Fs_Registry\<close>: \<open>fs/registry.rs\<close>,
    \<open>drivers/fs/mod.rs\<close>. \<open>Ram_Fs\<close>, \<open>Dev_Fs\<close>: \<open>drivers/fs/ram.rs\<close>, \<open>drivers/fs/dev.rs\<close>.
    \<open>Directory_Cache\<close> and \<open>Vfs\<close>: \<open>fs/vfs.rs\<close>, one definition for each method, the public ones with
    the prefix \<open>vfs_\<close>; the record \<open>vfs\<close> is \<open>VirtualFileSystem\<close> with the heaps and the static counters.
  \<^item> About the virtual file system: \<open>Vfs_Inv\<close> (the invariant \<open>vfs_inv\<close>), \<open>Vfs_Steps\<close> (the pieces
    of the operations keep it), \<open>Vfs_Namespace\<close> (the tree of names: which place a path names),
    \<open>Vfs_Resolve\<close>, \<open>Vfs_Files\<close>, \<open>Vfs_Create\<close>, \<open>Vfs_Ops\<close>, \<open>Vfs_Mount\<close>, \<open>Vfs_Listing\<close> (the operations refine
    specifications on that tree), \<open>Vfs_Machine\<close> (system calls as a step relation, \<open>vfs_step\<close>), \<open>Vfs_Room\<close>
    (overflow only when a counter is used up), \<open>Vfs_Boot\<close>, \<open>Vfs_Laws\<close>, \<open>Vfs_Session\<close> (the state after
    \<open>fs::init\<close>, and runs from there), \<open>Vfs_Correct\<close> and \<open>Vfs_Types\<close> (the properties).
  \<^item> \<open>Vga\<close>: \<open>vga.rs\<close>, and the screen as the last 25 rows of a terminal. \<open>Shell_Parser\<close>:
    \<open>shell/parser.rs\<close>. \<open>Shell\<close>: the commands of \<open>shell/mod.rs\<close>; the record \<open>kernel\<close> is the screen, the
    port writes and the virtual file system they act on. \<open>Shell_Editor\<close>: its function \<open>run\<close>.
    \<open>Shell_Laws\<close>, \<open>Shell_Line\<close>, \<open>Shell_Correct\<close>: what commands print, the bounds of the editor, the
    line on the screen. \<open>Shell_Session\<close>: the editor refines a session over keys, where Enter executes
    the line typed.
  \<^item> \<open>Virt_Addr\<close>, \<open>Segment_Tables\<close>, \<open>Frame_Allocator\<close>: \<open>gdt.rs\<close>, \<open>memory.rs\<close>, \<open>allocator.rs\<close>.
    \<open>Task_Executor\<close>: \<open>task/mod.rs\<close>, \<open>task/executor.rs\<close>. \<open>Keyboard_Queue\<close>: \<open>shell/keyboard.rs\<close>. \<open>Wakeup\<close>:
    the executor and the stream of scancodes as a machine whose steps interleave with the keyboard
    and timer interrupts, cut at every access to shared data; no wake-up is lost and a key
    reaches the shell. \<open>Wakeup_Overflow\<close>: how the task queue can overflow all the same. \<open>Interrupts\<close>:
    \<open>interrupts.rs\<close>; the handlers are the interrupt steps of that machine. \<open>Panic_Handler\<close>: \<open>panic.rs\<close>.
    \<open>Block_Device\<close>: \<open>device/block.rs\<close>, \<open>drivers/block/floppy.rs\<close>. \<open>Kernel_Main\<close>: \<open>main.rs\<close> up to
    \<open>executor.run\<close>. This theory: the boot, which spans them all.

  \<^bold>\<open>Interfaces.\<close> \<open>keyed_map\<close> (an ordered map: \<open>BTree_Map\<close>), \<open>name_registry\<close> (a registry that refuses a name
  twice: character devices, file system types), \<open>file_driver\<close> (a read stays within the
  buffer and changes no node, a write takes the whole buffer or fails: null, zero and ram files), \<open>directory_driver\<close> (what is
  created is found: files and directories of the ram file system), \<open>counted_system\<close> (the system calls;
  the wake-up machine). Each is interpreted on the definitions of the model.

  \<^bold>\<open>Parameters.\<close> Code of other crates is an argument of the definitions, and what its documentation
  promises is a predicate: \<open>lawful_queue\<close> (\<open>crossbeam_queue::ArrayQueue\<close>), \<open>lawful_waker\<close>
  (\<open>futures_util\<close>'s \<open>AtomicWaker\<close>), \<open>lawful_string\<close> and \<open>lawful_deque\<close> (\<open>heapless\<close>), \<open>lawful_virt\<close> and
  \<open>lawful_gdt\<close> (\<open>x86_64\<close>), \<open>frame_law\<close> and \<open>mapper_law\<close> (its frames and page table mapper). The keyboard decoder \<open>pc_keyboard\<close> has no law, except \<open>ascii_layout\<close> for the
  line on the screen. The programming of the interrupt controllers (\<open>pic8259\<close>), what a port read returns and how \<open>Debug\<close> prints a character outside ASCII are parameters
  without laws. The witnesses use list-based instances that satisfy the laws.

  \<^bold>\<open>Bounds.\<close> Identifiers of mounts, descriptors and cache entries are 64-bit and wrap around.
  Properties of the virtual file system are about states before that has happened (\<open>vfs_small\<close>), and exact outcomes
  about states in which also no node counter or link count is at its last value (\<open>roomy\<close>). Every
  loop has a termination proof but one: \<open>run_ready_tasks\<close> may run forever, as a task can wake
  itself, so it is a partial function, shown to return when the wake-ups are bounded by a measure. The
  endless loop of the shell is modelled over the scancodes that have arrived, a list of any length;
  that of the executor by its rounds.

  \<^bold>\<open>Not modelled.\<close>
  \<^item> Exhaustion of the heap: the global allocator is the crate \<open>linked_list_allocator\<close>, and the model
    has no allocation failures.
  \<^item> Contention of spin locks. The kernel has one processor and one task, no interrupt handler takes a
    lock of the file system, and printing holds its lock with interrupts off.
  \<^item> Interrupts while the kernel boots or a command runs. In \<open>Wakeup\<close> they arrive at any point of the
    executor, of the stream and of the shell's handling of a scancode; the models of the commands and of the
    line editor run without them, so dots printed by the timer are not on their screens.
  \<^item> The processor and the devices beyond their tables, registers and port writes that the code
    touches, and the compiler's encoding of \<open>async\<close> functions as state machines.
  \<^item> \<open>drivers/block/ram.rs\<close> is a unit struct without methods, and module declarations and attributes have no
    behaviour.
\<close>

text \<open>
  C7: the boot, from power-on to the prompt. If the heap can be mapped, \<open>kernel_main\<close> reaches the
  executor: the file system is the one with \<open>/dev\<close> and \<open>/test.txt\<close>, in a state that satisfies the
  invariant of the VFS; the shell is the executor's only task and ready; the screen has the banner as
  its last line, above an empty row; and when the shell is started on this state it shows its prompt
  on that row. If the heap cannot be mapped the kernel panics before there is a file system or a task.
\<close>

theorem kernel_boots:
  assumes "lawful_boot boot_deps info cr3" "lawful_deps deps" "writer_wf (writer_init video)"
    and "init_heap (hw_frame_of boot_deps) (hw_map_to boot_deps) (first_memory boot_deps info cr3) = (r, mem)"
  shows "case r of
      Ok _ \<Rightarrow> (\<exists>b ex. kernel_main boot_deps info shell (power_on video cr3) = (Ok (), b)
        \<and> b_memory b = Some mem \<and> heap mem = Some (HEAP_START, HEAP_SIZE) \<and> b_vfs b = Some booted \<and> vfs_inv booted
        \<and> b_executor b = Some ex \<and> tasks ex = [(shell_id, \<lparr>task_id = shell_id, future = shell\<rparr>)]
        \<and> q_list (hw_queue boot_deps) (task_queue ex) = [shell_id]
        \<and> (fresh_line (writer_init video) \<longrightarrow> shown (b_screen b) [row_of (text_bytes ''RiptideOS (v0.1.0)'')] [])
        \<and> (\<exists>sh. shell_start deps \<lparr>screen = b_screen b, ports = log, vfs_state = booted\<rparr> = (Ok (), sh)
             \<and> row_bytes (screen (kernel_state sh)) = row_of (map of_char get_prompt)
             \<and> column_position (screen (kernel_state sh)) = length get_prompt))
    | _ \<Rightarrow> (\<exists>p b. kernel_main boot_deps info shell (power_on video cr3) = (Panic p, b)
        \<and> b_vfs b = None \<and> b_executor b = None)"
proof (cases "r = Ok ()")
  case False
  then show ?thesis using kernel_main_panics [OF assms(1,3,4) False, of shell] by (cases r) auto
next
  case True
  have h: "heap mem = Some (HEAP_START, HEAP_SIZE)"
    using assms(4) True by (auto simp: init_heap_def elim!: try_bind_OkE)
  obtain b ex where b: "kernel_main boot_deps info shell (power_on video cr3) = (Ok (), b)"
    "fresh_line (b_screen b)" "fresh_line (writer_init video) \<longrightarrow> shown (b_screen b) [row_of (text_bytes ''RiptideOS (v0.1.0)'')] []"
    "b_memory b = Some mem" "b_vfs b = Some booted" "b_executor b = Some ex"
    "tasks ex = [(shell_id, \<lparr>task_id = shell_id, future = shell\<rparr>)]" "q_list (hw_queue boot_deps) (task_queue ex) = [shell_id]"
    using kernel_main_boots [OF assms(1,3) assms(4) [unfolded True]] by metis
  have "fresh_line (screen \<lparr>screen = b_screen b, ports = log, vfs_state = booted\<rparr>)" using b(2) by simp
  then obtain sh where "shell_start deps \<lparr>screen = b_screen b, ports = log, vfs_state = booted\<rparr> = (Ok (), sh)"
    "column_position (screen (kernel_state sh)) = 14" "row_bytes (screen (kernel_state sh)) = map of_char get_prompt @ replicate 66 32"
    by (rule shell_start_run [OF _ assms(2)])
  moreover have "length get_prompt = 14" by (simp add: get_prompt_def)
  ultimately show ?thesis using b h booted_inv by (auto simp: True row_of_def)
qed

theorem kernel_boots_witness:
  "\<exists>b ex. kernel_main example_boot example_info () (power_on blank_screen 0x1000) = (Ok (), b)
     \<and> b_vfs b = Some booted \<and> b_executor b = Some ex \<and> q_list list_queue (task_queue ex) = [shell_id]
     \<and> shown (b_screen b) [row_of (text_bytes ''RiptideOS (v0.1.0)'')] []"
proof -
  obtain mem where mem: "init_heap (hw_frame_of example_boot) (hw_map_to example_boot) (first_memory example_boot example_info 0x1000) = (Ok (), mem)"
    by (rule example_boot_heap)
  have fresh: "fresh_line (writer_init blank_screen)" using example_fresh by (simp add: example_kernel_def)
  have "hw_queue example_boot = list_queue" by (simp add: example_boot_def)
  then show ?thesis
    using kernel_boots [OF example_boot_lawful example_lawful(1) blank_screen_wf mem, where shell = "()" and log = "[]"] fresh by auto
qed

end
